(* ===== verification/Prelude.thy ===== *)
theory Prelude
  imports Main "HOL-Library.Word" "HOL-Library.List_Lexorder"
begin

text \<open>
  Shared vocabulary of the development. It fixes the names of the machine types the Rust
  sources use, the type of results (\<open>Ok\<close>, \<open>Err\<close> or a panic) with the meaning of the
  \<open>?\<close> operator, slices of byte sequences, and the generic list facts the components share.

  The collections \<open>outcome_simps\<close> (inversion of a chain of fallible steps) and
  \<open>slice_simps\<close> (positions inside a buffer) are extended here and used by every parser.
\<close>

unbundle bit_operations_syntax

named_theorems outcome_simps \<open>inversion of results built with the question mark operator\<close>
named_theorems slice_simps \<open>slices of a buffer\<close>

section \<open>Machine types\<close>

type_synonym byte = "8 word"
type_synonym bytes = "byte list"
type_synonym u16 = "16 word"
type_synonym u32 = "32 word"
type_synonym u64 = "64 word"
type_synonym i64 = "64 word"

lemma unat_inc: "n \<noteq> -1 \<Longrightarrow> unat (n + 1) = Suc (unat n)" for n :: "'a::len word"
  using unatSuc [of n] by (simp add: add.commute eq_neg_iff_add_eq_0)

text \<open>
  A point of the monotonic clock (\<open>Instant\<close>) and a difference of two (\<open>Duration\<close>), in
  nanoseconds. The range of \<open>Instant\<close> is not bounded, so subtracting a duration never fails. The
  difference of two instants is zero when the second is the later one.
\<close>

type_synonym instant = int
type_synonym duration = nat

definition from_secs :: "nat \<Rightarrow> duration" where
  "from_secs s = s * 1000000000"

definition duration_since :: "instant \<Rightarrow> instant \<Rightarrow> duration" where
  "duration_since later earlier = nat (later - earlier)"

text \<open>An ASCII literal of the source (\<open>b"..."\<close>) as a byte sequence.\<close>

definition ascii :: "string \<Rightarrow> bytes" where
  "ascii s = map of_char s"

lemma ascii_Nil [simp]: "ascii [] = []"
  by (simp add: ascii_def)

lemma ascii_Cons [simp]: "ascii (c # s) = of_char c # ascii s"
  by (simp add: ascii_def)

lemma length_ascii [simp]: "length (ascii s) = length s"
  by (simp add: ascii_def)

section \<open>Results\<close>

text \<open>
  A Rust function that returns \<open>Result\<close> and can also panic (a failed \<open>unwrap\<close>, an
  explicit \<open>panic!\<close>, an index out of range) has three kinds of outcome.
\<close>

datatype ('e, 'a) outcome = Ok 'a | Err 'e | Panic

fun try_bind :: "('e, 'a) outcome \<Rightarrow> ('a \<Rightarrow> ('e, 'b) outcome) \<Rightarrow> ('e, 'b) outcome" where
  "try_bind (Ok a) f = f a"
| "try_bind (Err e) f = Err e"
| "try_bind Panic f = Panic"

text \<open>\<open>unwrap\<close> turns an error into a panic.\<close>

fun unwrap :: "('e, 'a) outcome \<Rightarrow> ('f, 'a) outcome" where
  "unwrap (Ok a) = Ok a"
| "unwrap (Err e) = Panic"
| "unwrap Panic = Panic"

fun is_ok :: "('e, 'a) outcome \<Rightarrow> bool" where
  "is_ok (Ok a) = True"
| "is_ok _ = False"

definition ok_or :: "'e \<Rightarrow> 'a option \<Rightarrow> ('e, 'a) outcome" where
  "ok_or e x = (case x of Some a \<Rightarrow> Ok a | None \<Rightarrow> Err e)"

lemma try_bind_eq_Ok [outcome_simps]:
  "try_bind m f = Ok b \<longleftrightarrow> (\<exists>a. m = Ok a \<and> f a = Ok b)"
  by (cases m) auto

lemma try_bind_eq_Panic [outcome_simps]:
  "try_bind m f = Panic \<longleftrightarrow> m = Panic \<or> (\<exists>a. m = Ok a \<and> f a = Panic)"
  by (cases m) auto

lemma try_bind_eq_Err [outcome_simps]:
  "try_bind m f = Err e \<longleftrightarrow> m = Err e \<or> (\<exists>a. m = Ok a \<and> f a = Err e)"
  by (cases m) auto

lemma unwrap_eq_Ok [outcome_simps]: "unwrap m = Ok a \<longleftrightarrow> m = Ok a"
  by (cases m) auto

lemma unwrap_not_Err [outcome_simps]: "unwrap m \<noteq> Err e"
  by (cases m) auto

lemma unwrap_eq_Panic [outcome_simps]: "unwrap m = Panic \<longleftrightarrow> \<not> is_ok m"
  by (cases m) auto

lemma ok_or_eq_Ok [outcome_simps]: "ok_or e x = Ok a \<longleftrightarrow> x = Some a"
  by (auto simp: ok_or_def split: option.splits)

lemma ok_or_not_Panic [outcome_simps]: "ok_or e x \<noteq> Panic"
  by (auto simp: ok_or_def split: option.splits)

lemma ok_or_eq_Err [outcome_simps]: "ok_or e x = Err d \<longleftrightarrow> x = None \<and> d = e"
  by (auto simp: ok_or_def split: option.splits)

lemma try_bind_cong [fundef_cong]:
  assumes "m = m'" and "\<And>a. m' = Ok a \<Longrightarrow> f a = g a"
  shows "try_bind m f = try_bind m' g"
  using assms by (cases m') auto

section \<open>Slices\<close>

text \<open>\<open>&xs[i..j]\<close>, for \<open>i \<le> j \<le> xs.len()\<close>.\<close>

definition slice :: "'a list \<Rightarrow> nat \<Rightarrow> nat \<Rightarrow> 'a list" where
  "slice xs i j = take (j - i) (drop i xs)"

lemma length_slice [slice_simps]: "j \<le> length xs \<Longrightarrow> length (slice xs i j) = j - i"
  by (simp add: slice_def)

lemma slice_all [slice_simps]: "slice xs 0 (length xs) = xs"
  by (simp add: slice_def)

lemma slice_self [slice_simps]: "slice xs i i = []"
  by (simp add: slice_def)

lemma slice_append_middle [slice_simps]:
  "slice (pre @ mid @ post) (length pre) (length pre + length mid) = mid"
  by (simp add: slice_def)

lemma slice_concat:
  assumes "i \<le> j" and "j \<le> k"
  shows "slice xs i k = slice xs i j @ slice xs j k"
proof -
  from assms obtain a b where "j = i + a" and "k = i + a + b"
    by (metis add.assoc le_Suc_ex)
  then show ?thesis
    by (simp add: slice_def take_add add.commute)
qed

lemma slice_Cons:
  assumes "i < length xs" and "i < j"
  shows "slice xs i j = xs ! i # slice xs (Suc i) j"
proof -
  from assms(2) have "j - i = Suc (j - Suc i)" by simp
  with assms(1) show ?thesis
    by (simp add: slice_def Cons_nth_drop_Suc [symmetric])
qed

lemma slice_snoc:
  assumes "i \<le> j" and "j < length xs"
  shows "slice xs i (Suc j) = slice xs i j @ [xs ! j]"
proof -
  have "slice xs i (Suc j) = slice xs i j @ slice xs j (Suc j)"
    using assms by (intro slice_concat) auto
  moreover have "slice xs j (Suc j) = [xs ! j]"
    using assms by (simp add: slice_Cons slice_self)
  ultimately show ?thesis by simp
qed

lemma set_slice: "set (slice xs i j) \<subseteq> set xs"
  unfolding slice_def by (meson set_drop_subset set_take_subset subset_trans)

section \<open>Lists\<close>

text \<open>\<open>iter().position(p)\<close>: the index of the first element that satisfies \<open>p\<close>.\<close>

fun position :: "('a \<Rightarrow> bool) \<Rightarrow> 'a list \<Rightarrow> nat option" where
  "position p [] = None"
| "position p (x # xs) = (if p x then Some 0 else map_option Suc (position p xs))"

lemma position_None: "position p xs = None \<longleftrightarrow> (\<forall>x\<in>set xs. \<not> p x)"
  by (induction xs) auto

lemma position_Some:
  "position p xs = Some i \<longleftrightarrow> i < length xs \<and> p (xs ! i) \<and> (\<forall>j<i. \<not> p (xs ! j))"
proof (induction xs arbitrary: i)
  case Nil
  then show ?case by simp
next
  case (Cons x xs)
  then show ?case
    by (cases i) (auto simp: less_Suc_eq_0_disj)
qed

lemma position_append_hit:
  "\<forall>x\<in>set xs. \<not> p x \<Longrightarrow> p y \<Longrightarrow> position p (xs @ y # ys) = Some (length xs)"
  by (induction xs) auto

lemma position_take:
  "position p xs = Some i \<Longrightarrow> xs = take i xs @ xs ! i # drop (Suc i) xs"
  by (simp add: position_Some id_take_nth_drop)

text \<open>Filling an array element by element.\<close>

lemma foldl_array:
  "length arr = k + length ys \<Longrightarrow>
   foldl (\<lambda>arr (i, y). arr[i := f y]) arr (zip [k..<k + length ys] ys) = take k arr @ map f ys"
proof (induction ys arbitrary: k arr)
  case (Cons y ys)
  have "zip [k..<k + length (y # ys)] (y # ys) = (k, y) # zip [Suc k..<Suc k + length ys] ys"
    by (simp add: upt_conv_Cons del: upt_Suc)
  moreover have "take (Suc k) (arr[k := f y]) = take k arr @ [f y]"
    using Cons.prems by (simp add: take_Suc_conv_app_nth)
  ultimately show ?case using Cons.IH [of "arr[k := f y]" "Suc k"] Cons.prems by simp
qed simp

text \<open>In a strictly ascending list the elements below a bound are a prefix.\<close>

lemma ascending_below:
  fixes f :: "'a \<Rightarrow> 'b::linorder"
  assumes "sorted_wrt (\<lambda>p q. f p < f q) xs"
  shows "filter (\<lambda>p. f p < b) xs = takeWhile (\<lambda>p. f p < b) xs"
  using assms
proof (induction xs)
  case Nil
  then show ?case by simp
next
  case (Cons x xs)
  have gt: "\<forall>p\<in>set xs. f x < f p" and IH: "sorted_wrt (\<lambda>p q. f p < f q) xs"
    using Cons.prems unfolding sorted_wrt.simps by blast+
  have "filter (\<lambda>p. f p < b) xs = []" if "\<not> f x < b"
    unfolding filter_empty_conv using gt that by (metis less_trans)
  then show ?case using Cons.IH [OF IH] by (cases "f x < b") simp_all
qed

lemma ascending_insert:
  fixes f :: "'a \<Rightarrow> 'b::linorder"
  assumes sorted: "sorted_wrt (\<lambda>p q. f p < f q) xs" and i: "i = length (filter (\<lambda>p. f p < f x) xs)"
    and ne: "\<not> (i < length xs \<and> f (xs ! i) = f x)"
  shows "sorted_wrt (\<lambda>p q. f p < f q) (take i xs @ x # drop i xs)"
proof -
  let ?lt = "\<lambda>p q. f p < f q"
  have i': "i = length (takeWhile (\<lambda>p. f p < f x) xs)" using i ascending_below [OF sorted, of "f x"] by metis
  have tk: "take i xs = takeWhile (\<lambda>p. f p < f x) xs" unfolding i' by (rule takeWhile_eq_take [symmetric])
  have dr: "drop i xs = dropWhile (\<lambda>p. f p < f x) xs" unfolding i' by (rule dropWhile_eq_drop [symmetric])
  have low: "\<forall>p\<in>set (take i xs). f p < f x" unfolding tk by (meson set_takeWhileD)
  have split: "sorted_wrt ?lt (take i xs)" "sorted_wrt ?lt (drop i xs)" "\<forall>p\<in>set (take i xs). \<forall>q\<in>set (drop i xs). f p < f q"
    using sorted sorted_wrt_append [of ?lt "take i xs" "drop i xs"] unfolding append_take_drop_id by blast+
  have up: "\<forall>p\<in>set (drop i xs). f x < f p"
  proof (cases "drop i xs")
    case (Cons y ys)
    have "\<not> f y < f x" using hd_dropWhile [of "\<lambda>p. f p < f x" xs] Cons dr by (metis list.discI list.sel(1))
    moreover have "y = xs ! i" "i < length xs"
      using Cons by (metis hd_drop_conv_nth list.sel(1) drop_all list.discI not_le, metis drop_all list.discI not_le)
    ultimately have "f x < f y" using ne by (metis linorder_neqE)
    moreover have "\<forall>p\<in>set ys. f y < f p" using split(2) unfolding Cons sorted_wrt.simps by blast
    ultimately show ?thesis unfolding Cons by (metis less_trans set_ConsD)
  qed simp
  show ?thesis unfolding sorted_wrt_append sorted_wrt.simps using split low up by (metis set_ConsD)
qed

lemma ascending_snoc:
  fixes f :: "'a \<Rightarrow> 'b::linorder"
  assumes "sorted_wrt (\<lambda>p q. f p < f q) xs" and "xs \<noteq> []" and "f (last xs) < f x"
  shows "sorted_wrt (\<lambda>p q. f p < f q) (xs @ [x])"
proof -
  obtain ys y where xs: "xs = ys @ [y]" using assms(2) by (metis rev_exhaust)
  have "f y < f x" using assms(3) unfolding xs last_snoc .
  moreover have "\<forall>p\<in>set ys. f p < f y" using assms(1) unfolding xs sorted_wrt_append by simp
  ultimately have "\<forall>p\<in>set xs. f p < f x" unfolding xs by (metis Un_iff less_trans set_append set_ConsD empty_iff list.set(1))
  then show ?thesis unfolding sorted_wrt_append using assms(1) by simp
qed

end
