(* ===== verification/Rust_Std.thy ===== *)
theory Rust_Std
  imports Prelude
begin

text \<open>
  What the sources use of Rust's standard library: decimal printing and parsing of integers,
  UTF-8 validation, and \<open>BTreeMap\<close> keyed by byte strings.
\<close>

section \<open>Decimal numbers\<close>

definition is_digit :: "byte \<Rightarrow> bool" where
  "is_digit c \<longleftrightarrow> 0x30 \<le> c \<and> c \<le> 0x39"

definition digit_val :: "byte \<Rightarrow> nat" where
  "digit_val c = unat (c - 0x30)"

definition dec_val :: "bytes \<Rightarrow> nat" where
  "dec_val ds = foldl (\<lambda>n c. 10 * n + digit_val c) 0 ds"

text \<open>\<open>i64::from_str_radix(s, 10)\<close>: an optional sign, at least one digit, no overflow.\<close>

definition i64_of_int :: "int \<Rightarrow> i64 option" where
  "i64_of_int v = (if - (2 ^ 63) \<le> v \<and> v < 2 ^ 63 then Some (word_of_int v) else None)"

fun i64_from_str :: "bytes \<Rightarrow> i64 option" where
  "i64_from_str [] = None"
| "i64_from_str (c # cs) =
     (if c = 0x2D then (if cs \<noteq> [] \<and> list_all is_digit cs then i64_of_int (- int (dec_val cs)) else None)
      else if c = 0x2B then (if cs \<noteq> [] \<and> list_all is_digit cs then i64_of_int (int (dec_val cs)) else None)
      else if list_all is_digit (c # cs) then i64_of_int (int (dec_val (c # cs))) else None)"

text \<open>\<open>to_string()\<close> on unsigned and signed integers.\<close>

fun nat_to_string :: "nat \<Rightarrow> bytes" where
  "nat_to_string n =
     (if n < 10 then [0x30 + of_nat n] else nat_to_string (n div 10) @ [0x30 + of_nat (n mod 10)])"

declare nat_to_string.simps [simp del]

definition int_to_string :: "int \<Rightarrow> bytes" where
  "int_to_string v = (if v < 0 then 0x2D # nat_to_string (nat (- v)) else nat_to_string (nat v))"

definition i64_to_string :: "i64 \<Rightarrow> bytes" where
  "i64_to_string n = int_to_string (sint n)"

lemma of_nat_digit:
  assumes "n < 10"
  shows "is_digit (0x30 + of_nat n)" and "digit_val (0x30 + of_nat n) = n"
    and "(of_nat n = (0 :: byte)) = (n = 0)"
proof -
  from assms have "n \<in> {0,1,2,3,4,5,6,7,8,9}" by auto
  then show "is_digit (0x30 + of_nat n)" and "digit_val (0x30 + of_nat n) = n"
    and "(of_nat n = (0 :: byte)) = (n = 0)"
    by (auto simp: is_digit_def digit_val_def)
qed

lemma digit_cases:
  assumes "is_digit c"
  shows "c = 0x30 + of_nat (digit_val c)" and "digit_val c < 10"
proof -
  from assms have "0x30 \<le> unat c" and le: "unat c \<le> 0x39"
    by (simp_all add: is_digit_def word_le_nat_alt)
  then have d: "digit_val c = unat c - 0x30"
    using assms by (simp add: digit_val_def is_digit_def unat_sub)
  with le show "digit_val c < 10" by simp
  show "c = 0x30 + of_nat (digit_val c)" by (simp add: digit_val_def)
qed

lemma dec_val_snoc [simp]: "dec_val (ds @ [c]) = 10 * dec_val ds + digit_val c"
  by (simp add: dec_val_def)

lemma dec_val_nat_to_string [simp]: "dec_val (nat_to_string n) = n"
proof (induction n rule: nat_to_string.induct)
  case (1 n)
  then show ?case
    by (cases "n < 10")
      (simp_all add: nat_to_string.simps [of n] dec_val_def of_nat_digit)
qed

lemma digits_nat_to_string [simp]: "list_all is_digit (nat_to_string n)"
proof (induction n rule: nat_to_string.induct)
  case (1 n)
  then show ?case
    by (cases "n < 10") (simp_all add: nat_to_string.simps [of n] of_nat_digit)
qed

lemma nat_to_string_not_Nil [simp]: "nat_to_string n \<noteq> []"
  by (subst nat_to_string.simps) simp

lemma hd_nat_to_string: "hd (nat_to_string n) = 0x30 \<longleftrightarrow> n = 0"
proof (induction n rule: nat_to_string.induct)
  case (1 n)
  then show ?case
    by (cases "n < 10") (auto simp: nat_to_string.simps [of n] of_nat_digit(3))
qed

lemma nat_to_string_0: "nat_to_string 0 = [0x30]"
  by (simp add: nat_to_string.simps)

text \<open>A digit string without a leading zero is the one \<open>to_string\<close> prints.\<close>

lemma nat_to_string_dec_val:
  assumes "list_all is_digit ds" and "ds \<noteq> []" and "hd ds = 0x30 \<longrightarrow> length ds = 1"
  shows "nat_to_string (dec_val ds) = ds"
  using assms
proof (induction ds rule: rev_induct)
  case Nil
  then show ?case by simp
next
  case (snoc c ds)
  then have c: "is_digit c" by simp
  show ?case
  proof (cases "ds = []")
    case True
    with c show ?thesis
      by (simp add: dec_val_def nat_to_string.simps digit_cases(2) digit_cases(1) [symmetric])
  next
    case False
    with snoc have hd: "hd ds \<noteq> 0x30" by (cases ds) auto
    with False snoc have IH: "nat_to_string (dec_val ds) = ds" by simp
    with hd have "dec_val ds \<noteq> 0" by (metis nat_to_string_0 list.sel(1))
    with digit_cases(2) [OF c] show ?thesis
      by (subst nat_to_string.simps) (simp add: IH digit_cases(1) [OF c, symmetric])
  qed
qed

lemma i64_of_int_sint [simp]: "i64_of_int (sint n) = Some n"
  using sint_greater_eq [of n] sint_less [of n] by (simp add: i64_of_int_def)

lemma i64_of_int_Some: "i64_of_int v = Some n \<Longrightarrow> sint n = v"
  by (auto simp: i64_of_int_def int_word_sint simp del: of_int_minus split: if_splits)

lemma unat_sint_nonneg: "0 \<le> sint (n::i64) \<Longrightarrow> nat (sint n) = unat n"
  using sint_less [of n] by (simp add: unat_eq_nat_uint uint_sint [of n] take_bit_int_eq_self)

lemma digit_not_sign: "is_digit c \<Longrightarrow> c \<noteq> 0x2D \<and> c \<noteq> 0x2B \<and> c \<noteq> 0x3A \<and> c \<noteq> 0x65"
  by (auto simp: is_digit_def)

lemma i64_from_str_digits:
  assumes "list_all is_digit ds" and "ds \<noteq> []"
  shows "i64_from_str ds = i64_of_int (int (dec_val ds))"
  using assms by (cases ds) (auto dest: digit_not_sign)

text \<open>Parsing what was printed gives the number back.\<close>

lemma i64_from_str_to_string [simp]: "i64_from_str (i64_to_string n) = Some n"
proof (cases "sint n < 0")
  case True
  then have "- int (nat (- sint n)) = sint n" by simp
  with True show ?thesis
    by (simp add: i64_to_string_def int_to_string_def)
next
  case False
  then show ?thesis
    by (simp add: i64_to_string_def int_to_string_def i64_from_str_digits)
qed

lemma i64_from_str_nat [simp]:
  "n < 2 ^ 63 \<Longrightarrow> i64_from_str (nat_to_string n) = Some (word_of_nat n)"
  by (simp add: i64_from_str_digits i64_of_int_def)

section \<open>UTF-8\<close>

text \<open>\<open>str::from_utf8\<close>, by the table of well-formed byte sequences of the standard library.\<close>

definition cont_byte :: "byte \<Rightarrow> bool" where
  "cont_byte b \<longleftrightarrow> 0x80 \<le> b \<and> b \<le> 0xBF"

fun utf8_valid :: "bytes \<Rightarrow> bool" where
  "utf8_valid [] = True"
| "utf8_valid (a # r) =
     (if a < 0x80 then utf8_valid r
      else if 0xC2 \<le> a \<and> a \<le> 0xDF then
        (case r of b # r' \<Rightarrow> cont_byte b \<and> utf8_valid r' | _ \<Rightarrow> False)
      else if 0xE0 \<le> a \<and> a \<le> 0xEF then
        (case r of b # c # r' \<Rightarrow>
           (if a = 0xE0 then 0xA0 \<le> b \<and> b \<le> 0xBF
            else if a = 0xED then 0x80 \<le> b \<and> b \<le> 0x9F else cont_byte b)
           \<and> cont_byte c \<and> utf8_valid r' | _ \<Rightarrow> False)
      else if 0xF0 \<le> a \<and> a \<le> 0xF4 then
        (case r of b # c # d # r' \<Rightarrow>
           (if a = 0xF0 then 0x90 \<le> b \<and> b \<le> 0xBF
            else if a = 0xF4 then 0x80 \<le> b \<and> b \<le> 0x8F else cont_byte b)
           \<and> cont_byte c \<and> cont_byte d \<and> utf8_valid r' | _ \<Rightarrow> False)
      else False)"

lemma utf8_valid_ascii: "list_all (\<lambda>b. b < 0x80) bs \<Longrightarrow> utf8_valid bs"
  by (induction bs) auto

lemma digits_are_ascii: "is_digit c \<Longrightarrow> c < 0x80"
  by (simp add: is_digit_def word_le_nat_alt word_less_nat_alt)

lemma utf8_valid_digits: "list_all is_digit ds \<Longrightarrow> utf8_valid ds"
  by (rule utf8_valid_ascii) (auto simp: list_all_iff digits_are_ascii)

text \<open>Whatever parses as an integer is valid UTF-8.\<close>

lemma i64_from_str_utf8:
  assumes "i64_from_str bs = Some n"
  shows "utf8_valid bs"
proof (cases bs)
  case Nil
  then show ?thesis by simp
next
  case (Cons c cs)
  with assms have "c = 0x2D \<or> c = 0x2B \<or> is_digit c" and "list_all is_digit cs"
    by (auto split: if_splits)
  then have "c < 0x80" and "utf8_valid cs"
    by (auto simp: digits_are_ascii utf8_valid_digits)
  with Cons show ?thesis by simp
qed

section \<open>BTreeMap\<close>

text \<open>
  A \<open>BTreeMap\<close> is the list of its entries in key order (the order of \<open>iter()\<close>); for byte
  strings, the keys of bencoded dictionaries, that is the lexicographic order of \<open>[u8]\<close>.
\<close>

type_synonym 'v btree = "(bytes \<times> 'v) list"

definition bt_wf :: "('k::linorder \<times> 'v) list \<Rightarrow> bool" where
  "bt_wf m \<longleftrightarrow> sorted_wrt (<) (map fst m)"

definition bt_get :: "('k::linorder \<times> 'v) list \<Rightarrow> 'k \<Rightarrow> 'v option" where
  "bt_get m k = map_of m k"

fun bt_put :: "'k::linorder \<Rightarrow> 'v \<Rightarrow> ('k \<times> 'v) list \<Rightarrow> ('k \<times> 'v) list" where
  "bt_put k v [] = [(k, v)]"
| "bt_put k v ((k', v') # m) =
     (if k < k' then (k, v) # (k', v') # m
      else if k = k' then (k, v) # m else (k', v') # bt_put k v m)"

fun bt_del :: "'k::linorder \<Rightarrow> ('k \<times> 'v) list \<Rightarrow> ('k \<times> 'v) list" where
  "bt_del k [] = []"
| "bt_del k ((k', v') # m) = (if k = k' then m else (k', v') # bt_del k m)"

text \<open>\<open>keys().last()\<close>.\<close>

definition bt_last_key :: "('k::linorder \<times> 'v) list \<Rightarrow> 'k option" where
  "bt_last_key m = (if m = [] then None else Some (fst (last m)))"

lemma bt_wf_Nil [simp]: "bt_wf []"
  by (simp add: bt_wf_def)

lemma bt_wf_Cons [simp]: "bt_wf ((k, v) # m) \<longleftrightarrow> (\<forall>k'\<in>fst ` set m. k < k') \<and> bt_wf m"
  by (auto simp: bt_wf_def)

lemma bt_wf_distinct: "bt_wf m \<Longrightarrow> distinct (map fst m)"
  by (auto simp: bt_wf_def strict_sorted_iff)

lemma bt_get_Nil [simp]: "bt_get [] k = None"
  by (simp add: bt_get_def)

lemma keys_bt_put: "fst ` set (bt_put k v m) = insert k (fst ` set m)"
  by (induction k v m rule: bt_put.induct) auto

lemma bt_wf_put: "bt_wf m \<Longrightarrow> bt_wf (bt_put k v m)"
proof (induction k v m rule: bt_put.induct)
  case (1 k v)
  then show ?case by simp
next
  case (2 k v k' v' m)
  then show ?case by (auto simp: keys_bt_put dest: order_less_trans)
qed

lemma bt_get_put: "bt_get (bt_put k v m) k' = (if k' = k then Some v else bt_get m k')"
  unfolding bt_get_def by (induction k v m rule: bt_put.induct) auto

lemma keys_bt_del: "fst ` set (bt_del k m) \<subseteq> fst ` set m"
  by (induction k m rule: bt_del.induct) auto

lemma bt_wf_del: "bt_wf m \<Longrightarrow> bt_wf (bt_del k m)"
  by (induction k m rule: bt_del.induct) (use keys_bt_del in fastforce)+

lemma bt_get_del:
  "bt_wf m \<Longrightarrow> bt_get (bt_del k m) k' = (if k' = k then None else bt_get m k')"
  unfolding bt_get_def
  by (induction k m rule: bt_del.induct) (auto simp: map_of_eq_None_iff rev_image_eqI)

lemma bt_put_snoc:
  "bt_wf m \<Longrightarrow> (\<forall>k'\<in>fst ` set m. k' < k) \<Longrightarrow> bt_put k v m = m @ [(k, v)]"
  by (induction m) auto

lemma bt_wf_snoc [simp]: "bt_wf (m @ [(k, v)]) \<longleftrightarrow> bt_wf m \<and> (\<forall>k'\<in>fst ` set m. k' < k)"
  by (auto simp: bt_wf_def sorted_wrt_append)

lemma bt_last_key_max:
  assumes "bt_wf m" and "bt_last_key m = Some l" and "k \<in> fst ` set m"
  shows "k \<le> l"
  using assms
proof (cases m rule: rev_cases)
  case Nil
  with assms show ?thesis by simp
next
  case (snoc m' kv)
  with assms show ?thesis
    by (cases kv) (auto simp: bt_last_key_def)
qed

lemma bt_wf_sort_key: "bt_wf m \<Longrightarrow> sort_key fst m = m"
  by (simp add: bt_wf_def sorted_sort_id sort_key_id_if_sorted strict_sorted_imp_sorted)

end
