(* ===== verification/Bencode_Access.thy ===== *)
theory Bencode_Access
  imports Rust_Std
begin

text \<open>
  The bencode data model (\<open>btp-bencode/src/reference/bencode_ref.rs\<close>,
  \<open>mutable/bencode_mut.rs\<close>) and the access traits over it (\<open>access/*.rs\<close>).
  \<open>BencodeRef\<close> values carry, at every node, the slice of the input they were decoded from.

  The traits \<open>BDictAccess\<close>, \<open>BListAccess\<close> and \<open>BRefAccess\<close> are interfaces, stated as the locales
  \<open>bdict_access\<close>, \<open>blist_access\<close> and \<open>bref_access\<close> and interpreted on the types that implement
  them. \<open>BConvert\<close> is generic over those traits: its methods take the trait methods they call
  as arguments.
\<close>

section \<open>Data\<close>

datatype BencodeRef =
    RInt i64 bytes
  | RBytes bytes bytes
  | RList "BencodeRef list" bytes
  | RDict "(bytes \<times> BencodeRef) list" bytes

datatype BencodeMut =
    MInt i64
  | MBytes bytes
  | MList "BencodeMut list"
  | MDict "(bytes \<times> BencodeMut) list"

text \<open>\<open>BencodeRefKind\<close>: the view of a value the generic code matches on.\<close>

datatype 'v BencodeRefKind =
    KInt i64
  | KBytes bytes
  | KList "'v list"
  | KDict "'v btree"

fun new_int :: "i64 \<Rightarrow> BencodeMut" where
  "new_int n = MInt n"

fun new_bytes :: "bytes \<Rightarrow> BencodeMut" where
  "new_bytes b = MBytes b"

definition new_list :: BencodeMut where
  "new_list = MList []"

definition new_dict :: BencodeMut where
  "new_dict = MDict []"

section \<open>Accessors of BencodeRef\<close>

fun buffer :: "BencodeRef \<Rightarrow> bytes" where
  "buffer (RInt _ buf) = buf"
| "buffer (RBytes _ buf) = buf"
| "buffer (RList _ buf) = buf"
| "buffer (RDict _ buf) = buf"

fun ref_kind :: "BencodeRef \<Rightarrow> BencodeRef BencodeRefKind" where
  "ref_kind (RInt n _) = KInt n"
| "ref_kind (RBytes n _) = KBytes n"
| "ref_kind (RList n _) = KList n"
| "ref_kind (RDict n _) = KDict n"

fun ref_int :: "BencodeRef \<Rightarrow> i64 option" where
  "ref_int (RInt n _) = Some n"
| "ref_int _ = None"

fun ref_bytes_ext :: "BencodeRef \<Rightarrow> bytes option" where
  "ref_bytes_ext (RBytes n _) = Some n"
| "ref_bytes_ext _ = None"

definition ref_str_ext :: "BencodeRef \<Rightarrow> bytes option" where
  "ref_str_ext b =
     (case ref_bytes_ext b of None \<Rightarrow> None
      | Some bs \<Rightarrow> if utf8_valid bs then Some bs else None)"

definition ref_bytes :: "BencodeRef \<Rightarrow> bytes option" where
  "ref_bytes b = ref_bytes_ext b"

definition ref_str :: "BencodeRef \<Rightarrow> bytes option" where
  "ref_str b = ref_str_ext b"

fun ref_list :: "BencodeRef \<Rightarrow> BencodeRef list option" where
  "ref_list (RList n _) = Some n"
| "ref_list _ = None"

fun ref_dict :: "BencodeRef \<Rightarrow> BencodeRef btree option" where
  "ref_dict (RDict n _) = Some n"
| "ref_dict _ = None"

section \<open>Accessors of BencodeMut\<close>

fun mut_kind :: "BencodeMut \<Rightarrow> BencodeMut BencodeRefKind" where
  "mut_kind (MInt n) = KInt n"
| "mut_kind (MBytes n) = KBytes n"
| "mut_kind (MList n) = KList n"
| "mut_kind (MDict n) = KDict n"

fun mut_int :: "BencodeMut \<Rightarrow> i64 option" where
  "mut_int (MInt n) = Some n"
| "mut_int _ = None"

fun mut_bytes :: "BencodeMut \<Rightarrow> bytes option" where
  "mut_bytes (MBytes n) = Some n"
| "mut_bytes _ = None"

definition mut_str :: "BencodeMut \<Rightarrow> bytes option" where
  "mut_str b =
     (case mut_bytes b of None \<Rightarrow> None
      | Some bs \<Rightarrow> if utf8_valid bs then Some bs else None)"

fun mut_list :: "BencodeMut \<Rightarrow> BencodeMut list option" where
  "mut_list (MList n) = Some n"
| "mut_list _ = None"

fun mut_dict :: "BencodeMut \<Rightarrow> BencodeMut btree option" where
  "mut_dict (MDict n) = Some n"
| "mut_dict _ = None"

text \<open>
  \<open>list_mut\<close> and \<open>dict_mut\<close> hand out a mutable borrow: the model takes the mutation done
  through the borrow and returns the updated value.
\<close>

fun list_mut :: "BencodeMut \<Rightarrow> (BencodeMut list \<Rightarrow> BencodeMut list) \<Rightarrow> BencodeMut option" where
  "list_mut (MList n) f = Some (MList (f n))"
| "list_mut _ f = None"

fun dict_mut :: "BencodeMut \<Rightarrow> (BencodeMut btree \<Rightarrow> BencodeMut btree) \<Rightarrow> BencodeMut option" where
  "dict_mut (MDict n) f = Some (MDict (f n))"
| "dict_mut _ f = None"

section \<open>BDictAccess on BTreeMap\<close>

definition dict_to_list :: "'v btree \<Rightarrow> (bytes \<times> 'v) list" where
  "dict_to_list d = d"

definition dict_lookup :: "'v btree \<Rightarrow> bytes \<Rightarrow> 'v option" where
  "dict_lookup d k = bt_get d k"

definition dict_lookup_mut :: "'v btree \<Rightarrow> bytes \<Rightarrow> ('v \<Rightarrow> 'v) \<Rightarrow> 'v btree option" where
  "dict_lookup_mut d k f = (case bt_get d k of None \<Rightarrow> None | Some v \<Rightarrow> Some (bt_put k (f v) d))"

definition dict_insert :: "'v btree \<Rightarrow> bytes \<Rightarrow> 'v \<Rightarrow> 'v option \<times> 'v btree" where
  "dict_insert d k v = (bt_get d k, bt_put k v d)"

definition dict_remove :: "'v btree \<Rightarrow> bytes \<Rightarrow> 'v option \<times> 'v btree" where
  "dict_remove d k = (bt_get d k, bt_del k d)"

locale bdict_access =
  fixes to_list :: "'d \<Rightarrow> (bytes \<times> 'v) list"
    and lookup :: "'d \<Rightarrow> bytes \<Rightarrow> 'v option"
    and ins :: "'d \<Rightarrow> bytes \<Rightarrow> 'v \<Rightarrow> 'v option \<times> 'd"
    and rem :: "'d \<Rightarrow> bytes \<Rightarrow> 'v option \<times> 'd"
    and inv :: "'d \<Rightarrow> bool"
  assumes to_list_lookup: "inv d \<Longrightarrow> map_of (to_list d) = lookup d"
    and to_list_distinct: "inv d \<Longrightarrow> distinct (map fst (to_list d))"
    and ins_old: "inv d \<Longrightarrow> fst (ins d k v) = lookup d k"
    and ins_lookup: "inv d \<Longrightarrow> lookup (snd (ins d k v)) = (lookup d)(k \<mapsto> v)"
    and ins_inv: "inv d \<Longrightarrow> inv (snd (ins d k v))"
    and rem_old: "inv d \<Longrightarrow> fst (rem d k) = lookup d k"
    and rem_lookup: "inv d \<Longrightarrow> lookup (snd (rem d k)) = (lookup d)(k := None)"
    and rem_inv: "inv d \<Longrightarrow> inv (snd (rem d k))"
begin

lemma in_to_list_iff:
  assumes "inv d"
  shows "(k, v) \<in> set (to_list d) \<longleftrightarrow> lookup d k = Some v"
  using to_list_distinct [OF assms]
  by (simp add: to_list_lookup [OF assms, symmetric])

lemma rem_after_ins:
  assumes "inv d"
  shows "fst (rem (snd (ins d k v)) k) = Some v"
    and "lookup d k = None \<Longrightarrow> lookup (snd (rem (snd (ins d k v)) k)) = lookup d"
  using assms by (auto simp: rem_old rem_lookup ins_lookup ins_inv)

lemma to_list_after_ins:
  assumes "inv d"
  shows "set (to_list (snd (ins d k v))) = insert (k, v) {p \<in> set (to_list d). fst p \<noteq> k}"
  using assms by (auto simp: in_to_list_iff ins_inv ins_lookup split: if_splits)

lemma to_list_after_rem:
  assumes "inv d"
  shows "set (to_list (snd (rem d k))) = {p \<in> set (to_list d). fst p \<noteq> k}"
  using assms by (auto simp: in_to_list_iff rem_inv rem_lookup split: if_splits)

end

interpretation btree_dict: bdict_access dict_to_list dict_lookup dict_insert dict_remove bt_wf
proof unfold_locales
  fix d :: "'v btree" and k v
  assume wf: "bt_wf d"
  show "map_of (dict_to_list d) = dict_lookup d"
    by (rule ext) (simp add: dict_to_list_def dict_lookup_def bt_get_def)
  show "distinct (map fst (dict_to_list d))"
    using wf by (simp add: dict_to_list_def bt_wf_distinct)
  show "dict_lookup (snd (dict_insert d k v)) = (dict_lookup d)(k \<mapsto> v)"
    by (rule ext) (simp add: dict_lookup_def dict_insert_def bt_get_put)
  show "dict_lookup (snd (dict_remove d k)) = (dict_lookup d)(k := None)"
    using wf by (intro ext) (simp add: dict_lookup_def dict_remove_def bt_get_del)
qed (simp_all add: dict_insert_def dict_remove_def dict_lookup_def bt_wf_put bt_wf_del)

section \<open>BListAccess on Vec\<close>

definition list_get :: "'v list \<Rightarrow> nat \<Rightarrow> 'v option" where
  "list_get xs i = (if i < length xs then Some (xs ! i) else None)"

definition list_get_mut :: "'v list \<Rightarrow> nat \<Rightarrow> ('v \<Rightarrow> 'v) \<Rightarrow> 'v list option" where
  "list_get_mut xs i f = (if i < length xs then Some (xs[i := f (xs ! i)]) else None)"

definition list_remove :: "'v list \<Rightarrow> nat \<Rightarrow> 'v option \<times> 'v list" where
  "list_remove xs i =
     (if i \<ge> length xs then (None, xs) else (Some (xs ! i), take i xs @ drop (Suc i) xs))"

text \<open>\<open>Vec::insert\<close> panics when the index is past the end.\<close>

definition list_insert :: "'v list \<Rightarrow> nat \<Rightarrow> 'v \<Rightarrow> (unit, 'v list) outcome" where
  "list_insert xs i x = (if i > length xs then Panic else Ok (take i xs @ x # drop i xs))"

definition list_push :: "'v list \<Rightarrow> 'v \<Rightarrow> 'v list" where
  "list_push xs x = xs @ [x]"

text \<open>The iterator \<open>BListIter\<close>: an index into the list, advanced while \<open>get\<close> succeeds.\<close>

record 'v BListIter =
  index :: nat
  access :: "'v list"

definition blist_into_iter :: "'v list \<Rightarrow> 'v BListIter" where
  "blist_into_iter xs = \<lparr>index = 0, access = xs\<rparr>"

definition blist_next :: "'v BListIter \<Rightarrow> 'v option \<times> 'v BListIter" where
  "blist_next it =
     (let opt_next = list_get (access it) (index it) in
      if opt_next \<noteq> None then (opt_next, it\<lparr>index := index it + 1\<rparr>) else (opt_next, it))"

function blist_collect :: "'v BListIter \<Rightarrow> 'v list" where
  "blist_collect it =
     (case blist_next it of (None, _) \<Rightarrow> [] | (Some x, it') \<Rightarrow> x # blist_collect it')"
  by pat_completeness auto
termination
  by (relation "measure (\<lambda>it. length (access it) - index it)")
    (auto simp: blist_next_def list_get_def Let_def split: if_splits)

declare blist_collect.simps [simp del]

locale blist_access =
  fixes get :: "'l \<Rightarrow> nat \<Rightarrow> 'v option"
    and rem :: "'l \<Rightarrow> nat \<Rightarrow> 'v option \<times> 'l"
    and push :: "'l \<Rightarrow> 'v \<Rightarrow> 'l"
    and len :: "'l \<Rightarrow> nat"
  assumes get_some: "(\<exists>v. get l i = Some v) \<longleftrightarrow> i < len l"
    and push_len: "len (push l v) = Suc (len l)"
    and push_get: "get (push l v) i = (if i = len l then Some v else get l i)"
    and rem_val: "fst (rem l i) = get l i"
    and rem_get: "get (snd (rem l i)) j = (if j < i then get l j else if i < len l then get l (Suc j) else get l j)"
begin

lemma get_none: "get l i = None \<longleftrightarrow> len l \<le> i"
  using get_some [of l i] by (cases "get l i") auto

lemma rem_len: "i < len l \<Longrightarrow> len (snd (rem l i)) = len l - 1"
proof -
  assume i: "i < len l"
  have "get (snd (rem l i)) j = None \<longleftrightarrow> len l - 1 \<le> j" for j
    using i by (auto simp: rem_get get_none)
  then have "len (snd (rem l i)) \<le> j \<longleftrightarrow> len l - 1 \<le> j" for j
    by (simp add: get_none)
  then show ?thesis by (metis order_antisym order_refl)
qed

lemma pop_after_push:
  "fst (rem (push l v) (len l)) = Some v" "j < len l \<Longrightarrow> get (snd (rem (push l v) (len l))) j = get l j"
  by (simp_all add: rem_val push_get rem_get)

end

interpretation vec_list: blist_access list_get list_remove list_push length
  by unfold_locales
    (auto simp: list_get_def list_remove_def list_push_def nth_append min_def)

lemma blist_collect_from:
  "blist_collect \<lparr>index = i, access = xs\<rparr> = drop i xs"
proof (induction "length xs - i" arbitrary: i)
  case 0
  then show ?case
    by (subst blist_collect.simps) (simp add: blist_next_def list_get_def)
next
  case (Suc n)
  then have "i < length xs" by simp
  with Suc show ?case
    by (subst blist_collect.simps)
      (simp add: blist_next_def list_get_def Cons_nth_drop_Suc)
qed

section \<open>BRefAccess\<close>

text \<open>
  The contract of \<open>BRefAccess\<close>: every accessor agrees with \<open>kind\<close>, and \<open>str\<close> is \<open>bytes\<close>
  restricted to valid UTF-8.
\<close>

locale bref_access =
  fixes kind :: "'b \<Rightarrow> 'b BencodeRefKind"
    and int_of :: "'b \<Rightarrow> i64 option"
    and bytes_of :: "'b \<Rightarrow> bytes option"
    and str_of :: "'b \<Rightarrow> bytes option"
    and list_of :: "'b \<Rightarrow> 'b list option"
    and dict_of :: "'b \<Rightarrow> 'b btree option"
  assumes int_kind: "int_of b = Some n \<longleftrightarrow> kind b = KInt n"
    and bytes_kind: "bytes_of b = Some s \<longleftrightarrow> kind b = KBytes s"
    and str_bytes: "str_of b = Some s \<longleftrightarrow> bytes_of b = Some s \<and> utf8_valid s"
    and list_kind: "list_of b = Some l \<longleftrightarrow> kind b = KList l"
    and dict_kind: "dict_of b = Some d \<longleftrightarrow> kind b = KDict d"
begin

lemma accessors_by_kind:
  "int_of b = (case kind b of KInt n \<Rightarrow> Some n | _ \<Rightarrow> None)"
  "bytes_of b = (case kind b of KBytes s \<Rightarrow> Some s | _ \<Rightarrow> None)"
  "list_of b = (case kind b of KList l \<Rightarrow> Some l | _ \<Rightarrow> None)"
  "dict_of b = (case kind b of KDict d \<Rightarrow> Some d | _ \<Rightarrow> None)"
  using int_kind [of b] bytes_kind [of b] list_kind [of b] dict_kind [of b]
  by (cases "kind b"; simp; metis not_Some_eq)+

lemma one_accessor:
  "length (filter id [int_of b \<noteq> None, bytes_of b \<noteq> None, list_of b \<noteq> None, dict_of b \<noteq> None]) = 1"
  by (cases "kind b") (simp_all add: accessors_by_kind)

lemma str_imp_bytes: "str_of b = Some s \<Longrightarrow> bytes_of b = Some s"
  by (simp add: str_bytes)

end

lemma ref_int_Some: "ref_int b = Some n \<longleftrightarrow> ref_kind b = KInt n"
  by (cases b) auto

lemma mut_int_Some: "mut_int b = Some n \<longleftrightarrow> mut_kind b = KInt n"
  by (cases b) auto

interpretation ref_access: bref_access ref_kind ref_int ref_bytes ref_str ref_list ref_dict
proof unfold_locales
  fix b n s l d
  show "ref_int b = Some n \<longleftrightarrow> ref_kind b = KInt n" by (rule ref_int_Some)
  show "ref_bytes b = Some s \<longleftrightarrow> ref_kind b = KBytes s"
    by (cases b) (auto simp: ref_bytes_def)
  show "ref_str b = Some s \<longleftrightarrow> ref_bytes b = Some s \<and> utf8_valid s"
    by (auto simp: ref_str_def ref_str_ext_def ref_bytes_def split: option.splits)
  show "ref_list b = Some l \<longleftrightarrow> ref_kind b = KList l" by (cases b) auto
  show "ref_dict b = Some d \<longleftrightarrow> ref_kind b = KDict d" by (cases b) auto
qed

interpretation mut_access: bref_access mut_kind mut_int mut_bytes mut_str mut_list mut_dict
proof unfold_locales
  fix b n s l d
  show "mut_int b = Some n \<longleftrightarrow> mut_kind b = KInt n" by (rule mut_int_Some)
  show "mut_bytes b = Some s \<longleftrightarrow> mut_kind b = KBytes s" by (cases b) auto
  show "mut_str b = Some s \<longleftrightarrow> mut_bytes b = Some s \<and> utf8_valid s"
    by (auto simp: mut_str_def split: option.splits)
  show "mut_list b = Some l \<longleftrightarrow> mut_kind b = KList l" by (cases b) auto
  show "mut_dict b = Some d \<longleftrightarrow> mut_kind b = KDict d" by (cases b) auto
qed

section \<open>BConvert and BConvertExt\<close>

datatype BencodeConvertError = MissingKey bytes | WrongType bytes string

definition convert_int ::
  "(BencodeConvertError \<Rightarrow> 'e) \<Rightarrow> ('b \<Rightarrow> i64 option) \<Rightarrow> 'b \<Rightarrow> bytes \<Rightarrow> ('e, i64) outcome" where
  "convert_int handle_error int_of bencode error_key =
     ok_or (handle_error (WrongType error_key ''Integer'')) (int_of bencode)"

definition convert_bytes ::
  "(BencodeConvertError \<Rightarrow> 'e) \<Rightarrow> ('b \<Rightarrow> bytes option) \<Rightarrow> 'b \<Rightarrow> bytes \<Rightarrow> ('e, bytes) outcome" where
  "convert_bytes handle_error bytes_of bencode error_key =
     ok_or (handle_error (WrongType error_key ''Bytes'')) (bytes_of bencode)"

definition convert_str ::
  "(BencodeConvertError \<Rightarrow> 'e) \<Rightarrow> ('b \<Rightarrow> bytes option) \<Rightarrow> 'b \<Rightarrow> bytes \<Rightarrow> ('e, bytes) outcome" where
  "convert_str handle_error str_of bencode error_key =
     ok_or (handle_error (WrongType error_key ''UTF-8 Bytes'')) (str_of bencode)"

definition convert_list ::
  "(BencodeConvertError \<Rightarrow> 'e) \<Rightarrow> ('b \<Rightarrow> 'b list option) \<Rightarrow> 'b \<Rightarrow> bytes \<Rightarrow> ('e, 'b list) outcome" where
  "convert_list handle_error list_of bencode error_key =
     ok_or (handle_error (WrongType error_key ''List'')) (list_of bencode)"

definition convert_dict ::
  "(BencodeConvertError \<Rightarrow> 'e) \<Rightarrow> ('b \<Rightarrow> 'b btree option) \<Rightarrow> 'b \<Rightarrow> bytes \<Rightarrow> ('e, 'b btree) outcome" where
  "convert_dict handle_error dict_of bencode error_key =
     ok_or (handle_error (WrongType error_key ''Dictionary'')) (dict_of bencode)"

definition convert_bytes_ext ::
  "(BencodeConvertError \<Rightarrow> 'e) \<Rightarrow> ('b \<Rightarrow> bytes option) \<Rightarrow> 'b \<Rightarrow> bytes \<Rightarrow> ('e, bytes) outcome" where
  "convert_bytes_ext handle_error bytes_ext bencode error_key =
     ok_or (handle_error (WrongType error_key ''Bytes'')) (bytes_ext bencode)"

definition convert_str_ext ::
  "(BencodeConvertError \<Rightarrow> 'e) \<Rightarrow> ('b \<Rightarrow> bytes option) \<Rightarrow> 'b \<Rightarrow> bytes \<Rightarrow> ('e, bytes) outcome" where
  "convert_str_ext handle_error str_ext bencode error_key =
     ok_or (handle_error (WrongType error_key ''UTF-8 Bytes'')) (str_ext bencode)"

definition convert_lookup ::
  "(BencodeConvertError \<Rightarrow> 'e) \<Rightarrow> ('d \<Rightarrow> bytes \<Rightarrow> 'b option) \<Rightarrow> 'd \<Rightarrow> bytes \<Rightarrow> ('e, 'b) outcome" where
  "convert_lookup handle_error lookup dictionary key =
     (case lookup dictionary key of Some n \<Rightarrow> Ok n | None \<Rightarrow> Err (handle_error (MissingKey key)))"

definition lookup_and_convert_int where
  "lookup_and_convert_int handle_error lookup int_of dictionary key =
     try_bind (convert_lookup handle_error lookup dictionary key)
       (\<lambda>b. convert_int handle_error int_of b key)"

definition lookup_and_convert_bytes where
  "lookup_and_convert_bytes handle_error lookup bytes_of dictionary key =
     try_bind (convert_lookup handle_error lookup dictionary key)
       (\<lambda>b. convert_bytes handle_error bytes_of b key)"

definition lookup_and_convert_str where
  "lookup_and_convert_str handle_error lookup str_of dictionary key =
     try_bind (convert_lookup handle_error lookup dictionary key)
       (\<lambda>b. convert_str handle_error str_of b key)"

definition lookup_and_convert_list where
  "lookup_and_convert_list handle_error lookup list_of dictionary key =
     try_bind (convert_lookup handle_error lookup dictionary key)
       (\<lambda>b. convert_list handle_error list_of b key)"

definition lookup_and_convert_dict where
  "lookup_and_convert_dict handle_error lookup dict_of dictionary key =
     try_bind (convert_lookup handle_error lookup dictionary key)
       (\<lambda>b. convert_dict handle_error dict_of b key)"

definition lookup_and_convert_bytes_ext where
  "lookup_and_convert_bytes_ext handle_error lookup bytes_ext dictionary key =
     try_bind (convert_lookup handle_error lookup dictionary key)
       (\<lambda>b. convert_bytes_ext handle_error bytes_ext b key)"

definition lookup_and_convert_str_ext where
  "lookup_and_convert_str_ext handle_error lookup str_ext dictionary key =
     try_bind (convert_lookup handle_error lookup dictionary key)
       (\<lambda>b. convert_str_ext handle_error str_ext b key)"

lemmas convert_defs = convert_int_def convert_bytes_def convert_str_def convert_list_def
  convert_dict_def convert_bytes_ext_def convert_str_ext_def convert_lookup_def

lemmas lookup_and_convert_defs = lookup_and_convert_int_def lookup_and_convert_bytes_def
  lookup_and_convert_str_def lookup_and_convert_list_def lookup_and_convert_dict_def
  lookup_and_convert_bytes_ext_def lookup_and_convert_str_ext_def

lemma convert_lookup_outcomes [outcome_simps]:
  "convert_lookup h lk d k = Ok b \<longleftrightarrow> lk d k = Some b"
  "convert_lookup h lk d k = Err e \<longleftrightarrow> lk d k = None \<and> e = h (MissingKey k)"
  "convert_lookup h lk d k \<noteq> Panic"
  by (auto simp: convert_lookup_def split: option.splits)

end
