(* ===== verification/Bencode_Decode.thy ===== *)
theory Bencode_Decode
  imports Bencode_Access
begin

text \<open>
  The bencode decoder, \<open>btp-bencode/src/reference/decode.rs\<close>, with its options
  (\<open>decode_opt.rs\<close>), its errors (\<open>error.rs\<close>) and the entry point \<open>BencodeRef::decode\<close>.

  \<open>decode\<close>, \<open>decode_list\<close> and \<open>decode_dict\<close> call each other; the \<open>while\<close> loops of the last two
  are recursive calls that carry the collection built so far. All three are total: a position
  only grows and never leaves the buffer (\<open>decode_progress\<close>), which is what the termination
  proof rests on. \<open>decode_dict\<close> applies \<open>unwrap\<close> to the value it decodes, so an error inside a
  dictionary is a panic.
\<close>

section \<open>Constants, options and errors\<close>

definition BEN_END :: byte where "BEN_END = 0x65"
definition DICT_START :: byte where "DICT_START = 0x64"
definition LIST_START :: byte where "LIST_START = 0x6C"
definition INT_START :: byte where "INT_START = 0x69"
definition BYTE_LEN_LOW :: byte where "BYTE_LEN_LOW = 0x30"
definition BYTE_LEN_HIGH :: byte where "BYTE_LEN_HIGH = 0x39"
definition BYTE_LEN_END :: byte where "BYTE_LEN_END = 0x3A"

lemmas bencode_consts = BEN_END_def DICT_START_def LIST_START_def INT_START_def
  BYTE_LEN_LOW_def BYTE_LEN_HIGH_def BYTE_LEN_END_def

record BDecodeOpt =
  max_recursion :: nat
  check_key_sort :: bool
  enforce_full_decode :: bool

definition default_opt :: BDecodeOpt where
  "default_opt = \<lparr>max_recursion = 50, check_key_sort = False, enforce_full_decode = True\<rparr>"

datatype BencodeParseError =
    BytesEmpty nat
  | InvalidByte nat
  | InvalidIntNoDelimiter nat
  | InvalidIntNegativeZero nat
  | InvalidIntZeroPadding nat
  | InvalidIntParseError nat
  | InvalidKeyOrdering nat bytes
  | InvalidKeyDuplicates nat bytes
  | InvalidLengthNegative nat
  | InvalidLengthOverflow nat
  | InvalidRecursionExceeded nat nat

type_synonym 'a parse = "(BencodeParseError, 'a) outcome"

section \<open>The decoder\<close>

definition peek_byte :: "bytes \<Rightarrow> nat \<Rightarrow> byte parse" where
  "peek_byte bs pos = ok_or (BytesEmpty pos) (if pos < length bs then Some (bs ! pos) else None)"

definition decode_int :: "bytes \<Rightarrow> nat \<Rightarrow> byte \<Rightarrow> (i64 \<times> nat) parse" where
  "decode_int bs pos delim =
     (if pos > length bs then Panic
      else let begin_decode = drop pos bs in
      case position (\<lambda>n. n = delim) begin_decode of
        None \<Rightarrow> Err (InvalidIntNoDelimiter pos)
      | Some relative_end_pos \<Rightarrow>
          let int_byte_slice = take relative_end_pos begin_decode in
          if length int_byte_slice > 1 \<and> int_byte_slice ! 0 = 0x2D \<and> int_byte_slice ! 1 = 0x30
          then Err (InvalidIntNegativeZero pos)
          else if length int_byte_slice > 1 \<and> int_byte_slice ! 0 = 0x30
          then Err (InvalidIntZeroPadding pos)
          else if \<not> utf8_valid int_byte_slice then Err (InvalidIntParseError pos)
          else case i64_from_str int_byte_slice of
                 Some n \<Rightarrow> Ok (n, pos + relative_end_pos + 1)
               | None \<Rightarrow> Err (InvalidIntParseError pos))"

definition decode_bytes :: "bytes \<Rightarrow> nat \<Rightarrow> (bytes \<times> nat) parse" where
  "decode_bytes bs pos =
     try_bind (decode_int bs pos BYTE_LEN_END) (\<lambda>(num_bytes, start_pos).
       if sint num_bytes < 0 then Err (InvalidLengthNegative pos)
       else if start_pos > length bs then Panic
       else if unat num_bytes > length bs - start_pos then Err (InvalidLengthOverflow pos)
       else let next_pos = start_pos + unat num_bytes
            in Ok (slice bs start_pos next_pos, next_pos))"

function decode :: "bytes \<Rightarrow> nat \<Rightarrow> BDecodeOpt \<Rightarrow> nat \<Rightarrow> (BencodeRef \<times> nat) parse"
  and decode_list ::
    "bytes \<Rightarrow> nat \<Rightarrow> BDecodeOpt \<Rightarrow> nat \<Rightarrow> BencodeRef list \<Rightarrow> (BencodeRef list \<times> nat) parse"
  and decode_dict ::
    "bytes \<Rightarrow> nat \<Rightarrow> BDecodeOpt \<Rightarrow> nat \<Rightarrow> BencodeRef btree \<Rightarrow> (BencodeRef btree \<times> nat) parse"
where
  "decode bs pos opts depth =
     (if depth \<ge> max_recursion opts then Err (InvalidRecursionExceeded pos depth)
      else try_bind (peek_byte bs pos) (\<lambda>curr_byte.
        if curr_byte = INT_START then
          try_bind (decode_int bs (pos + 1) BEN_END) (\<lambda>(bencode, next_pos).
            Ok (RInt bencode (slice bs pos next_pos), next_pos))
        else if curr_byte = LIST_START then
          try_bind (decode_list bs (pos + 1) opts depth []) (\<lambda>(bencode, next_pos).
            Ok (RList bencode (slice bs pos next_pos), next_pos))
        else if curr_byte = DICT_START then
          try_bind (decode_dict bs (pos + 1) opts depth []) (\<lambda>(bencode, next_pos).
            Ok (RDict bencode (slice bs pos next_pos), next_pos))
        else if BYTE_LEN_LOW \<le> curr_byte \<and> curr_byte \<le> BYTE_LEN_HIGH then
          try_bind (decode_bytes bs pos) (\<lambda>(bencode, next_pos).
            Ok (RBytes bencode (slice bs pos next_pos), next_pos))
        else Err (InvalidByte pos)))"
| "decode_list bs curr_pos opts depth bencode_list =
     try_bind (peek_byte bs curr_pos) (\<lambda>curr_byte.
       if curr_byte = BEN_END then Ok (bencode_list, curr_pos + 1)
       else try_bind (decode bs curr_pos opts (depth + 1)) (\<lambda>(bencode, next_pos).
         decode_list bs next_pos opts depth (bencode_list @ [bencode])))"
| "decode_dict bs curr_pos opts depth bencode_dict =
     try_bind (peek_byte bs curr_pos) (\<lambda>curr_byte.
       if curr_byte = BEN_END then Ok (bencode_dict, curr_pos + 1)
       else try_bind (decode_bytes bs curr_pos) (\<lambda>(key_bytes, next_pos).
         if check_key_sort opts \<and>
            (case bt_last_key bencode_dict of Some last_key \<Rightarrow> key_bytes < last_key | None \<Rightarrow> False)
         then Err (InvalidKeyOrdering curr_pos key_bytes)
         else try_bind (unwrap (decode bs next_pos opts (depth + 1))) (\<lambda>(val, next_pos').
           if bt_get bencode_dict key_bytes \<noteq> None
           then Err (InvalidKeyDuplicates next_pos key_bytes)
           else decode_dict bs next_pos' opts depth (bt_put key_bytes val bencode_dict))))"
  by pat_completeness auto

lemma peek_byte_Ok [outcome_simps]:
  "peek_byte bs pos = Ok c \<longleftrightarrow> pos < length bs \<and> c = bs ! pos"
  by (auto simp: peek_byte_def outcome_simps split: if_splits)

lemma peek_byte_not_Panic [outcome_simps]: "peek_byte bs pos \<noteq> Panic"
  by (auto simp: peek_byte_def outcome_simps)

lemma decode_int_Ok:
  assumes "decode_int bs pos delim = Ok (n, np)"
  shows "pos < np" and "np \<le> length bs" and "bs ! (np - 1) = delim"
    and "i64_from_str (slice bs pos (np - 1)) = Some n"
    and "\<not> (length (slice bs pos (np - 1)) > 1 \<and> slice bs pos (np - 1) ! 0 = 0x2D
             \<and> slice bs pos (np - 1) ! 1 = 0x30)"
    and "\<not> (length (slice bs pos (np - 1)) > 1 \<and> slice bs pos (np - 1) ! 0 = 0x30)"
proof -
  from assms obtain r where
    r: "position (\<lambda>n. n = delim) (drop pos bs) = Some r" and np: "np = pos + r + 1"
    and le: "pos \<le> length bs"
    by (auto simp: decode_int_def Let_def split: if_splits option.splits)
  from np have tk: "take r (drop pos bs) = slice bs pos (np - 1)"
    by (simp add: slice_def)
  from r have rl: "r < length bs - pos" and "drop pos bs ! r = delim"
    by (auto simp: position_Some)
  with np le show "pos < np" and "np \<le> length bs" and "bs ! (np - 1) = delim"
    by auto
  show "i64_from_str (slice bs pos (np - 1)) = Some n"
    unfolding tk [symmetric] using assms r le
    by (simp add: decode_int_def Let_def split: if_splits option.splits)
  show "\<not> (length (slice bs pos (np - 1)) > 1 \<and> slice bs pos (np - 1) ! 0 = 0x2D
             \<and> slice bs pos (np - 1) ! 1 = 0x30)"
    unfolding tk [symmetric] using assms r le
    by (simp add: decode_int_def Let_def split: if_splits option.splits)
  show "\<not> (length (slice bs pos (np - 1)) > 1 \<and> slice bs pos (np - 1) ! 0 = 0x30)"
    unfolding tk [symmetric] using assms r le
    by (auto simp add: decode_int_def Let_def split: if_splits option.splits)
qed

lemma decode_int_Panic: "decode_int bs pos delim = Panic \<longleftrightarrow> pos > length bs"
  by (auto simp: decode_int_def Let_def split: if_splits option.splits)

lemma decode_bytes_Ok:
  assumes "decode_bytes bs pos = Ok (b, np)"
  obtains n sp where "decode_int bs pos BYTE_LEN_END = Ok (n, sp)" and "0 \<le> sint n"
    and "np = sp + unat n" and "np \<le> length bs" and "b = slice bs sp np"
  using assms by (auto simp: decode_bytes_def outcome_simps Let_def split: if_splits)

lemma decode_bytes_progress:
  assumes "decode_bytes bs pos = Ok (b, np)"
  shows "pos < np \<and> np \<le> length bs"
proof -
  from assms obtain n sp where "decode_int bs pos BYTE_LEN_END = Ok (n, sp)"
    and "np = sp + unat n" and "np \<le> length bs"
    by (rule decode_bytes_Ok)
  then show ?thesis by (auto dest: decode_int_Ok(1))
qed

lemma decode_bytes_not_Panic:
  assumes "pos \<le> length bs"
  shows "decode_bytes bs pos \<noteq> Panic"
proof
  assume "decode_bytes bs pos = Panic"
  then obtain n sp where "decode_int bs pos BYTE_LEN_END = Ok (n, sp)" and "length bs < sp"
    using assms by (auto simp: decode_bytes_def outcome_simps decode_int_Panic Let_def
        split: if_splits)
  then show False by (auto dest: decode_int_Ok(2))
qed

text \<open>On the domain of the recursion, a successful decode moves forward inside the buffer.\<close>

lemma decode_dom_progress:
  "decode_decode_list_decode_dict_dom (Inl (bs, pos, opts, depth)) \<Longrightarrow>
     decode bs pos opts depth = Ok (v, np) \<Longrightarrow> pos < np \<and> np \<le> length bs"
  "decode_decode_list_decode_dict_dom (Inr (Inl (bs, pos, opts, depth, l))) \<Longrightarrow>
     decode_list bs pos opts depth l = Ok (l', np') \<Longrightarrow> pos < np' \<and> np' \<le> length bs"
  "decode_decode_list_decode_dict_dom (Inr (Inr (bs, pos, opts, depth, d))) \<Longrightarrow>
     decode_dict bs pos opts depth d = Ok (d', np'') \<Longrightarrow> pos < np'' \<and> np'' \<le> length bs"
proof (induction bs pos opts depth and bs pos opts depth l and bs pos opts depth d
    arbitrary: v np and l' np' and d' np'' rule: decode_decode_list_decode_dict.pinduct)
  case (1 bs pos opts depth)
  from "1.prems" have nd: "\<not> max_recursion opts \<le> depth"
    and pk: "peek_byte bs pos = Ok (bs ! pos)" and lt: "pos < length bs"
    unfolding decode.psimps [OF "1.hyps"] by (auto simp: outcome_simps split: if_splits)
  have l: "pos < q \<and> q \<le> length bs"
    if "bs ! pos = LIST_START" "decode_list bs (Suc pos) opts depth [] = Ok (l, q)" for l q
    using "1.IH"(1) [OF nd pk _ that(1), of l q] that by (simp add: bencode_consts)
  have d: "pos < q \<and> q \<le> length bs"
    if "bs ! pos = DICT_START" "decode_dict bs (Suc pos) opts depth [] = Ok (d, q)" for d q
    using "1.IH"(2) [OF nd pk _ _ that(1), of d q] that by (simp add: bencode_consts)
  from "1.prems" nd lt show ?case
    unfolding decode.psimps [OF "1.hyps"]
    by (auto simp: outcome_simps split: if_splits
        dest: l d decode_int_Ok(1,2) decode_bytes_progress)
next
  case (2 bs pos opts depth l)
  show ?case
  proof (cases "bs ! pos = BEN_END")
    case True
    with "2.prems" show ?thesis
      unfolding decode_list.psimps [OF "2.hyps"] by (auto simp: outcome_simps)
  next
    case False
    from "2.prems" False obtain b q where pk: "peek_byte bs pos = Ok (bs ! pos)"
      and d: "decode bs pos opts (depth + 1) = Ok (b, q)"
      and l: "decode_list bs q opts depth (l @ [b]) = Ok (l', np')"
      unfolding decode_list.psimps [OF "2.hyps"] by (auto simp: outcome_simps)
    from "2.IH"(1) [OF pk False d] "2.IH"(2) [OF pk False d refl l] show ?thesis
      by simp
  qed
next
  case (3 bs pos opts depth d)
  show ?case
  proof (cases "bs ! pos = BEN_END")
    case True
    with "3.prems" show ?thesis
      unfolding decode_dict.psimps [OF "3.hyps"] by (auto simp: outcome_simps)
  next
    case False
    from "3.prems" False obtain k q v r where pk: "peek_byte bs pos = Ok (bs ! pos)"
      and k: "decode_bytes bs pos = Ok (k, q)"
      and ord: "\<not> (check_key_sort opts \<and>
        (case bt_last_key d of Some last_key \<Rightarrow> k < last_key | None \<Rightarrow> False))"
      and v: "decode bs q opts (depth + 1) = Ok (v, r)"
      and dup: "\<not> bt_get d k \<noteq> None"
      and l: "decode_dict bs r opts depth (bt_put k v d) = Ok (d', np'')"
      unfolding decode_dict.psimps [OF "3.hyps"]
      by (auto simp: outcome_simps split: if_splits)
    from v have uv: "unwrap (decode bs q opts (depth + 1)) = Ok (v, r)" by simp
    from decode_bytes_progress [OF k] "3.IH"(1) [OF pk False k refl ord v]
      "3.IH"(2) [OF pk False k refl ord uv refl dup l] show ?thesis
      by simp
  qed
qed

lemma decode_terminates: "All decode_decode_list_decode_dict_dom"
proof (relation "measure (\<lambda>x. case x of
    Inl (bs, pos, opts, depth) \<Rightarrow> 2 * (length bs - pos)
  | Inr (Inl (bs, pos, opts, depth, l)) \<Rightarrow> 2 * (length bs - pos) + 1
  | Inr (Inr (bs, pos, opts, depth, d)) \<Rightarrow> 2 * (length bs - pos) + 1)", goal_cases)
qed (auto simp: outcome_simps dest!: decode_dom_progress(1) decode_bytes_progress)

termination decode
  by (rule decode_terminates)

declare decode.simps [simp del] decode_list.simps [simp del] decode_dict.simps [simp del]

text \<open>\<open>BencodeRef::decode\<close>.\<close>

definition decode_top :: "bytes \<Rightarrow> BDecodeOpt \<Rightarrow> BencodeRef parse" where
  "decode_top bs opts =
     try_bind (decode bs 0 opts 0) (\<lambda>(bencode, end_pos).
       if end_pos \<noteq> length bs \<and> enforce_full_decode opts then Err (BytesEmpty end_pos)
       else Ok bencode)"

section \<open>Facts about successful runs\<close>

lemma decode_progress:
  "decode bs pos opts depth = Ok (v, np) \<Longrightarrow> pos < np \<and> np \<le> length bs"
  "decode_list bs pos opts depth l = Ok (l', np') \<Longrightarrow> pos < np' \<and> np' \<le> length bs"
  "decode_dict bs pos opts depth d = Ok (d', np'') \<Longrightarrow> pos < np'' \<and> np'' \<le> length bs"
  by (erule decode_dom_progress [OF decode_terminates [THEN spec]])+

lemma decode_Ok_cases:
  assumes "decode bs pos opts depth = Ok (v, np)"
  obtains (int) n where "bs ! pos = INT_START" "decode_int bs (pos + 1) BEN_END = Ok (n, np)"
      "v = RInt n (slice bs pos np)"
    | (list) l where "bs ! pos = LIST_START" "decode_list bs (pos + 1) opts depth [] = Ok (l, np)"
      "v = RList l (slice bs pos np)"
    | (dict) d where "bs ! pos = DICT_START" "decode_dict bs (pos + 1) opts depth [] = Ok (d, np)"
      "v = RDict d (slice bs pos np)"
    | (str) b where "is_digit (bs ! pos)" "decode_bytes bs pos = Ok (b, np)"
      "v = RBytes b (slice bs pos np)"
  using assms unfolding decode.simps [of bs pos]
  by (auto simp: outcome_simps is_digit_def BYTE_LEN_LOW_def BYTE_LEN_HIGH_def split: if_splits)

lemma decode_Ok_bounds:
  assumes "decode bs pos opts depth = Ok (v, np)"
  shows "depth < max_recursion opts" and "pos < length bs"
  using assms unfolding decode.simps [of bs pos] by (auto simp: outcome_simps split: if_splits)

lemma decode_list_Ok_cases:
  assumes "decode_list bs pos opts depth l = Ok (l', np)"
  obtains (stop) "pos < length bs" "bs ! pos = BEN_END" "l' = l" "np = pos + 1"
    | (item) v q where "pos < length bs" "bs ! pos \<noteq> BEN_END" "decode bs pos opts (depth + 1) = Ok (v, q)"
      "decode_list bs q opts depth (l @ [v]) = Ok (l', np)"
  using assms unfolding decode_list.simps [of bs pos]
  by (auto simp: outcome_simps split: if_splits)

definition key_in_order :: "BDecodeOpt \<Rightarrow> 'v btree \<Rightarrow> bytes \<Rightarrow> bool" where
  "key_in_order opts d k \<longleftrightarrow>
     \<not> (check_key_sort opts \<and>
        (case bt_last_key d of Some last_key \<Rightarrow> k < last_key | None \<Rightarrow> False))"

lemma decode_dict_Ok_cases:
  assumes "decode_dict bs pos opts depth d = Ok (d', np)"
  obtains (stop) "pos < length bs" "bs ! pos = BEN_END" "d' = d" "np = pos + 1"
    | (entry) k q v r where "pos < length bs" "bs ! pos \<noteq> BEN_END" "decode_bytes bs pos = Ok (k, q)"
      "key_in_order opts d k" "decode bs q opts (depth + 1) = Ok (v, r)" "bt_get d k = None"
      "decode_dict bs r opts depth (bt_put k v d) = Ok (d', np)"
  using assms unfolding decode_dict.simps [of bs pos] key_in_order_def
  by (auto simp: outcome_simps split: if_splits)

text \<open>
  Induction over a successful run: one case per kind of value and per iteration of the two
  loops.
\<close>

lemma decode_ok_induct:
  assumes int: "\<And>bs pos opts depth n np. depth < max_recursion opts \<Longrightarrow> pos < length bs \<Longrightarrow>
      bs ! pos = INT_START \<Longrightarrow> decode_int bs (pos + 1) BEN_END = Ok (n, np) \<Longrightarrow>
      P bs pos opts depth (RInt n (slice bs pos np)) np"
    and str: "\<And>bs pos opts depth b np. depth < max_recursion opts \<Longrightarrow> pos < length bs \<Longrightarrow>
      is_digit (bs ! pos) \<Longrightarrow> decode_bytes bs pos = Ok (b, np) \<Longrightarrow>
      P bs pos opts depth (RBytes b (slice bs pos np)) np"
    and list: "\<And>bs pos opts depth l np. depth < max_recursion opts \<Longrightarrow> pos < length bs \<Longrightarrow>
      bs ! pos = LIST_START \<Longrightarrow> pos + 1 < np \<Longrightarrow> np \<le> length bs \<Longrightarrow>
      L bs (pos + 1) opts depth [] l np \<Longrightarrow> P bs pos opts depth (RList l (slice bs pos np)) np"
    and dict: "\<And>bs pos opts depth d np. depth < max_recursion opts \<Longrightarrow> pos < length bs \<Longrightarrow>
      bs ! pos = DICT_START \<Longrightarrow> pos + 1 < np \<Longrightarrow> np \<le> length bs \<Longrightarrow>
      D bs (pos + 1) opts depth [] d np \<Longrightarrow> P bs pos opts depth (RDict d (slice bs pos np)) np"
    and list_end: "\<And>bs pos opts depth l. pos < length bs \<Longrightarrow> bs ! pos = BEN_END \<Longrightarrow>
      L bs pos opts depth l l (pos + 1)"
    and list_item: "\<And>bs pos opts depth l v q l' np. pos < q \<Longrightarrow> q < np \<Longrightarrow> np \<le> length bs \<Longrightarrow>
      P bs pos opts (depth + 1) v q \<Longrightarrow> L bs q opts depth (l @ [v]) l' np \<Longrightarrow>
      L bs pos opts depth l l' np"
    and dict_end: "\<And>bs pos opts depth d. pos < length bs \<Longrightarrow> bs ! pos = BEN_END \<Longrightarrow>
      D bs pos opts depth d d (pos + 1)"
    and dict_entry: "\<And>bs pos opts depth d k q v r d' np. pos < q \<Longrightarrow> q < r \<Longrightarrow> r < np \<Longrightarrow>
      np \<le> length bs \<Longrightarrow> decode_bytes bs pos = Ok (k, q) \<Longrightarrow> key_in_order opts d k \<Longrightarrow>
      bt_get d k = None \<Longrightarrow> P bs q opts (depth + 1) v r \<Longrightarrow>
      D bs r opts depth (bt_put k v d) d' np \<Longrightarrow> D bs pos opts depth d d' np"
  shows "decode bs pos opts depth = Ok (v, np) \<Longrightarrow> P bs pos opts depth v np"
    and "decode_list bs pos opts depth l = Ok (l', np') \<Longrightarrow> L bs pos opts depth l l' np'"
    and "decode_dict bs pos opts depth d = Ok (d', np'') \<Longrightarrow> D bs pos opts depth d d' np''"
proof (induction bs pos opts depth and bs pos opts depth l and bs pos opts depth d
    arbitrary: v np and l' np' and d' np'' rule: decode_decode_list_decode_dict.induct)
  case (1 bs pos opts depth)
  note b = decode_Ok_bounds [OF "1.prems"]
  then have nd: "\<not> max_recursion opts \<le> depth" and pk: "peek_byte bs pos = Ok (bs ! pos)"
    by (auto simp: outcome_simps)
  from "1.prems" show ?case
  proof (cases rule: decode_Ok_cases)
    case (int n)
    with b show ?thesis by (auto intro: assms(1))
  next
    case (str c)
    with b show ?thesis by (auto intro: assms(2))
  next
    case (list l)
    moreover have "bs ! pos \<noteq> INT_START" using list(1) by (simp add: bencode_consts)
    ultimately have "L bs (pos + 1) opts depth [] l np"
      using "1.IH"(1) [OF nd pk] by blast
    with b list show ?thesis by (auto intro!: assms(3) dest: decode_progress(2))
  next
    case (dict d)
    moreover have "bs ! pos \<noteq> INT_START" "bs ! pos \<noteq> LIST_START"
      using dict(1) by (simp_all add: bencode_consts)
    ultimately have "D bs (pos + 1) opts depth [] d np"
      using "1.IH"(2) [OF nd pk] by blast
    with b dict show ?thesis by (auto intro!: assms(4) dest: decode_progress(3))
  qed
next
  case (2 bs pos opts depth l)
  from "2.prems" show ?case
  proof (cases rule: decode_list_Ok_cases)
    case stop
    then show ?thesis using list_end by simp
  next
    case (item v q)
    then have pk: "peek_byte bs pos = Ok (bs ! pos)" by (simp add: outcome_simps)
    note IH = "2.IH"(1) [OF pk item(2,3)] "2.IH"(2) [OF pk item(2,3) refl item(4)]
    with item decode_progress(1) [OF item(3)] decode_progress(2) [OF item(4)]
    show ?thesis by (auto intro: list_item)
  qed
next
  case (3 bs pos opts depth d)
  from "3.prems" show ?case
  proof (cases rule: decode_dict_Ok_cases)
    case stop
    then show ?thesis using dict_end by simp
  next
    case (entry k q v r)
    then have pk: "peek_byte bs pos = Ok (bs ! pos)" by (simp add: outcome_simps)
    from entry have uv: "unwrap (decode bs q opts (depth + 1)) = Ok (v, r)"
      and dup: "\<not> bt_get d k \<noteq> None" by simp_all
    note ord = entry(4) [unfolded key_in_order_def]
    note IH = "3.IH"(1) [OF pk entry(2,3) refl ord entry(5)]
      "3.IH"(2) [OF pk entry(2,3) refl ord uv refl dup entry(7)]
    with entry decode_bytes_progress [OF entry(3)] decode_progress(1) [OF entry(5)]
      decode_progress(3) [OF entry(7)]
    show ?thesis by (auto intro: dict_entry)
  qed
qed

lemmas decode_run_induct [consumes 1, case_names int str list dict list_end list_item dict_end dict_entry] =
  decode_ok_induct [rotated 8]

end
