(* ===== verification/Bencode_Encode.thy ===== *)
theory Bencode_Encode
  imports Bencode_Decode
begin

text \<open>
  The bencode encoder, \<open>btp-bencode/src/mutable/encode.rs\<close>, at the type \<open>BencodeMut\<close> that
  \<open>BencodeMut::encode\<close> calls it with. Every function appends to the buffer it is given;
  dictionary entries are sorted by key (a stable sort) before they are written.
\<close>

definition encode_int :: "i64 \<Rightarrow> bytes \<Rightarrow> bytes" where
  "encode_int val bs = bs @ [INT_START] @ i64_to_string val @ [BEN_END]"

definition encode_bytes :: "bytes \<Rightarrow> bytes \<Rightarrow> bytes" where
  "encode_bytes xs bs = bs @ nat_to_string (length xs) @ [BYTE_LEN_END] @ xs"

lemma size_list_insort_key:
  "size_list f (insort_key g x xs) = f x + size_list f xs + 1"
  by (induction xs) auto

lemma size_list_sort_key: "size_list f (sort_key g xs) = size_list f xs"
  by (induction xs) (auto simp: size_list_insort_key)

function encode :: "BencodeMut \<Rightarrow> bytes \<Rightarrow> bytes"
  and encode_list :: "BencodeMut list \<Rightarrow> bytes \<Rightarrow> bytes"
  and encode_dict :: "(bytes \<times> BencodeMut) list \<Rightarrow> bytes \<Rightarrow> bytes"
where
  "encode (MInt n) bs = encode_int n bs"
| "encode (MBytes n) bs = encode_bytes n bs"
| "encode (MList n) bs = encode_list n (bs @ [LIST_START]) @ [BEN_END]"
| "encode (MDict n) bs = encode_dict (sort_key fst (dict_to_list n)) (bs @ [DICT_START]) @ [BEN_END]"
| "encode_list [] bs = bs"
| "encode_list (i # is) bs = encode_list is (encode i bs)"
| "encode_dict [] bs = bs"
| "encode_dict ((key, val) # kvs) bs = encode_dict kvs (encode val (encode_bytes key bs))"
  by pat_completeness auto
termination
  by (relation "measure (\<lambda>x. case x of Inl (v, bs) \<Rightarrow> size v
      | Inr (Inl (l, bs)) \<Rightarrow> size_list size l
      | Inr (Inr (d, bs)) \<Rightarrow> size_list (size_prod (\<lambda>_. 0) size) d)")
    (auto simp: dict_to_list_def size_list_sort_key)

text \<open>\<open>BencodeMut::encode\<close>: start from an empty buffer.\<close>

definition encode_top :: "BencodeMut \<Rightarrow> bytes" where
  "encode_top v = encode v []"

section \<open>The encoder appends\<close>

abbreviation enc :: "BencodeMut \<Rightarrow> bytes" where
  "enc v \<equiv> encode v []"

definition enc_entry :: "bytes \<times> BencodeMut \<Rightarrow> bytes" where
  "enc_entry kv = encode_bytes (fst kv) [] @ enc (snd kv)"

lemma encode_list_concat:
  assumes "\<And>v bs. v \<in> set l \<Longrightarrow> encode v bs = bs @ enc v"
  shows "encode_list l bs = bs @ concat (map enc l)"
  using assms
proof (induction l arbitrary: bs)
  case (Cons v l)
  have "encode v bs = bs @ enc v" by (rule Cons.prems) simp
  moreover have "encode_list l bs' = bs' @ concat (map enc l)" for bs'
    by (rule Cons.IH, rule Cons.prems) simp
  ultimately show ?case by simp
qed simp

lemma encode_dict_concat:
  assumes "\<And>kv bs. kv \<in> set d \<Longrightarrow> encode (snd kv) bs = bs @ enc (snd kv)"
  shows "encode_dict d bs = bs @ concat (map enc_entry d)"
  using assms
proof (induction d arbitrary: bs)
  case (Cons kv d)
  obtain k v where kv: "kv = (k, v)" by (cases kv)
  have "encode v (encode_bytes k bs) = encode_bytes k bs @ enc v"
    using Cons.prems [of kv "encode_bytes k bs"] by (simp add: kv)
  also have "\<dots> = bs @ enc_entry kv"
    by (simp add: enc_entry_def kv encode_bytes_def)
  finally have "encode v (encode_bytes k bs) = bs @ enc_entry kv" .
  moreover have "encode_dict d bs' = bs' @ concat (map enc_entry d)" for bs'
    by (rule Cons.IH, rule Cons.prems) simp
  ultimately show ?case by (simp add: kv)
qed simp

lemma encode_append: "encode v bs = bs @ enc v"
proof (induction v arbitrary: bs)
  case (MInt n)
  show ?case by (simp add: encode_int_def)
next
  case (MBytes b)
  show ?case by (simp add: encode_bytes_def)
next
  case (MList l)
  then have "encode_list l bs = bs @ concat (map enc l)" for bs
    by (rule encode_list_concat)
  then show ?case by simp
next
  case (MDict d)
  let ?d = "sort_key fst (dict_to_list d)"
  have "encode (snd kv) bs = bs @ enc (snd kv)" if "kv \<in> set ?d" for kv bs
    by (rule MDict [of kv]) (use that in \<open>auto simp: dict_to_list_def snds.intros\<close>)
  then have "encode_dict ?d bs = bs @ concat (map enc_entry ?d)" for bs
    by (rule encode_dict_concat)
  then show ?case by simp
qed

lemma encode_list_eq: "encode_list l bs = bs @ concat (map enc l)"
  by (rule encode_list_concat) (rule encode_append)

lemma encode_dict_eq: "encode_dict d bs = bs @ concat (map enc_entry d)"
  by (rule encode_dict_concat) (rule encode_append)

lemma enc_simps:
  "enc (MInt n) = INT_START # i64_to_string n @ [BEN_END]"
  "enc (MBytes b) = nat_to_string (length b) @ BYTE_LEN_END # b"
  "enc (MList l) = LIST_START # concat (map enc l) @ [BEN_END]"
  by (simp_all add: encode_int_def encode_bytes_def encode_list_eq)

lemma enc_MDict: "bt_wf d \<Longrightarrow> enc (MDict d) = DICT_START # concat (map enc_entry d) @ [BEN_END]"
  by (simp add: encode_dict_eq dict_to_list_def bt_wf_sort_key)

end
