(* ===== verification/Bencode_Correct.thy ===== *)
theory Bencode_Correct
  imports Bencode_Encode
begin

text \<open>
  Correctness of the bencode codec: decoding inverts encoding on every well-formed value, the
  decoder accepts only canonical text (up to a sign it should not accept), respects its
  recursion limit, produces well-formed dictionaries, and panics only inside a dictionary.
\<close>

section \<open>Specification vocabulary\<close>

text \<open>\<open>erase\<close> forgets the buffers of a decoded value.\<close>

primrec erase :: "BencodeRef \<Rightarrow> BencodeMut" where
  "erase (RInt n _) = MInt n"
| "erase (RBytes b _) = MBytes b"
| "erase (RList l _) = MList (map erase l)"
| "erase (RDict d _) = MDict (map (map_prod (\<lambda>k. k) erase) d)"

text \<open>The depth of the deepest value, counted as the decoder counts it.\<close>

primrec nesting :: "BencodeMut \<Rightarrow> nat" where
  "nesting (MInt n) = 1"
| "nesting (MBytes b) = 1"
| "nesting (MList l) = Suc (foldr max (map nesting l) 0)"
| "nesting (MDict d) = Suc (foldr max (map snd (map (map_prod (\<lambda>k. k) nesting) d)) 0)"

text \<open>
  Values that can exist in memory: the entries of a \<open>BTreeMap\<close> are in strictly increasing key
  order, and no byte string is longer than \<open>isize::MAX\<close>.
\<close>

primrec mut_wf :: "BencodeMut \<Rightarrow> bool" where
  "mut_wf (MInt n) = True"
| "mut_wf (MBytes b) = (length b < 2 ^ 63)"
| "mut_wf (MList l) = list_all id (map mut_wf l)"
| "mut_wf (MDict d) = (bt_wf d \<and> (\<forall>k\<in>fst ` set d. length k < 2 ^ 63)
     \<and> list_all snd (map (map_prod (\<lambda>k. k) mut_wf) d))"

lemma foldr_max_le: "foldr max xs (0::nat) \<le> m \<longleftrightarrow> (\<forall>x\<in>set xs. x \<le> m)"
  by (induction xs) auto

lemma nesting_MList_le: "nesting (MList l) \<le> Suc m \<longleftrightarrow> (\<forall>v\<in>set l. nesting v \<le> m)"
  by (simp add: foldr_max_le)

lemma nesting_MDict_le: "nesting (MDict d) \<le> Suc m \<longleftrightarrow> (\<forall>kv\<in>set d. nesting (snd kv) \<le> m)"
  by (auto simp: foldr_max_le)

lemma nesting_pos: "0 < nesting v"
  by (cases v) auto

lemma mut_wf_MList: "mut_wf (MList l) \<longleftrightarrow> (\<forall>v\<in>set l. mut_wf v)"
  by (simp add: list_all_iff)

lemma mut_wf_MDict:
  "mut_wf (MDict d) \<longleftrightarrow> bt_wf d \<and> (\<forall>kv\<in>set d. length (fst kv) < 2 ^ 63 \<and> mut_wf (snd kv))"
  by (auto simp: list_all_iff)

declare nesting.simps(3,4) [simp del] mut_wf.simps(3,4) [simp del]

lemma fst_map_prod_id: "map fst (map (map_prod (\<lambda>k. k) f) d) = map fst d"
  by simp

lemma bt_wf_map [simp]: "bt_wf (map (map_prod (\<lambda>k. k) f) d) = bt_wf d"
  by (simp only: bt_wf_def fst_map_prod_id)

section \<open>Numbers are canonical\<close>

lemma i64_to_string_canonical:
  assumes "i64_from_str s = Some n" and "0x2B \<notin> set s"
    and "\<not> (length s > 1 \<and> s ! 0 = 0x2D \<and> s ! 1 = 0x30)"
    and "\<not> (length s > 1 \<and> s ! 0 = 0x30)"
  shows "i64_to_string n = s"
proof (cases s)
  case Nil
  with assms show ?thesis by simp
next
  case (Cons c cs)
  with assms(2) have plus: "c \<noteq> 0x2B" by auto
  show ?thesis
  proof (cases "c = 0x2D")
    case True
    with assms(1) Cons have cs: "cs \<noteq> []" "list_all is_digit cs"
      and n: "i64_of_int (- int (dec_val cs)) = Some n"
      by (auto split: if_splits)
    with assms(3) True Cons have "hd cs \<noteq> 0x30" by (cases cs) auto
    with cs have ts: "nat_to_string (dec_val cs) = cs" by (intro nat_to_string_dec_val) auto
    with \<open>hd cs \<noteq> 0x30\<close> have "dec_val cs \<noteq> 0" by (metis nat_to_string_0 list.sel(1))
    moreover from n have "sint n = - int (dec_val cs)"
      by (rule i64_of_int_Some)
    ultimately show ?thesis using Cons True ts
      by (simp add: i64_to_string_def int_to_string_def)
  next
    case False
    with assms(1) Cons plus have cs: "list_all is_digit s"
      and n: "i64_of_int (int (dec_val s)) = Some n"
      by (auto split: if_splits)
    with assms(4) Cons have "nat_to_string (dec_val s) = s"
      by (intro nat_to_string_dec_val) auto
    moreover from n have "sint n = int (dec_val s)"
      by (rule i64_of_int_Some)
    ultimately show ?thesis by (simp add: i64_to_string_def int_to_string_def)
  qed
qed

lemma i64_to_string_nonneg: "0 \<le> sint n \<Longrightarrow> i64_to_string n = nat_to_string (unat n)"
  by (simp add: i64_to_string_def int_to_string_def unat_sint_nonneg)

lemma int_slice_split:
  assumes "decode_int bs pos delim = Ok (n, np)"
  shows "slice bs pos np = slice bs pos (np - 1) @ [delim]"
proof -
  from decode_int_Ok(1-3) [OF assms]
  have "slice bs pos (Suc (np - 1)) = slice bs pos (np - 1) @ [bs ! (np - 1)]"
    by (intro slice_snoc) auto
  with decode_int_Ok(1-3) [OF assms] show ?thesis by simp
qed

text \<open>A decoded integer or byte string prints as the text it was read from.\<close>

lemma decode_int_canonical:
  assumes "decode_int bs pos delim = Ok (n, np)" and "0x2B \<notin> set (slice bs pos np)"
  shows "i64_to_string n @ [delim] = slice bs pos np"
proof -
  have "i64_to_string n = slice bs pos (np - 1)"
    using assms(2) unfolding int_slice_split [OF assms(1)]
    by (intro i64_to_string_canonical decode_int_Ok [OF assms(1)]) auto
  then show ?thesis by (simp add: int_slice_split [OF assms(1)])
qed

lemma decode_bytes_canonical:
  assumes "decode_bytes bs pos = Ok (b, np)" and "0x2B \<notin> set (slice bs pos np)"
  shows "encode_bytes b [] = slice bs pos np"
proof -
  from assms(1) obtain n sp where i: "decode_int bs pos BYTE_LEN_END = Ok (n, sp)"
    and nn: "0 \<le> sint n" and np: "np = sp + unat n" "np \<le> length bs" and b: "b = slice bs sp np"
    by (rule decode_bytes_Ok)
  have sl: "slice bs pos np = slice bs pos sp @ b"
    unfolding b using decode_int_Ok(1,2) [OF i] np by (intro slice_concat) auto
  with assms(2) have "i64_to_string n @ [BYTE_LEN_END] = slice bs pos sp"
    by (intro decode_int_canonical [OF i]) auto
  moreover have "length b = unat n" using b np by (simp add: slice_simps)
  ultimately show ?thesis using sl nn by (simp add: encode_bytes_def i64_to_string_nonneg)
qed

section \<open>Canonical text\<close>

lemma key_in_order_snoc:
  assumes "bt_wf d" and "key_in_order opts d k" and "check_key_sort opts" and "bt_get d k = None"
  shows "\<forall>k'\<in>fst ` set d. k' < k"
proof
  fix k' assume k': "k' \<in> fst ` set d"
  then obtain l where l: "bt_last_key d = Some l"
    by (cases "d = []") (auto simp: bt_last_key_def)
  with assms(2,3) have "l \<le> k" by (simp add: key_in_order_def not_less)
  with bt_last_key_max [OF assms(1) l k'] have "k' \<le> k" by simp
  moreover have "k' \<noteq> k" using assms(4) k' by (auto simp: bt_get_def map_of_eq_None_iff)
  ultimately show "k' < k" by simp
qed

lemma slice_after:
  assumes "pos < length bs" and "pos + 1 < np" and "bs ! pos = c"
  shows "slice bs pos np = c # slice bs (pos + 1) np"
  using assms by (simp add: slice_Cons)

lemma decode_canonical:
  "decode bs pos opts depth = Ok (v, np) \<Longrightarrow> check_key_sort opts \<longrightarrow> 0x2B \<notin> set (slice bs pos np) \<longrightarrow>
     enc (erase v) = slice bs pos np"
  "decode_list bs pos opts depth l = Ok (l', np') \<Longrightarrow>
     check_key_sort opts \<longrightarrow> 0x2B \<notin> set (slice bs pos np') \<longrightarrow>
     (\<exists>m. l' = l @ m \<and> concat (map enc (map erase m)) @ [BEN_END] = slice bs pos np')"
  "decode_dict bs pos opts depth d = Ok (d', np'') \<Longrightarrow>
     check_key_sort opts \<longrightarrow> bt_wf d \<longrightarrow> 0x2B \<notin> set (slice bs pos np'') \<longrightarrow>
     (\<exists>m. d' = d @ m \<and> bt_wf d' \<and>
        concat (map enc_entry (map (map_prod (\<lambda>k. k) erase) m)) @ [BEN_END] = slice bs pos np'')"
proof (induction rule: decode_run_induct)
  case (int bs pos opts depth n np)
  then have "slice bs pos np = INT_START # slice bs (pos + 1) np"
    by (intro slice_after) (auto dest: decode_int_Ok)
  with int show ?case
    using decode_int_canonical [OF int(4)] by (auto simp: encode_int_def)
next
  case (str bs pos opts depth b np)
  then show ?case
    using decode_bytes_canonical [OF str(4)] by auto
next
  case (list bs pos opts depth l np)
  then show ?case
    using slice_after [of pos bs np LIST_START] by (auto simp: encode_list_eq)
next
  case (dict bs pos opts depth d np)
  then show ?case
    using slice_after [of pos bs np DICT_START]
    by (auto simp: encode_dict_eq dict_to_list_def bt_wf_sort_key)
next
  case (list_end bs pos opts depth l)
  then show ?case by (simp add: slice_Cons slice_self)
next
  case (list_item bs pos opts depth l v q l' np)
  then have sl: "slice bs pos np = slice bs pos q @ slice bs q np"
    by (intro slice_concat) auto
  show ?case
  proof (intro impI)
    assume "check_key_sort opts" "0x2B \<notin> set (slice bs pos np)"
    with list_item sl obtain m where "l' = l @ [v] @ m"
      and "concat (map enc (map erase m)) @ [BEN_END] = slice bs q np"
      and "enc (erase v) = slice bs pos q"
      by auto
    with sl show "\<exists>m. l' = l @ m \<and> concat (map enc (map erase m)) @ [BEN_END] = slice bs pos np"
      by (intro exI [of _ "v # m"]) simp
  qed
next
  case (dict_end bs pos opts depth d)
  then show ?case by (simp add: slice_Cons slice_self)
next
  case (dict_entry bs pos opts depth d k q v r d' np)
  then have sl: "slice bs pos np = slice bs pos q @ slice bs q r @ slice bs r np"
    using slice_concat [of pos q np bs] slice_concat [of q r np bs] by simp
  show ?case
  proof (intro impI)
    assume a: "check_key_sort opts" "bt_wf d" "0x2B \<notin> set (slice bs pos np)"
    with dict_entry have lt: "\<forall>k'\<in>fst ` set d. k' < k" by (intro key_in_order_snoc)
    with a have put: "bt_put k v d = d @ [(k, v)]" "bt_wf (d @ [(k, v)])"
      by (simp_all add: bt_put_snoc)
    from dict_entry a sl put obtain m where "d' = d @ [(k, v)] @ m" "bt_wf d'"
      and "concat (map enc_entry (map (map_prod (\<lambda>k. k) erase) m)) @ [BEN_END] = slice bs r np"
      and "enc (erase v) = slice bs q r"
      by auto
    moreover have "encode_bytes k [] = slice bs pos q"
      using a sl by (intro decode_bytes_canonical [OF dict_entry(5)]) auto
    ultimately show "\<exists>m. d' = d @ m \<and> bt_wf d' \<and>
        concat (map enc_entry (map (map_prod (\<lambda>k. k) erase) m)) @ [BEN_END] = slice bs pos np"
      using sl by (intro exI [of _ "(k, v) # m"]) (simp add: enc_entry_def)
  qed
qed

section \<open>Shape of decoded values\<close>

lemma sint_unat_less: "0 \<le> sint (n::i64) \<Longrightarrow> unat n < 2 ^ 63"
  using sint_less [of n] by (simp add: unat_sint_nonneg [symmetric])

lemma decode_bytes_length:
  assumes "decode_bytes bs pos = Ok (b, np)"
  shows "length b < 2 ^ 63"
proof -
  from assms obtain n sp where "decode_int bs pos BYTE_LEN_END = Ok (n, sp)" and nn: "0 \<le> sint n"
    and "np = sp + unat n" and "np \<le> length bs" and "b = slice bs sp np"
    by (rule decode_bytes_Ok)
  then have "length b = unat n" by (simp add: slice_simps)
  with sint_unat_less [OF nn] show ?thesis by simp
qed

lemma set_bt_put: "set (bt_put k v m) \<subseteq> insert (k, v) (set m)"
  by (induction k v m rule: bt_put.induct) auto

lemma mut_wf_put:
  assumes "mut_wf (MDict (map (map_prod (\<lambda>k. k) erase) d))" and "length k < 2 ^ 63" and "mut_wf (erase v)"
  shows "mut_wf (MDict (map (map_prod (\<lambda>k. k) erase) (bt_put k v d)))"
  using assms set_bt_put [of k v d] by (auto simp: mut_wf_MDict bt_wf_put)

lemma decode_wf:
  "decode bs pos opts depth = Ok (v, np) \<Longrightarrow> mut_wf (erase v)"
  "decode_list bs pos opts depth l = Ok (l', np') \<Longrightarrow>
     mut_wf (MList (map erase l)) \<longrightarrow> mut_wf (MList (map erase l'))"
  "decode_dict bs pos opts depth d = Ok (d', np'') \<Longrightarrow>
     mut_wf (MDict (map (map_prod (\<lambda>k. k) erase) d)) \<longrightarrow> mut_wf (MDict (map (map_prod (\<lambda>k. k) erase) d'))"
proof (induction rule: decode_run_induct)
  case (str bs pos opts depth b np)
  then show ?case using decode_bytes_length [OF str(4)] by simp
next
  case (dict_entry bs pos opts depth d k q v r d' np)
  then show ?case
    using mut_wf_put [of d k v] decode_bytes_length [OF dict_entry(5)] by blast
qed (simp_all add: mut_wf_MList mut_wf_MDict)

lemma decode_nesting:
  "decode bs pos opts depth = Ok (v, np) \<Longrightarrow> depth + nesting (erase v) \<le> max_recursion opts"
  "decode_list bs pos opts depth l = Ok (l', np') \<Longrightarrow> depth < max_recursion opts \<longrightarrow>
     depth + nesting (MList (map erase l)) \<le> max_recursion opts \<longrightarrow>
     depth + nesting (MList (map erase l')) \<le> max_recursion opts"
  "decode_dict bs pos opts depth d = Ok (d', np'') \<Longrightarrow> depth < max_recursion opts \<longrightarrow>
     depth + nesting (MDict (map (map_prod (\<lambda>k. k) erase) d)) \<le> max_recursion opts \<longrightarrow>
     depth + nesting (MDict (map (map_prod (\<lambda>k. k) erase) d')) \<le> max_recursion opts"
proof (induction rule: decode_run_induct)
  case (list_item bs pos opts depth l v q l' np)
  show ?case
  proof (intro impI)
    assume lt: "depth < max_recursion opts"
      and le: "depth + nesting (MList (map erase l)) \<le> max_recursion opts"
    from lt obtain m where m: "max_recursion opts = depth + Suc m"
      by (metis add_Suc_right less_imp_Suc_add)
    have "nesting (MList (map erase (l @ [v]))) \<le> Suc m"
      using le list_item.IH(1) unfolding m by (auto simp: nesting_MList_le)
    with list_item.IH(2) lt m
    show "depth + nesting (MList (map erase l')) \<le> max_recursion opts" by simp
  qed
next
  case (dict_entry bs pos opts depth d k q v r d' np)
  show ?case
  proof (intro impI)
    assume lt: "depth < max_recursion opts"
      and le: "depth + nesting (MDict (map (map_prod (\<lambda>k. k) erase) d)) \<le> max_recursion opts"
    from lt obtain m where m: "max_recursion opts = depth + Suc m"
      by (metis add_Suc_right less_imp_Suc_add)
    have "nesting (MDict (map (map_prod (\<lambda>k. k) erase) (bt_put k v d))) \<le> Suc m"
      using le dict_entry.IH(1) set_bt_put [of k v d] unfolding m
      by (auto simp: nesting_MDict_le)
    with dict_entry.IH(2) lt m
    show "depth + nesting (MDict (map (map_prod (\<lambda>k. k) erase) d')) \<le> max_recursion opts" by simp
  qed
qed (simp_all add: nesting.simps)

lemma decode_buffer:
  assumes "decode bs pos opts depth = Ok (v, np)"
  shows "buffer v = slice bs pos np"
  using assms by (cases rule: decode_Ok_cases) auto

section \<open>Decoding what was encoded\<close>

lemma nth_0_digit: "list_all is_digit s \<Longrightarrow> s \<noteq> [] \<Longrightarrow> is_digit (s ! 0)"
  by (cases s) auto

lemma i64_to_string_chars: "c \<in> set (i64_to_string n) \<Longrightarrow> is_digit c \<or> c = 0x2D"
  using digits_nat_to_string
  by (auto simp: i64_to_string_def int_to_string_def list_all_iff split: if_splits)

lemma nat_to_string_no_padding: "\<not> (length (nat_to_string n) > 1 \<and> nat_to_string n ! 0 = 0x30)"
proof
  assume a: "length (nat_to_string n) > 1 \<and> nat_to_string n ! 0 = 0x30"
  then have "n = 0" by (metis hd_conv_nth hd_nat_to_string nat_to_string_not_Nil)
  with a show False by (simp add: nat_to_string_0)
qed

lemma i64_to_string_no_padding:
  "\<not> (length (i64_to_string n) > 1 \<and> i64_to_string n ! 0 = 0x30)"
  using nat_to_string_no_padding by (auto simp: i64_to_string_def int_to_string_def)

lemma i64_to_string_no_negative_zero:
  "\<not> (length (i64_to_string n) > 1 \<and> i64_to_string n ! 0 = 0x2D \<and> i64_to_string n ! 1 = 0x30)"
proof (cases "sint n < 0")
  case True
  then have "hd (nat_to_string (nat (- sint n))) \<noteq> 0x30" by (simp add: hd_nat_to_string)
  with True show ?thesis
    by (simp add: i64_to_string_def int_to_string_def hd_conv_nth)
next
  case False
  have "is_digit (nat_to_string (nat (sint n)) ! 0)"
    by (rule nth_0_digit) simp_all
  then have "nat_to_string (nat (sint n)) ! 0 \<noteq> 0x2D" by (auto dest: digit_not_sign)
  with False show ?thesis by (simp add: i64_to_string_def int_to_string_def)
qed

lemma decode_int_at:
  assumes "delim \<notin> set s" and "i64_from_str s = Some n"
    and "\<not> (length s > 1 \<and> s ! 0 = 0x2D \<and> s ! 1 = 0x30)"
    and "\<not> (length s > 1 \<and> s ! 0 = 0x30)"
  shows "decode_int (pre @ s @ delim # post) (length pre) delim = Ok (n, length pre + length s + 1)"
proof -
  have "position (\<lambda>n. n = delim) (s @ delim # post) = Some (length s)"
    using assms(1) by (intro position_append_hit) auto
  with assms show ?thesis
    by (auto simp: decode_int_def i64_from_str_utf8 simp flip: One_nat_def)
qed

lemma decode_int_of_string:
  assumes "delim = BEN_END \<or> delim = BYTE_LEN_END"
  shows "decode_int (pre @ i64_to_string n @ delim # post) (length pre) delim
           = Ok (n, length pre + length (i64_to_string n) + 1)"
proof (rule decode_int_at [OF _ i64_from_str_to_string i64_to_string_no_negative_zero
      i64_to_string_no_padding])
  show "delim \<notin> set (i64_to_string n)"
    using assms i64_to_string_chars [of delim n]
    by (auto simp: BEN_END_def BYTE_LEN_END_def is_digit_def)
qed

lemma decode_bytes_encode_bytes:
  assumes "length b < 2 ^ 63"
  shows "decode_bytes (pre @ encode_bytes b [] @ post) (length pre)
           = Ok (b, length pre + length (encode_bytes b []))"
proof -
  let ?n = "word_of_nat (length b) :: i64"
  have s: "sint ?n = int (length b)"
    using assms i64_of_int_Some [of "int (length b)" ?n] by (simp add: i64_of_int_def)
  then have ts: "nat_to_string (length b) = i64_to_string ?n" and u: "unat ?n = length b"
    using unat_sint_nonneg [of ?n] by (simp_all add: i64_to_string_def int_to_string_def)
  show ?thesis
    using s u decode_int_of_string [of BYTE_LEN_END pre ?n "b @ post"]
    by (simp add: decode_bytes_def encode_bytes_def ts slice_def)
qed

lemma hd_enc: "hd (enc v) \<noteq> BEN_END" and enc_not_Nil: "enc v \<noteq> []"
proof -
  have "is_digit (hd (nat_to_string n))" for n
    using nth_0_digit [OF digits_nat_to_string, of n] by (simp add: hd_conv_nth)
  then have "hd (nat_to_string n) \<noteq> BEN_END" for n
    by (metis BEN_END_def digit_not_sign)
  then show "hd (enc v) \<noteq> BEN_END" and "enc v \<noteq> []"
    by (cases v; simp add: encode_int_def encode_bytes_def encode_list_eq encode_dict_eq
        bencode_consts)+
qed

lemma nth_prefix: "ys \<noteq> [] \<Longrightarrow> (xs @ ys @ zs) ! length xs = hd ys"
  by (cases ys) auto

text \<open>
  One iteration of each loop, on a buffer that holds the encoding of the next item at the
  current position.
\<close>

lemma decode_list_items:
  assumes "\<And>v pre post. v \<in> set l \<Longrightarrow> \<exists>r. decode (pre @ enc v @ post) (length pre) opts (depth + 1)
      = Ok (r, length pre + length (enc v)) \<and> erase r = v"
  shows "\<exists>rs. decode_list (pre @ concat (map enc l) @ BEN_END # post) (length pre) opts depth acc
      = Ok (acc @ rs, length pre + length (concat (map enc l)) + 1) \<and> map erase rs = l"
  using assms
proof (induction l arbitrary: pre acc)
  case Nil
  show ?case
    by (subst decode_list.simps) (simp add: peek_byte_def ok_or_def)
next
  case (Cons v l)
  let ?rest = "concat (map enc l) @ BEN_END # post"
  let ?bs = "pre @ enc v @ ?rest"
  obtain r where r: "decode ?bs (length pre) opts (depth + 1) = Ok (r, length pre + length (enc v))"
    and e: "erase r = v" using Cons.prems [of v] by auto
  have IH: "\<exists>rs. decode_list ((pre @ enc v) @ ?rest) (length (pre @ enc v)) opts depth (acc @ [r])
      = Ok ((acc @ [r]) @ rs, length (pre @ enc v) + length (concat (map enc l)) + 1) \<and> map erase rs = l"
    by (rule Cons.IH) (rule Cons.prems, simp)
  then obtain rs where rs: "decode_list ?bs (length pre + length (enc v)) opts depth (acc @ [r])
      = Ok (acc @ r # rs, length pre + length (enc v) + length (concat (map enc l)) + 1)"
    and m: "map erase rs = l" by auto
  have "?bs ! length pre = hd (enc v)" by (rule nth_prefix) (rule enc_not_Nil)
  then have pk: "peek_byte ?bs (length pre) = Ok (hd (enc v))"
    by (simp add: outcome_simps enc_not_Nil)
  have "decode_list ?bs (length pre) opts depth acc
      = Ok (acc @ r # rs, length pre + length (enc v) + length (concat (map enc l)) + 1)"
    using r rs by (subst decode_list.simps) (simp add: pk hd_enc)
  with e m show ?case by (intro exI [of _ "r # rs"]) (simp add: add.assoc)
qed

lemma decode_dict_entries:
  assumes "\<And>kv pre post. kv \<in> set d \<Longrightarrow> \<exists>r. decode (pre @ enc (snd kv) @ post) (length pre) opts (depth + 1)
      = Ok (r, length pre + length (enc (snd kv))) \<and> erase r = snd kv"
    and "\<forall>kv\<in>set d. length (fst kv) < 2 ^ 63"
    and "bt_wf acc" and "bt_wf d" and "\<forall>k\<in>fst ` set acc. \<forall>k'\<in>fst ` set d. k < k'"
  shows "\<exists>rs. decode_dict (pre @ concat (map enc_entry d) @ BEN_END # post) (length pre) opts depth acc
      = Ok (acc @ rs, length pre + length (concat (map enc_entry d)) + 1)
      \<and> map (map_prod (\<lambda>k. k) erase) rs = d"
  using assms
proof (induction d arbitrary: pre acc)
  case Nil
  show ?case
    by (subst decode_dict.simps) (simp add: peek_byte_def ok_or_def)
next
  case (Cons kv d)
  obtain k v where kv: "kv = (k, v)" by (cases kv)
  let ?rest = "concat (map enc_entry d) @ BEN_END # post"
  let ?ek = "encode_bytes k []"
  let ?bs = "pre @ ?ek @ enc v @ ?rest"
  have ent: "enc_entry kv = ?ek @ enc v" by (simp add: enc_entry_def kv)
  have key: "decode_bytes ?bs (length pre) = Ok (k, length pre + length ?ek)"
    using Cons.prems(2) kv by (intro decode_bytes_encode_bytes) simp
  obtain r where r: "decode ((pre @ ?ek) @ enc v @ ?rest) (length (pre @ ?ek)) opts (depth + 1)
      = Ok (r, length (pre @ ?ek) + length (enc v))"
    and e: "erase r = v" using Cons.prems(1) [of kv "pre @ ?ek" ?rest] kv by auto
  have lt: "\<forall>k'\<in>fst ` set acc. k' < k" using Cons.prems(5) kv by simp
  with Cons.prems(3) have put: "bt_put k r acc = acc @ [(k, r)]" and wf: "bt_wf (acc @ [(k, r)])"
    by (simp_all add: bt_put_snoc)
  have new: "bt_get acc k = None" using lt by (auto simp: bt_get_def map_of_eq_None_iff)
  have ord: "\<not> (case bt_last_key acc of Some last_key \<Rightarrow> k < last_key | None \<Rightarrow> False)"
    using lt by (cases acc rule: rev_cases) (auto simp: bt_last_key_def)
  let ?pre = "pre @ ?ek @ enc v"
  have "\<exists>rs. decode_dict (?pre @ ?rest) (length ?pre) opts depth (acc @ [(k, r)])
      = Ok ((acc @ [(k, r)]) @ rs, length ?pre + length (concat (map enc_entry d)) + 1)
      \<and> map (map_prod (\<lambda>k. k) erase) rs = d"
  proof (rule Cons.IH)
    show "\<exists>r. decode (pre @ enc (snd kv) @ post) (length pre) opts (depth + 1)
      = Ok (r, length pre + length (enc (snd kv))) \<and> erase r = snd kv" if "kv \<in> set d" for kv pre post
      by (rule Cons.prems(1)) (simp add: that)
  qed (use Cons.prems wf kv in auto)
  then obtain rs where rs: "decode_dict ?bs (length ?pre) opts depth (acc @ [(k, r)])
      = Ok (acc @ (k, r) # rs, length ?pre + length (concat (map enc_entry d)) + 1)"
    and m: "map (map_prod (\<lambda>k. k) erase) rs = d" by auto
  have "?ek \<noteq> []" and "hd ?ek \<noteq> BEN_END"
    using hd_enc [of "MBytes k"] enc_not_Nil [of "MBytes k"] by simp_all
  then have pk: "peek_byte ?bs (length pre) = Ok (hd ?ek)"
    using nth_prefix [of ?ek pre "enc v @ ?rest"] by (simp add: outcome_simps)
  have "decode_dict ?bs (length pre) opts depth acc
      = Ok (acc @ (k, r) # rs, length ?pre + length (concat (map enc_entry d)) + 1)"
    using r rs \<open>hd ?ek \<noteq> BEN_END\<close>
    by (subst decode_dict.simps) (simp add: pk key ord new put add.assoc)
  with e m kv ent show ?case by (intro exI [of _ "(k, r) # rs"]) (simp add: add.assoc)
qed

lemma decode_enc:
  assumes "mut_wf v" and "depth + nesting v \<le> max_recursion opts"
  shows "\<exists>r. decode (pre @ enc v @ post) (length pre) opts depth
           = Ok (r, length pre + length (enc v)) \<and> erase r = v"
  using assms
proof (induction v arbitrary: pre post depth)
  case (MInt n)
  have "decode_int ((pre @ [INT_START]) @ i64_to_string n @ BEN_END # post) (length (pre @ [INT_START])) BEN_END
      = Ok (n, length (pre @ [INT_START]) + length (i64_to_string n) + 1)"
    by (rule decode_int_of_string) simp
  with MInt show ?case
    by (subst decode.simps) (simp add: encode_int_def peek_byte_def ok_or_def)
next
  case (MBytes b)
  have d: "is_digit (hd (encode_bytes b []))"
    using nth_0_digit [OF digits_nat_to_string, of "length b"]
    by (simp add: encode_bytes_def hd_conv_nth nth_append)
  then have nc: "hd (encode_bytes b []) \<noteq> INT_START" "hd (encode_bytes b []) \<noteq> LIST_START"
    "hd (encode_bytes b []) \<noteq> DICT_START"
    by (auto simp: bencode_consts is_digit_def)
  have "(pre @ encode_bytes b [] @ post) ! length pre = hd (encode_bytes b [])"
    using enc_not_Nil [of "MBytes b"] by (intro nth_prefix) simp
  moreover have "length pre < length (pre @ encode_bytes b [] @ post)"
    using enc_not_Nil [of "MBytes b"] by simp
  ultimately have pk: "peek_byte (pre @ encode_bytes b [] @ post) (length pre)
      = Ok (hd (encode_bytes b []))"
    by (simp add: outcome_simps)
  have "length b < 2 ^ 63" using MBytes.prems by simp
  from decode_bytes_encode_bytes [OF this, of pre post] pk d nc MBytes.prems show ?case
    by (subst decode.simps)
      (simp add: is_digit_def BYTE_LEN_LOW_def BYTE_LEN_HIGH_def)
next
  case (MList l)
  from MList.prems(2) obtain m where m: "max_recursion opts = depth + Suc m"
    by (metis add_Suc_right le_iff_add add.assoc add_Suc nesting.simps(3))
  with MList.prems have n: "\<forall>v\<in>set l. mut_wf v \<and> depth + 1 + nesting v \<le> max_recursion opts"
    by (auto simp: mut_wf_MList nesting_MList_le)
  let ?pre = "pre @ [LIST_START]"
  have "\<exists>rs. decode_list (?pre @ concat (map enc l) @ BEN_END # post) (length ?pre) opts depth []
      = Ok ([] @ rs, length ?pre + length (concat (map enc l)) + 1) \<and> map erase rs = l"
    by (rule decode_list_items) (rule MList.IH, use n in auto)
  with m show ?case
    by (subst decode.simps)
      (auto simp: encode_list_eq peek_byte_def ok_or_def bencode_consts)
next
  case (MDict d)
  from MDict.prems(2) obtain m where m: "max_recursion opts = depth + Suc m"
    by (metis add_Suc_right le_iff_add add.assoc add_Suc nesting.simps(4))
  with MDict.prems have n: "\<forall>kv\<in>set d. mut_wf (snd kv) \<and> length (fst kv) < 2 ^ 63
      \<and> depth + 1 + nesting (snd kv) \<le> max_recursion opts" and wf: "bt_wf d"
    by (auto simp: mut_wf_MDict nesting_MDict_le)
  let ?pre = "pre @ [DICT_START]"
  have "\<exists>rs. decode_dict (?pre @ concat (map enc_entry d) @ BEN_END # post) (length ?pre) opts depth []
      = Ok ([] @ rs, length ?pre + length (concat (map enc_entry d)) + 1)
      \<and> map (map_prod (\<lambda>k. k) erase) rs = d"
  proof (rule decode_dict_entries)
    show "\<exists>r. decode (pre @ enc (snd kv) @ post) (length pre) opts (depth + 1)
      = Ok (r, length pre + length (enc (snd kv))) \<and> erase r = snd kv" if "kv \<in> set d" for kv pre post
      by (rule MDict.IH [of kv]) (use n that in \<open>auto simp: snds.intros\<close>)
  qed (use n wf in auto)
  with m wf show ?case
    by (subst decode.simps)
      (auto simp: encode_dict_eq dict_to_list_def bt_wf_sort_key peek_byte_def ok_or_def bencode_consts)
qed

section \<open>Panics\<close>

lemma decode_panic:
  "decode bs pos opts depth = Panic \<Longrightarrow> \<exists>i\<ge>pos. i < length bs \<and> bs ! i = DICT_START"
  "decode_list bs pos opts depth l = Panic \<Longrightarrow> \<exists>i\<ge>pos. i < length bs \<and> bs ! i = DICT_START"
  "decode_dict bs pos opts depth d = Panic \<Longrightarrow> True"
proof (induction bs pos opts depth and bs pos opts depth l and bs pos opts depth d
    rule: decode_decode_list_decode_dict.induct)
  case (1 bs pos opts depth)
  then have nd: "\<not> max_recursion opts \<le> depth" and pk: "peek_byte bs pos = Ok (bs ! pos)"
    and lt: "pos < length bs"
    unfolding decode.simps [of bs pos] by (auto simp: outcome_simps split: if_splits)
  show ?case
  proof (cases "bs ! pos = DICT_START")
    case True
    with lt show ?thesis by blast
  next
    case False
    with "1.prems" nd pk lt have "bs ! pos \<noteq> INT_START \<and> bs ! pos = LIST_START
        \<and> decode_list bs (pos + 1) opts depth [] = Panic"
      unfolding decode.simps [of bs pos]
      by (auto simp: outcome_simps decode_int_Panic decode_bytes_not_Panic split: if_splits)
    with "1.IH"(1) [OF nd pk] show ?thesis by (meson add_leD1)
  qed
next
  case (2 bs pos opts depth l)
  then have pk: "peek_byte bs pos = Ok (bs ! pos)" and ne: "bs ! pos \<noteq> BEN_END"
    unfolding decode_list.simps [of bs pos] by (auto simp: outcome_simps split: if_splits)
  from "2.prems" pk ne consider "decode bs pos opts (depth + 1) = Panic"
    | v q where "decode bs pos opts (depth + 1) = Ok (v, q)" "decode_list bs q opts depth (l @ [v]) = Panic"
    unfolding decode_list.simps [of bs pos] by (auto simp: outcome_simps)
  then show ?case
  proof cases
    case 1
    with "2.IH"(1) [OF pk ne] show ?thesis .
  next
    case (2 v q)
    with "2.IH"(2) [OF pk ne 2(1) refl] decode_progress(1) [OF 2(1)] show ?thesis
      by (meson less_imp_le order_trans)
  qed
qed simp

section \<open>Properties\<close>

lemma decode_top_encode_top:
  assumes "mut_wf v" and "nesting v \<le> max_recursion opts"
  shows "\<exists>r. decode_top (encode_top v) opts = Ok r \<and> erase r = v \<and> buffer r = encode_top v"
proof -
  from assms obtain r where r: "decode (enc v) 0 opts 0 = Ok (r, length (enc v))" and e: "erase r = v"
    using decode_enc [of v 0 opts "[]" "[]"] by auto
  moreover from r have "buffer r = enc v"
    using decode_buffer [OF r] by (simp add: slice_simps)
  ultimately show ?thesis by (simp add: decode_top_def encode_top_def)
qed

text \<open>
  C5. Round trip: decoding the encoding of any value that fits the recursion limit succeeds, for
  every choice of options, and gives back that value together with exactly the encoded bytes as
  its buffer.
\<close>

theorem decode_encode:
  assumes "mut_wf v" and "nesting v \<le> max_recursion opts"
  shows "\<exists>r. decode_top (encode_top v) opts = Ok r \<and> erase r = v \<and> buffer r = encode_top v"
  using assms by (rule decode_top_encode_top)

theorem decode_encode_witness:
  "\<exists>r. decode_top (encode_top (MDict [([0x61], MList [MInt (-7), MBytes [0x62]])])) default_opt = Ok r
     \<and> erase r = MDict [([0x61], MList [MInt (-7), MBytes [0x62]])]
     \<and> buffer r = encode_top (MDict [([0x61], MList [MInt (-7), MBytes [0x62]])])"
  by (rule decode_encode) (simp_all add: mut_wf.simps nesting.simps default_opt_def)

text \<open>
  C18. Canonical text: when keys are required to be sorted and the whole input must be consumed, an
  accepted input without a plus sign is the encoding of the value it decodes to. So no two such
  inputs decode to the same value.
\<close>

theorem encode_decode:
  assumes "decode_top bs opts = Ok r" and "check_key_sort opts" and "enforce_full_decode opts"
    and "0x2B \<notin> set bs"
  shows "encode_top (erase r) = bs"
proof -
  from assms(1,3) have "decode bs 0 opts 0 = Ok (r, length bs)"
    by (auto simp: decode_top_def outcome_simps split: if_splits)
  from decode_canonical(1) [OF this] assms(2,4) show ?thesis
    by (simp add: slice_simps encode_top_def)
qed

theorem encode_decode_witness:
  "encode_top (erase (RList [RInt 5 [0x69, 0x35, 0x65]] [0x6C, 0x69, 0x35, 0x65, 0x65]))
     = [0x6C, 0x69, 0x35, 0x65, 0x65]"
  by (rule encode_decode [where opts = "\<lparr>max_recursion = 3, check_key_sort = True, enforce_full_decode = True\<rparr>"])
    (simp_all, code_simp)

text \<open>
  C26. Shape of what is decoded: every decoded value is well formed (the keys of each dictionary are
  strictly increasing, every length fits an \<open>i64\<close>), its nesting together with the depth of the
  call stays within the recursion limit, and the reported end position and buffer delimit
  exactly the bytes that were read.
\<close>

theorem decode_shape:
  assumes "decode bs pos opts depth = Ok (v, np)"
  shows "mut_wf (erase v) \<and> depth + nesting (erase v) \<le> max_recursion opts
    \<and> pos < np \<and> np \<le> length bs \<and> buffer v = slice bs pos np"
  using decode_wf(1) [OF assms] decode_nesting(1) [OF assms] decode_progress(1) [OF assms]
    decode_buffer [OF assms] by simp

theorem decode_shape_witness:
  "mut_wf (erase (RBytes [0x61] [0x31, 0x3A, 0x61])) \<and> 0 + nesting (erase (RBytes [0x61] [0x31, 0x3A, 0x61])) \<le> max_recursion default_opt
    \<and> 2 < (5::nat) \<and> 5 \<le> length [0x30, 0x30, 0x31, 0x3A, 0x61 :: byte]
    \<and> buffer (RBytes [0x61] [0x31, 0x3A, 0x61]) = slice [0x30, 0x30, 0x31, 0x3A, 0x61] 2 5"
  by (rule decode_shape [of "[0x30, 0x30, 0x31, 0x3A, 0x61]" 2 default_opt 0]) code_simp

text \<open>
  Where a panic can come from: decoding only ever panics if a dictionary marker occurs in the
  input, so an input made of integers, byte strings and lists never panics.
\<close>

theorem decode_top_panic_needs_dict:
  assumes "decode_top bs opts = Panic"
  shows "DICT_START \<in> set bs"
proof -
  from assms have "decode bs 0 opts 0 = Panic"
    by (auto simp: decode_top_def outcome_simps split: if_splits)
  from decode_panic(1) [OF this] show ?thesis by (metis nth_mem)
qed

theorem decode_top_panic_needs_dict_witness:
  "DICT_START \<in> set (ascii ''d1:a'')"
  by (rule decode_top_panic_needs_dict [of _ default_opt]) code_simp



text \<open>
  A plus sign defeats the check for zero padding: an integer written with a leading plus is
  accepted, with any number of leading zeros, and decodes to the value of its digits.
\<close>

theorem decode_int_plus_padding:
  assumes "list_all is_digit ds" and "ds \<noteq> []" and "dec_val ds < 2 ^ 63"
  shows "decode_int (0x2B # ds @ [BEN_END]) 0 BEN_END = Ok (word_of_nat (dec_val ds), length ds + 2)"
proof -
  have "BEN_END \<notin> set (0x2B # ds)"
    using assms(1) by (auto simp: BEN_END_def list_all_iff is_digit_def)
  moreover have "i64_from_str (0x2B # ds) = Some (word_of_nat (dec_val ds))"
    using assms by (simp add: i64_of_int_def)
  ultimately show ?thesis
    using decode_int_at [of BEN_END "0x2B # ds" "word_of_nat (dec_val ds)" "[]" "[]"] by simp
qed

theorem decode_int_plus_padding_witness:
  "decode_int (0x2B # [0x30, 0x35] @ [BEN_END]) 0 BEN_END
     = Ok (word_of_nat (dec_val [0x30, 0x35]), length [0x30, 0x35 :: byte] + 2)"
  by (rule decode_int_plus_padding) (simp_all add: is_digit_def dec_val_def digit_val_def)

end
