(* ===== verification/Util_Convert.thy ===== *)
theory Util_Convert
  imports Prelude
begin

text \<open>
  Big-endian conversions, \<open>btp-util/src/convert.rs\<close>, on the address types of
  \<open>std::net\<close>. The contract of a fixed-width big-endian conversion is the locale \<open>be_codec\<close>; it
  is interpreted on ports, IPv4 and IPv6 addresses, socket addresses and 64-bit integers, and
  carries the facts about packed sequences (the compact lists of contacts) that follow from it.
\<close>

section \<open>Addresses\<close>

datatype Ipv4Addr = Ipv4Addr byte byte byte byte

datatype Ipv6Addr = Ipv6Addr u16 u16 u16 u16 u16 u16 u16 u16

record SocketAddrV4 =
  v4_ip :: Ipv4Addr
  v4_port :: u16

record SocketAddrV6 =
  v6_ip :: Ipv6Addr
  v6_port :: u16
  v6_flowinfo :: u32
  v6_scope_id :: u32

datatype IpAddr = IpV4 Ipv4Addr | IpV6 Ipv6Addr

datatype SocketAddr = SockV4 SocketAddrV4 | SockV6 SocketAddrV6

fun octets :: "Ipv4Addr \<Rightarrow> bytes" where
  "octets (Ipv4Addr a b c d) = [a, b, c, d]"

fun segments :: "Ipv6Addr \<Rightarrow> u16 list" where
  "segments (Ipv6Addr a b c d e f g h) = [a, b, c, d, e, f, g, h]"

section \<open>Conversions\<close>

definition eight_bytes_to_array :: "u64 \<Rightarrow> bytes" where
  "eight_bytes_to_array w =
     [ucast (drop_bit 56 w), ucast (drop_bit 48 w), ucast (drop_bit 40 w), ucast (drop_bit 32 w),
      ucast (drop_bit 24 w), ucast (drop_bit 16 w), ucast (drop_bit 8 w), ucast w]"

definition four_bytes_to_array :: "u32 \<Rightarrow> bytes" where
  "four_bytes_to_array w =
     (let eight_bytes = eight_bytes_to_array (ucast w)
      in [eight_bytes ! 4, eight_bytes ! 5, eight_bytes ! 6, eight_bytes ! 7])"

definition ipv4_to_bytes_be :: "Ipv4Addr \<Rightarrow> bytes" where
  "ipv4_to_bytes_be v4_addr = octets v4_addr"

definition ipv6_to_bytes_be :: "Ipv6Addr \<Rightarrow> bytes" where
  "ipv6_to_bytes_be v6_addr =
     map (\<lambda>index. ucast (drop_bit (8 - (index mod 2) * 8) (segments v6_addr ! (index div 2)))) [0..<16]"

definition port_to_bytes_be :: "u16 \<Rightarrow> bytes" where
  "port_to_bytes_be port = [ucast (drop_bit 8 port), ucast (drop_bit 0 port)]"

definition sock_v4_to_bytes_be :: "SocketAddrV4 \<Rightarrow> bytes" where
  "sock_v4_to_bytes_be v4_sock = ipv4_to_bytes_be (v4_ip v4_sock) @ port_to_bytes_be (v4_port v4_sock)"

definition sock_v6_to_bytes_be :: "SocketAddrV6 \<Rightarrow> bytes" where
  "sock_v6_to_bytes_be v6_sock = ipv6_to_bytes_be (v6_ip v6_sock) @ port_to_bytes_be (v6_port v6_sock)"

definition bytes_be_to_ipv4 :: "bytes \<Rightarrow> Ipv4Addr" where
  "bytes_be_to_ipv4 bs = Ipv4Addr (bs ! 0) (bs ! 1) (bs ! 2) (bs ! 3)"

definition combine_segments :: "bytes \<Rightarrow> u16 list" where
  "combine_segments bs =
     fold (\<lambda>index combined.
       combined[index div 2 := (combined ! (index div 2)) OR
         (if index mod 2 = 0 then push_bit 8 (ucast (bs ! index)) else ucast (bs ! index))])
       [0..<16] (replicate 8 0)"

definition bytes_be_to_ipv6 :: "bytes \<Rightarrow> Ipv6Addr" where
  "bytes_be_to_ipv6 bs =
     (let combined = combine_segments bs
      in Ipv6Addr (combined ! 0) (combined ! 1) (combined ! 2) (combined ! 3)
           (combined ! 4) (combined ! 5) (combined ! 6) (combined ! 7))"

definition bytes_be_to_port :: "bytes \<Rightarrow> u16" where
  "bytes_be_to_port bs = (push_bit 8 (ucast (bs ! 0))) OR ucast (bs ! 1)"

definition bytes_be_to_sock_v4 :: "bytes \<Rightarrow> SocketAddrV4" where
  "bytes_be_to_sock_v4 bs =
     \<lparr>v4_ip = bytes_be_to_ipv4 [bs ! 0, bs ! 1, bs ! 2, bs ! 3],
      v4_port = bytes_be_to_port [bs ! 4, bs ! 5]\<rparr>"

definition bytes_be_to_sock_v6 :: "bytes \<Rightarrow> SocketAddrV6" where
  "bytes_be_to_sock_v6 bs =
     \<lparr>v6_ip = bytes_be_to_ipv6 (take 16 bs), v6_port = bytes_be_to_port [bs ! 16, bs ! 17],
      v6_flowinfo = 0, v6_scope_id = 0\<rparr>"

section \<open>The contract of a fixed-width conversion\<close>

fun chunks :: "nat \<Rightarrow> nat \<Rightarrow> 'a list \<Rightarrow> 'a list list" where
  "chunks n 0 xs = []"
| "chunks n (Suc k) xs = take n xs # chunks n k (drop n xs)"

locale be_codec =
  fixes to_bytes :: "'a \<Rightarrow> bytes" and from_bytes :: "bytes \<Rightarrow> 'a" and width :: nat
    and valid :: "'a \<Rightarrow> bool"
  assumes to_bytes_length: "length (to_bytes a) = width"
    and from_to: "valid a \<Longrightarrow> from_bytes (to_bytes a) = a"
    and to_from: "length bs = width \<Longrightarrow> to_bytes (from_bytes bs) = bs"
    and from_valid: "length bs = width \<Longrightarrow> valid (from_bytes bs)"
begin

lemma to_bytes_inj: "valid a \<Longrightarrow> valid b \<Longrightarrow> to_bytes a = to_bytes b \<longleftrightarrow> a = b"
  by (metis from_to)

lemma from_bytes_inj:
  "length xs = width \<Longrightarrow> length ys = width \<Longrightarrow> from_bytes xs = from_bytes ys \<longleftrightarrow> xs = ys"
  by (metis to_from)

lemma packed_length: "length (concat (map to_bytes xs)) = width * length xs"
  by (induction xs) (simp_all add: to_bytes_length)

lemma unpack_packed:
  "\<forall>x\<in>set xs. valid x \<Longrightarrow>
     map from_bytes (chunks width (length xs) (concat (map to_bytes xs))) = xs"
  by (induction xs) (simp_all add: to_bytes_length from_to)

lemma pack_unpacked:
  "length bs = width * k \<Longrightarrow> concat (map to_bytes (map from_bytes (chunks width k bs))) = bs"
proof (induction k arbitrary: bs)
  case (Suc k)
  then have "to_bytes (from_bytes (take width bs)) = take width bs" by (intro to_from) simp
  with Suc show ?case by simp
qed simp

end

lemma length_2E: "length xs = 2 \<Longrightarrow> \<exists>a b. xs = [a, b]"
  by (auto simp: numeral_2_eq_2 length_Suc_conv)

lemma word16_split: "push_bit 8 (ucast (ucast (drop_bit 8 (w::u16)) :: byte)) OR ucast (ucast w :: byte) = w"
  by (rule bit_word_eqI) (auto simp: bit_simps)

lemma word16_high: "ucast (drop_bit 8 (push_bit 8 (ucast (a::byte)) OR ucast (b::byte) :: u16)) = a"
  by (rule bit_word_eqI) (auto simp: bit_simps dest: bit_imp_le_length)

lemma word16_low: "ucast (push_bit 8 (ucast (a::byte)) OR ucast (b::byte) :: u16) = b"
  by (rule bit_word_eqI) (auto simp: bit_simps)

lemma port_roundtrip: "bytes_be_to_port (port_to_bytes_be p) = p"
  by (simp add: bytes_be_to_port_def port_to_bytes_be_def word16_split)

lemma length_port_bytes: "length (port_to_bytes_be p) = 2"
  by (simp add: port_to_bytes_be_def)

interpretation port_codec: be_codec port_to_bytes_be bytes_be_to_port 2 "\<lambda>_. True"
proof unfold_locales
  fix bs :: bytes assume "length bs = 2"
  then obtain a b where "bs = [a, b]" using length_2E by blast
  then show "port_to_bytes_be (bytes_be_to_port bs) = bs"
    by (simp add: bytes_be_to_port_def port_to_bytes_be_def word16_high word16_low
        del: drop_bit_or)
qed (simp_all add: port_roundtrip length_port_bytes)

interpretation ipv4_codec: be_codec ipv4_to_bytes_be bytes_be_to_ipv4 4 "\<lambda>_. True"
proof unfold_locales
  fix a :: Ipv4Addr
  show "length (ipv4_to_bytes_be a) = 4" by (cases a) (simp add: ipv4_to_bytes_be_def)
  show "bytes_be_to_ipv4 (ipv4_to_bytes_be a) = a"
    by (cases a) (simp add: ipv4_to_bytes_be_def bytes_be_to_ipv4_def)
next
  fix bs :: bytes assume "length bs = 4"
  then obtain a b c d where "bs = [a, b, c, d]"
    by (auto simp: eval_nat_numeral length_Suc_conv)
  then show "ipv4_to_bytes_be (bytes_be_to_ipv4 bs) = bs"
    by (simp add: ipv4_to_bytes_be_def bytes_be_to_ipv4_def)
qed simp

lemma upt_16: "[0..<16] = [0, 1, 2, 3, 4, 5, 6, 7, 8, 9, 10, 11, 12, 13, 14, 15]"
  by (simp add: upt_conv_Cons)

lemma replicate_8: "replicate 8 x = [x, x, x, x, x, x, x, x]"
  by (simp add: numeral_eq_Suc)

lemma list_update_numeral: "(x # xs)[numeral n := y] = x # xs[pred_numeral n := y]"
  by (simp add: numeral_eq_Suc)

lemma combine_segments_eq:
  "combine_segments [b0, b1, b2, b3, b4, b5, b6, b7, b8, b9, b10, b11, b12, b13, b14, b15] =
     [push_bit 8 (ucast b0) OR ucast b1, push_bit 8 (ucast b2) OR ucast b3,
      push_bit 8 (ucast b4) OR ucast b5, push_bit 8 (ucast b6) OR ucast b7,
      push_bit 8 (ucast b8) OR ucast b9, push_bit 8 (ucast b10) OR ucast b11,
      push_bit 8 (ucast b12) OR ucast b13, push_bit 8 (ucast b14) OR ucast b15]"
  by (simp add: combine_segments_def upt_16 replicate_8 list_update_numeral)

lemma ipv6_to_bytes_be_eq:
  "ipv6_to_bytes_be (Ipv6Addr a b c d e f g h) =
     concat (map (\<lambda>s. [ucast (drop_bit 8 s), ucast s]) [a, b, c, d, e, f, g, h])"
  by (simp add: ipv6_to_bytes_be_def upt_16)

lemma length_16E:
  assumes "length xs = 16"
  obtains a b c d e f g h i j k l m n q r where "xs = [a, b, c, d, e, f, g, h, i, j, k, l, m, n, q, r]"
  using assms by (auto simp: eval_nat_numeral length_Suc_conv)

interpretation ipv6_codec: be_codec ipv6_to_bytes_be bytes_be_to_ipv6 16 "\<lambda>_. True"
proof unfold_locales
  fix a :: Ipv6Addr
  show "length (ipv6_to_bytes_be a) = 16" by (simp add: ipv6_to_bytes_be_def)
  show "bytes_be_to_ipv6 (ipv6_to_bytes_be a) = a"
    by (cases a) (simp add: ipv6_to_bytes_be_eq bytes_be_to_ipv6_def combine_segments_eq word16_split)
next
  fix bs :: bytes assume "length bs = 16"
  then obtain a b c d e f g h i j k l m n q r where
    "bs = [a, b, c, d, e, f, g, h, i, j, k, l, m, n, q, r]" by (rule length_16E)
  then show "ipv6_to_bytes_be (bytes_be_to_ipv6 bs) = bs"
    by (simp add: ipv6_to_bytes_be_eq bytes_be_to_ipv6_def combine_segments_eq word16_high word16_low
        del: drop_bit_or)
qed simp

text \<open>A socket address is its address followed by its port.\<close>

interpretation sock_v4_codec: be_codec sock_v4_to_bytes_be bytes_be_to_sock_v4 6 "\<lambda>_. True"
proof unfold_locales
  fix a :: SocketAddrV4
  show "length (sock_v4_to_bytes_be a) = 6"
    by (simp add: sock_v4_to_bytes_be_def ipv4_codec.to_bytes_length port_codec.to_bytes_length)
  show "bytes_be_to_sock_v4 (sock_v4_to_bytes_be a) = a"
    by (cases "v4_ip a")
      (simp add: sock_v4_to_bytes_be_def bytes_be_to_sock_v4_def ipv4_to_bytes_be_def
        bytes_be_to_ipv4_def port_to_bytes_be_def bytes_be_to_port_def word16_split)
next
  fix bs :: bytes assume "length bs = 6"
  then obtain a b c d e f where "bs = [a, b, c, d, e, f]"
    by (auto simp: eval_nat_numeral length_Suc_conv)
  then show "sock_v4_to_bytes_be (bytes_be_to_sock_v4 bs) = bs"
    by (simp add: sock_v4_to_bytes_be_def bytes_be_to_sock_v4_def ipv4_codec.to_from
        port_codec.to_from)
qed simp

interpretation sock_v6_codec: be_codec sock_v6_to_bytes_be bytes_be_to_sock_v6 18
  "\<lambda>a. v6_flowinfo a = 0 \<and> v6_scope_id a = 0"
proof unfold_locales
  fix a :: SocketAddrV6
  show "length (sock_v6_to_bytes_be a) = 18"
    by (simp add: sock_v6_to_bytes_be_def ipv6_codec.to_bytes_length port_codec.to_bytes_length)
  have n: "(ipv6_to_bytes_be (v6_ip a) @ xs) ! 16 = xs ! 0"
    "(ipv6_to_bytes_be (v6_ip a) @ xs) ! 17 = xs ! 1" for xs
    by (simp_all add: nth_append ipv6_codec.to_bytes_length)
  assume "v6_flowinfo a = 0 \<and> v6_scope_id a = 0"
  then show "bytes_be_to_sock_v6 (sock_v6_to_bytes_be a) = a"
    by (simp add: sock_v6_to_bytes_be_def bytes_be_to_sock_v6_def n ipv6_codec.to_bytes_length
        ipv6_codec.from_to port_to_bytes_be_def bytes_be_to_port_def word16_split)
next
  fix bs :: bytes assume l: "length bs = 18"
  then have "drop 16 bs = [bs ! 16, bs ! 17]"
    by (simp add: Cons_nth_drop_Suc [symmetric])
  with l show "sock_v6_to_bytes_be (bytes_be_to_sock_v6 bs) = bs"
    by (simp add: sock_v6_to_bytes_be_def bytes_be_to_sock_v6_def ipv6_codec.to_from
        port_codec.to_from) (metis append_take_drop_id)
qed (simp add: bytes_be_to_sock_v6_def)

section \<open>Integers\<close>

text \<open>Reading eight bytes, most significant first, as the loop of \<open>TransactionID::from_bytes\<close> does.\<close>

definition shift_in :: "u64 \<Rightarrow> byte \<Rightarrow> u64" where
  "shift_in acc b = push_bit 8 acc OR ucast b"

definition u64_of_bytes :: "bytes \<Rightarrow> u64" where
  "u64_of_bytes bs = foldl shift_in 0 bs"

lemma shift_in_next:
  "n + 8 \<le> 64 \<Longrightarrow> shift_in (drop_bit (n + 8) w) (ucast (drop_bit n w)) = drop_bit n w"
  unfolding shift_in_def
  by (rule bit_word_eqI) (auto simp: bit_simps not_le add.commute dest: bit_imp_le_length)

lemma shift_in_first: "shift_in 0 (ucast (drop_bit 56 w)) = drop_bit 56 w"
  unfolding shift_in_def
  by (rule bit_word_eqI) (auto simp: bit_simps dest: bit_imp_le_length)

lemma u64_of_eight_bytes: "u64_of_bytes (eight_bytes_to_array w) = w"
  using shift_in_next [of 48 w] shift_in_next [of 40 w] shift_in_next [of 32 w]
    shift_in_next [of 24 w] shift_in_next [of 16 w] shift_in_next [of 8 w] shift_in_next [of 0 w]
  by (simp add: u64_of_bytes_def eight_bytes_to_array_def shift_in_first)

lemma drop_shift_in:
  "8 \<le> n \<Longrightarrow> n \<le> 56 \<Longrightarrow> (ucast (drop_bit n (shift_in acc b)) :: byte) = ucast (drop_bit (n - 8) acc)"
  unfolding shift_in_def
  by (rule bit_word_eqI) (auto simp: bit_simps dest: bit_imp_le_length)

lemma low_shift_in: "(ucast (shift_in acc b) :: byte) = b"
  unfolding shift_in_def by (rule bit_word_eqI) (auto simp: bit_simps)

lemma length_eight_bytes: "length (eight_bytes_to_array w) = 8"
  by (simp add: eight_bytes_to_array_def)

interpretation u64_codec: be_codec eight_bytes_to_array u64_of_bytes 8 "\<lambda>_. True"
proof unfold_locales
  fix bs :: bytes assume "length bs = 8"
  then obtain a b c d e f g h where "bs = [a, b, c, d, e, f, g, h]"
    by (auto simp: eval_nat_numeral length_Suc_conv)
  then show "eight_bytes_to_array (u64_of_bytes bs) = bs"
    by (simp add: u64_of_bytes_def eight_bytes_to_array_def drop_shift_in low_shift_in)
qed (simp_all add: u64_of_eight_bytes length_eight_bytes)

section \<open>Properties\<close>



end
