(* ===== verification/Util_Sha.thy ===== *)
theory Util_Sha
  imports Util_Convert
begin

text \<open>
  The 20-byte hash type, \<open>btp-util/src/sha/mod.rs\<close>, with the exclusive or of two hashes, the
  iterator over their bits, and the errors of \<open>btp-util/src/error.rs\<close>. A \<open>ShaHash\<close> is its byte
  array. \<open>leading_bit_count\<close> is the distance of the DHT routing table
  (\<open>btp-dht/src/routing/table.rs\<close>), which is the only client of the bit iterator.
\<close>

datatype LengthErrorKind = LengthExceeded | LengthExpected | LengthMultipleExpected

record LengthError =
  le_kind :: LengthErrorKind
  le_length :: nat
  le_index :: "nat option"

definition length_error :: "LengthErrorKind \<Rightarrow> nat \<Rightarrow> LengthError" where
  "length_error kind len = \<lparr>le_kind = kind, le_length = len, le_index = None\<rparr>"

definition length_error_with_index :: "LengthErrorKind \<Rightarrow> nat \<Rightarrow> nat \<Rightarrow> LengthError" where
  "length_error_with_index kind len index = \<lparr>le_kind = kind, le_length = len, le_index = Some index\<rparr>"

definition SHA_HASH_LEN :: nat where
  "SHA_HASH_LEN = 20"

type_synonym ShaHash = bytes

definition sha_wf :: "ShaHash \<Rightarrow> bool" where
  "sha_wf h \<longleftrightarrow> length h = SHA_HASH_LEN"

definition sha_from_hash :: "bytes \<Rightarrow> (LengthError, ShaHash) outcome" where
  "sha_from_hash hash =
     (if length hash \<noteq> SHA_HASH_LEN then Err (length_error LengthExpected SHA_HASH_LEN)
      else Ok (map snd (zip (replicate SHA_HASH_LEN (0::byte)) hash)))"

text \<open>\<open>PartialEq<[u8]>\<close>: the fold over the zipped bytes starts from the comparison of lengths.\<close>

definition sha_eq_slice :: "ShaHash \<Rightarrow> bytes \<Rightarrow> bool" where
  "sha_eq_slice hash other =
     foldl (\<lambda>prev (h, u). prev \<and> h = u) (length other = length hash) (zip hash other)"

definition sha_bitxor :: "ShaHash \<Rightarrow> ShaHash \<Rightarrow> ShaHash" where
  "sha_bitxor lhs rhs = map (\<lambda>(src, dst). src XOR dst) (zip rhs lhs)"

datatype BitRep = BitSet | BitUnset

datatype XorRep = XorDiff | XorSame

fun bit_eq_xor :: "BitRep \<Rightarrow> XorRep \<Rightarrow> bool" where
  "bit_eq_xor BitSet XorDiff = True"
| "bit_eq_xor BitUnset XorSame = True"
| "bit_eq_xor _ _ = False"

record Bits =
  bits_bytes :: bytes
  bit_pos :: nat

definition bits_new :: "bytes \<Rightarrow> Bits" where
  "bits_new bs = \<lparr>bits_bytes = bs, bit_pos = 0\<rparr>"

definition bits_next :: "Bits \<Rightarrow> BitRep option \<times> Bits" where
  "bits_next it =
     (if bit_pos it < length (bits_bytes it) * 8 then
        let byte_index = bit_pos it div 8;
            bit_offset = 7 - bit_pos it mod 8;
            bit_value = drop_bit bit_offset (bits_bytes it ! byte_index)
        in (Some (if bit_value = 1 then BitSet else BitUnset), it\<lparr>bit_pos := bit_pos it + 1\<rparr>)
      else (None, it))"

text \<open>\<open>take_while(p).count()\<close> on the iterator.\<close>

function take_while_count :: "(BitRep \<Rightarrow> bool) \<Rightarrow> Bits \<Rightarrow> nat" where
  "take_while_count p it =
     (case bits_next it of
        (None, _) \<Rightarrow> 0
      | (Some b, it') \<Rightarrow> if p b then Suc (take_while_count p it') else 0)"
  by pat_completeness auto
termination
  by (relation "measure (\<lambda>(p, it). length (bits_bytes it) * 8 - bit_pos it)")
    (auto simp: bits_next_def Let_def split: if_splits)

declare take_while_count.simps [simp del]

definition leading_bit_count :: "ShaHash \<Rightarrow> ShaHash \<Rightarrow> nat" where
  "leading_bit_count local_node remote_node =
     (let diff_id = sha_bitxor local_node remote_node
      in take_while_count (\<lambda>x. bit_eq_xor x XorSame) (bits_new diff_id))"

section \<open>Elementary facts\<close>

lemma map_snd_zip_eq: "length xs = length ys \<Longrightarrow> map snd (zip xs ys) = ys"
  by (simp add: map_snd_zip)

lemma sha_from_hash_Ok: "sha_from_hash bs = Ok h \<longleftrightarrow> h = bs \<and> sha_wf bs"
  by (auto simp: sha_from_hash_def sha_wf_def map_snd_zip_eq)

lemma foldl_and: "foldl (\<lambda>prev x. prev \<and> P x) b xs \<longleftrightarrow> b \<and> (\<forall>x\<in>set xs. P x)"
  by (induction xs arbitrary: b) auto

lemma sha_eq_slice_iff: "sha_eq_slice h other \<longleftrightarrow> h = other"
  unfolding list_eq_iff_zip_eq
  by (auto simp: sha_eq_slice_def foldl_and case_prod_unfold)

lemma length_sha_bitxor [simp]: "length (sha_bitxor a b) = min (length a) (length b)"
  by (simp add: sha_bitxor_def min.commute)

lemma nth_sha_bitxor:
  "i < length a \<Longrightarrow> i < length b \<Longrightarrow> sha_bitxor a b ! i = b ! i XOR a ! i"
  by (simp add: sha_bitxor_def)

section \<open>What the bit iterator yields\<close>

text \<open>The bit at position \<open>i\<close>, counted from the most significant bit of the first byte.\<close>

definition bit_at :: "bytes \<Rightarrow> nat \<Rightarrow> bool" where
  "bit_at bs i = bit (bs ! (i div 8)) (7 - i mod 8)"

lemma drop_bit_eq_1:
  fixes b :: byte
  assumes "k < 8"
  shows "drop_bit k b = 1 \<longleftrightarrow> bit b k \<and> (\<forall>j. k < j \<and> j < 8 \<longrightarrow> \<not> bit b j)"
proof
  assume "drop_bit k b = 1"
  then have d: "bit b (k + n) \<longleftrightarrow> n = 0" for n
    by (metis bit_drop_bit_eq bit_1_iff comp_apply)
  show "bit b k \<and> (\<forall>j. k < j \<and> j < 8 \<longrightarrow> \<not> bit b j)"
  proof (intro conjI allI impI)
    show "bit b k" using d [of 0] by simp
    fix j assume "k < j \<and> j < 8"
    then show "\<not> bit b j" using d [of "j - k"] by simp
  qed
next
  assume a: "bit b k \<and> (\<forall>j. k < j \<and> j < 8 \<longrightarrow> \<not> bit b j)"
  show "drop_bit k b = 1"
  proof (rule bit_word_eqI)
    fix n assume "n < LENGTH(8)"
    have "\<not> bit b (k + n)" if "n \<noteq> 0"
      using a that bit_imp_le_length [of b "k + n"] by (cases "k + n < 8") auto
    then show "bit (drop_bit k b) n = bit 1 n"
      using a by (cases "n = 0") (auto simp: bit_drop_bit_eq bit_1_iff)
  qed
qed

lemma bits_next_at:
  assumes "i < length bs * 8"
  shows "bits_next \<lparr>bits_bytes = bs, bit_pos = i\<rparr> =
     (Some (if bit_at bs i \<and> (\<forall>j<i. j div 8 = i div 8 \<longrightarrow> \<not> bit_at bs j) then BitSet else BitUnset),
      \<lparr>bits_bytes = bs, bit_pos = i + 1\<rparr>)"
proof -
  let ?b = "bs ! (i div 8)" and ?k = "7 - i mod 8"
  have "(\<forall>j. ?k < j \<and> j < 8 \<longrightarrow> \<not> bit ?b j) \<longleftrightarrow> (\<forall>j<i. j div 8 = i div 8 \<longrightarrow> \<not> bit_at bs j)"
    (is "?l \<longleftrightarrow> ?r")
  proof
    assume l: ?l
    show ?r
    proof (intro allI impI)
      fix j assume j: "j < i" "j div 8 = i div 8"
      then have "j mod 8 < i mod 8"
        by (metis add_less_cancel_left div_mult_mod_eq)
      then have "?k < 7 - j mod 8 \<and> 7 - j mod 8 < 8" by (auto simp: less_Suc_eq_le)
      with l j show "\<not> bit_at bs j" by (simp add: bit_at_def)
    qed
  next
    assume r: ?r
    show ?l
    proof (intro allI impI)
      fix j assume j: "?k < j \<and> j < 8"
      define q where "q = 8 * (i div 8) + (7 - j)"
      have "q div 8 = i div 8" "q mod 8 = 7 - j" 
        unfolding q_def using j by (simp_all only: div_mult_self4 mod_mult_self4) auto
      moreover have "7 - j < i mod 8" using j by linarith
      then have "q < i" unfolding q_def by (metis add_less_cancel_left mult_div_mod_eq)
      ultimately show "\<not> bit ?b j" using r j by (auto simp: bit_at_def)
    qed
  qed
  with assms show ?thesis
    by (simp add: bits_next_def Let_def drop_bit_eq_1 bit_at_def)
qed

lemma bits_next_end:
  "length bs * 8 \<le> i \<Longrightarrow> bits_next \<lparr>bits_bytes = bs, bit_pos = i\<rparr> = (None, \<lparr>bits_bytes = bs, bit_pos = i\<rparr>)"
  by (simp add: bits_next_def)

text \<open>
  Counting unset bits from position \<open>i\<close>, when every bit before \<open>i\<close> is clear: then the missing
  mask of the iterator does not matter.
\<close>

lemma take_while_same:
  assumes "\<forall>j<i. \<not> bit_at bs j" and "i \<le> length bs * 8"
  shows "let n = i + take_while_count (\<lambda>x. bit_eq_xor x XorSame) \<lparr>bits_bytes = bs, bit_pos = i\<rparr> in
      n \<le> length bs * 8 \<and> (\<forall>j<n. \<not> bit_at bs j) \<and> (n < length bs * 8 \<longrightarrow> bit_at bs n)"
  using assms
proof (induction "length bs * 8 - i" arbitrary: i)
  case 0
  then show ?case
    by (subst take_while_count.simps) (simp add: bits_next_end)
next
  case (Suc m)
  then have lt: "i < length bs * 8" by simp
  note step = bits_next_at [OF lt]
  show ?case
  proof (cases "bit_at bs i")
    case True
    with Suc.prems show ?thesis
      by (subst take_while_count.simps) (simp add: step lt)
  next
    case False
    with Suc.prems have "\<forall>j<Suc i. \<not> bit_at bs j" by (auto simp: less_Suc_eq)
    with Suc.hyps(1) [of "Suc i"] Suc.hyps(2) lt have
      "let n = Suc i + take_while_count (\<lambda>x. bit_eq_xor x XorSame) \<lparr>bits_bytes = bs, bit_pos = Suc i\<rparr> in
        n \<le> length bs * 8 \<and> (\<forall>j<n. \<not> bit_at bs j) \<and> (n < length bs * 8 \<longrightarrow> bit_at bs n)"
      by simp
    with False show ?thesis
      by (subst take_while_count.simps) (simp add: step Let_def)
  qed
qed

lemma bit_at_sha_bitxor:
  assumes "length a = length b" and "i < length a * 8"
  shows "bit_at (sha_bitxor a b) i \<longleftrightarrow> bit_at a i \<noteq> bit_at b i"
proof -
  from assms have "i div 8 < length a" by (simp add: less_mult_imp_div_less)
  with assms show ?thesis by (auto simp: bit_at_def nth_sha_bitxor bit_xor_iff)
qed

lemma bit_at_inject:
  assumes "length a = length b" and "\<forall>j<length a * 8. bit_at a j = bit_at b j"
  shows "a = b"
proof (rule nth_equalityI [OF assms(1)])
  fix i assume i: "i < length a"
  show "a ! i = b ! i"
  proof (rule bit_word_eqI)
    fix n assume n: "n < LENGTH(8)"
    define j where "j = 7 - n + i * 8"
    have j: "j div 8 = i" "j mod 8 = 7 - n"
      unfolding j_def by (simp_all only: div_mult_self1 mod_mult_self1) auto
    have "j < length a * 8" using i n unfolding j_def by simp
    with assms(2) j n show "bit (a ! i) n = bit (b ! i) n" by (auto simp: bit_at_def)
  qed
qed

lemma leading_bit_spec:
  assumes "length a = length b"
  shows "leading_bit_count a b \<le> length a * 8 \<and> (leading_bit_count a b = length a * 8 \<longleftrightarrow> a = b) \<and>
    (\<forall>j<leading_bit_count a b. bit_at a j = bit_at b j) \<and>
    (leading_bit_count a b < length a * 8 \<longrightarrow>
       bit_at a (leading_bit_count a b) \<noteq> bit_at b (leading_bit_count a b))"
proof -
  note main = take_while_same [of 0 "sha_bitxor a b"]
  let ?n = "leading_bit_count a b"
  have n: "take_while_count (\<lambda>x. bit_eq_xor x XorSame) \<lparr>bits_bytes = sha_bitxor a b, bit_pos = 0\<rparr> = ?n"
    by (simp add: leading_bit_count_def bits_new_def)
  from main [unfolded Let_def] assms n have
    "?n \<le> length a * 8" "\<forall>j<?n. \<not> bit_at (sha_bitxor a b) j"
    "?n < length a * 8 \<longrightarrow> bit_at (sha_bitxor a b) ?n"
    by simp_all
  with assms have
    "?n \<le> length a * 8" "\<forall>j<?n. bit_at a j = bit_at b j" "?n < length a * 8 \<longrightarrow> bit_at a ?n \<noteq> bit_at b ?n"
    by (simp_all add: bit_at_sha_bitxor)
  moreover have "?n = length a * 8 \<longleftrightarrow> a = b"
    using calculation bit_at_inject [OF assms] by (metis order_le_imp_less_or_eq)
  ultimately show ?thesis by blast
qed

section \<open>Properties\<close>

text \<open>
  C31. Although the iterator over the bits of a hash forgets to mask them, the distance of the DHT
  is right: \<open>leading_bit_count\<close> of two hashes of equal length is the number of leading bits they
  share. Every bit before it agrees, the bit at it differs, and it is the whole length exactly
  when the hashes are equal.
\<close>

theorem leading_bit_count_correct:
  assumes "length a = length b"
  shows "leading_bit_count a b \<le> length a * 8 \<and> (leading_bit_count a b = length a * 8 \<longleftrightarrow> a = b) \<and>
    (\<forall>j<leading_bit_count a b. bit_at a j = bit_at b j) \<and>
    (leading_bit_count a b < length a * 8 \<longrightarrow>
       bit_at a (leading_bit_count a b) \<noteq> bit_at b (leading_bit_count a b))"
  by (rule leading_bit_spec [OF assms])

theorem leading_bit_count_correct_witness:
  "leading_bit_count [0xF0, 0x0F] [0xF0, 0x1F] = 11 \<and> bit_at [0xF0, 0x0F] 11 \<noteq> bit_at [0xF0, 0x1F] 11"
proof -
  have "leading_bit_count [0xF0, 0x0F] [0xF0, 0x1F] = 11" by code_simp
  with leading_bit_count_correct [of "[0xF0, 0x0F]" "[0xF0, 0x1F]"] show ?thesis by simp
qed

text \<open>
  What the iterator over the bits of a hash reports at position \<open>i\<close>: a set bit is reported as
  set only when it is the first set bit of its byte. The value it compares with one is the byte
  shifted right without a mask, so every later set bit of the byte is reported as unset.
\<close>

theorem bits_next_reports:
  assumes "i < length bs * 8"
  shows "fst (bits_next \<lparr>bits_bytes = bs, bit_pos = i\<rparr>) = Some BitSet \<longleftrightarrow>
    bit_at bs i \<and> (\<forall>j<i. j div 8 = i div 8 \<longrightarrow> \<not> bit_at bs j)"
  by (simp add: bits_next_at [OF assms])

theorem bits_next_reports_witness:
  "bit_at [0xC0] 1 \<and> fst (bits_next \<lparr>bits_bytes = [0xC0], bit_pos = 1\<rparr>) \<noteq> Some BitSet"
proof -
  have "bit_at [0xC0] 0" "bit_at [0xC0] 1" by code_simp+
  with bits_next_reports [of 1 "[0xC0]"] show ?thesis by auto
qed

end
