(* ===== verification/Util_Timer.thy ===== *)
theory Util_Timer
  imports Rust_Std
begin

text \<open>
  The timer of \<open>btp-util/src/timer.rs\<close>: a queue of timeouts ordered by deadline and, separately,
  the timeout that is being slept on. The \<open>Sleep\<close> future belongs
  to tokio; it is represented by its deadline, and \<open>sleep_ready d\<close> says whether polling a sleep with
  deadline \<open>d\<close> returns \<open>Ready\<close> (for tokio: whether \<open>d\<close> has passed).
\<close>

datatype Timeout = Timeout (deadline: instant) (timeout_id: u64)

instantiation Timeout :: linorder
begin

definition less_eq_Timeout :: "Timeout \<Rightarrow> Timeout \<Rightarrow> bool" where
  "less_eq_Timeout a b \<longleftrightarrow>
     deadline a < deadline b \<or> deadline a = deadline b \<and> timeout_id a \<le> timeout_id b"

definition less_Timeout :: "Timeout \<Rightarrow> Timeout \<Rightarrow> bool" where
  "less_Timeout a b \<longleftrightarrow>
     deadline a < deadline b \<or> deadline a = deadline b \<and> timeout_id a < timeout_id b"

instance
  by standard (auto simp: less_eq_Timeout_def less_Timeout_def Timeout.expand)

end

record 'v CurrentTimerEntry =
  cur_sleep :: instant
  cur_value :: 'v
  cur_id :: u64

definition current_key :: "'v CurrentTimerEntry \<Rightarrow> Timeout" where
  "current_key c = Timeout (cur_sleep c) (cur_id c)"

record 'v Timer =
  timer_next_id :: u64
  timer_current :: "'v CurrentTimerEntry option"
  timer_queue :: "(Timeout \<times> 'v) list"

definition timer_new :: "'v Timer" where
  "timer_new = \<lparr>timer_next_id = 0, timer_current = None, timer_queue = []\<rparr>"

definition timer_is_empty :: "'v Timer \<Rightarrow> bool" where
  "timer_is_empty t \<longleftrightarrow> timer_current t = None \<and> timer_queue t = []"

definition next_id :: "'v Timer \<Rightarrow> u64 \<times> 'v Timer" where
  "next_id t = (timer_next_id t, t\<lparr>timer_next_id := timer_next_id t + 1\<rparr>)"

definition schedule_at :: "instant \<Rightarrow> 'v \<Rightarrow> 'v Timer \<Rightarrow> Timeout \<times> 'v Timer" where
  "schedule_at dl v t =
     (let t1 = (case timer_current t of
                  Some c \<Rightarrow>
                    if dl < deadline (current_key c)
                    then t\<lparr>timer_current := None,
                           timer_queue := bt_put (current_key c) (cur_value c) (timer_queue t)\<rparr>
                    else t
                | None \<Rightarrow> t);
          (i, t2) = next_id t1;
          key = Timeout dl i
      in (key, t2\<lparr>timer_queue := bt_put key v (timer_queue t2)\<rparr>))"

definition schedule_in :: "instant \<Rightarrow> duration \<Rightarrow> 'v \<Rightarrow> 'v Timer \<Rightarrow> Timeout \<times> 'v Timer" where
  "schedule_in now dur v t = schedule_at (now + int dur) v t"

definition queue_remove :: "Timeout \<Rightarrow> 'v Timer \<Rightarrow> bool \<times> 'v Timer" where
  "queue_remove k t =
     (bt_get (timer_queue t) k \<noteq> None, t\<lparr>timer_queue := bt_del k (timer_queue t)\<rparr>)"

definition timer_cancel :: "Timeout \<Rightarrow> 'v Timer \<Rightarrow> bool \<times> 'v Timer" where
  "timer_cancel k t =
     (case timer_current t of
        Some c \<Rightarrow> if current_key c = k then (True, t\<lparr>timer_current := None\<rparr>) else queue_remove k t
      | None \<Rightarrow> queue_remove k t)"

datatype 'v timer_poll = PollReady "'v option" | PollPending

function timer_poll_next :: "(instant \<Rightarrow> bool) \<Rightarrow> 'v Timer \<Rightarrow> 'v timer_poll \<times> 'v Timer" where
  "timer_poll_next sleep_ready t =
     (case timer_current t of
        Some c \<Rightarrow>
          if sleep_ready (cur_sleep c)
          then (PollReady (Some (cur_value c)), t\<lparr>timer_current := None\<rparr>)
          else (PollPending, t)
      | None \<Rightarrow>
          (case timer_queue t of
             [] \<Rightarrow> (PollReady None, t)
           | (key, v) # q \<Rightarrow>
               timer_poll_next sleep_ready
                 (t\<lparr>timer_queue := bt_del key (timer_queue t),
                    timer_current := Some \<lparr>cur_sleep = deadline key, cur_value = v,
                                           cur_id = timeout_id key\<rparr>\<rparr>)))"
  by pat_completeness auto
termination
  by (relation "measure (\<lambda>(r, t). if timer_current t = None then 1 else 0)") auto

declare timer_poll_next.simps [simp del]

section \<open>The abstract timer\<close>

text \<open>
  What a timer promises: a finite map from timeouts to values. The concrete timer keeps the
  entry it sleeps on apart from the queue; \<open>timer_abs\<close> puts it back.
\<close>

definition timer_abs :: "'v Timer \<Rightarrow> Timeout \<Rightarrow> 'v option" where
  "timer_abs t k =
     (case timer_current t of
        Some c \<Rightarrow> if k = current_key c then Some (cur_value c) else bt_get (timer_queue t) k
      | None \<Rightarrow> bt_get (timer_queue t) k)"

definition timer_wf :: "'v Timer \<Rightarrow> bool" where
  "timer_wf t \<longleftrightarrow> bt_wf (timer_queue t) \<and>
     (\<forall>c. timer_current t = Some c \<longrightarrow>
        (\<forall>k \<in> fst ` set (timer_queue t). k \<noteq> current_key c \<and> cur_sleep c \<le> deadline k))"

lemma current_key_sel [simp]:
  "deadline (current_key c) = cur_sleep c" "timeout_id (current_key c) = cur_id c"
  by (simp_all add: current_key_def)

lemma bt_get_None: "bt_get m k = None \<longleftrightarrow> k \<notin> fst ` set m"
  by (simp add: bt_get_def map_of_eq_None_iff)

lemma timer_wf_new: "timer_wf timer_new"
  by (simp add: timer_wf_def timer_new_def)

lemma timer_abs_new: "timer_abs timer_new = Map.empty"
  by (rule ext) (simp add: timer_abs_def timer_new_def)

lemma timer_abs_empty: "timer_is_empty t \<longleftrightarrow> timer_abs t = Map.empty"
proof (cases "timer_current t")
  case None
  then show ?thesis
    by (cases "timer_queue t") (auto simp: timer_is_empty_def timer_abs_def bt_get_def fun_eq_iff)
next
  case (Some c)
  then show ?thesis by (auto simp: timer_is_empty_def timer_abs_def fun_eq_iff)
qed

text \<open>The key that \<open>schedule_at\<close> hands out is fresh unless the 64-bit counter came round.\<close>

definition timer_fresh :: "instant \<Rightarrow> 'v Timer \<Rightarrow> bool" where
  "timer_fresh dl t \<longleftrightarrow> timer_abs t (Timeout dl (timer_next_id t)) = None"

lemma schedule_at_wf:
  assumes wf: "timer_wf t" and fresh: "timer_fresh dl t"
  shows "timer_wf (snd (schedule_at dl v t))"
proof (cases "timer_current t")
  case None
  with wf show ?thesis by (simp add: schedule_at_def Let_def next_id_def timer_wf_def bt_wf_put)
next
  case (Some c)
  with wf fresh show ?thesis
    by (auto simp: schedule_at_def Let_def next_id_def timer_wf_def bt_wf_put keys_bt_put timer_fresh_def
        timer_abs_def split: if_splits)
qed

lemma schedule_at_abs:
  assumes wf: "timer_wf t" and fresh: "timer_fresh dl t"
  shows "timer_abs (snd (schedule_at dl v t)) = (timer_abs t)(fst (schedule_at dl v t) \<mapsto> v)"
proof (cases "timer_current t")
  case None
  then show ?thesis
    by (auto simp: schedule_at_def Let_def next_id_def timer_abs_def bt_get_put fun_eq_iff)
next
  case (Some c)
  with fresh show ?thesis
    by (auto simp: schedule_at_def Let_def next_id_def timer_abs_def bt_get_put fun_eq_iff timer_fresh_def
        split: if_splits)
qed

lemma timer_wf_subqueue:
  "timer_wf t \<Longrightarrow> bt_wf q \<Longrightarrow> set q \<subseteq> set (timer_queue t) \<Longrightarrow> timer_wf (t\<lparr>timer_queue := q\<rparr>)"
  by (auto simp: timer_wf_def subset_iff)

lemma set_bt_del: "set (bt_del k m) \<subseteq> set m"
  by (induction k m rule: bt_del.induct) auto

lemma timer_cancel_wf:
  assumes "timer_wf t"
  shows "timer_wf (snd (timer_cancel k t))"
proof -
  have "timer_wf (t\<lparr>timer_queue := bt_del k (timer_queue t)\<rparr>)"
    using assms by (intro timer_wf_subqueue set_bt_del) (auto simp: timer_wf_def bt_wf_del)
  with assms show ?thesis
    by (auto simp: timer_cancel_def queue_remove_def timer_wf_def split: option.split)
qed

lemma timer_cancel_abs:
  assumes "timer_wf t"
  shows "timer_abs (snd (timer_cancel k t)) = (timer_abs t)(k := None) \<and>
    (fst (timer_cancel k t) \<longleftrightarrow> timer_abs t k \<noteq> None)"
proof (cases "timer_current t")
  case None
  with assms show ?thesis
    by (auto simp: timer_cancel_def timer_wf_def queue_remove_def timer_abs_def bt_get_del fun_eq_iff)
next
  case (Some c)
  with assms have "bt_get (timer_queue t) (current_key c) = None"
    by (auto simp: timer_wf_def bt_get_None)
  with Some assms show ?thesis
    by (auto simp: timer_cancel_def timer_wf_def queue_remove_def timer_abs_def bt_get_del fun_eq_iff)
qed

text \<open>
  The state in which the earliest entry has been moved out of the queue, if nothing was slept on.
  Moving it changes neither the abstract timer nor the invariant.
\<close>

fun timer_promote :: "'v Timer \<Rightarrow> 'v Timer" where
  "timer_promote t =
     (case (timer_current t, timer_queue t) of
        (None, (key, v) # q) \<Rightarrow>
          t\<lparr>timer_queue := q,
            timer_current := Some \<lparr>cur_sleep = deadline key, cur_value = v, cur_id = timeout_id key\<rparr>\<rparr>
      | _ \<Rightarrow> t)"

lemma timer_poll_next_promote:
  "timer_poll_next sleep_ready t =
     (case timer_current (timer_promote t) of
        None \<Rightarrow> (PollReady None, t)
      | Some c \<Rightarrow>
          if sleep_ready (cur_sleep c)
          then (PollReady (Some (cur_value c)), (timer_promote t)\<lparr>timer_current := None\<rparr>)
          else (PollPending, timer_promote t))"
  by (cases "timer_current t"; cases "timer_queue t")
    (auto simp: timer_poll_next.simps split: prod.split)

lemma timer_promote_wf:
  assumes "timer_wf t"
  shows "timer_wf (timer_promote t) \<and> timer_abs (timer_promote t) = timer_abs t"
proof (cases "timer_current t")
  case (Some c)
  with assms show ?thesis by simp
next
  case None
  show ?thesis
  proof (cases "timer_queue t")
    case Nil
    with None assms show ?thesis by simp
  next
    case (Cons kv q)
    obtain key v where kv: "kv = (key, v)" by (cases kv)
    from assms Cons kv have wf: "bt_wf q" "\<forall>k\<in>fst ` set q. key < k" by (auto simp: timer_wf_def)
    then have "\<forall>k\<in>fst ` set q. k \<noteq> key \<and> deadline key \<le> deadline k"
      by (auto simp: less_Timeout_def)
    with wf None Cons kv show ?thesis
      by (auto simp: timer_wf_def timer_abs_def bt_get_def fun_eq_iff current_key_def)
  qed
qed

lemma timer_promote_None: "timer_current (timer_promote t) = None \<longleftrightarrow> timer_is_empty t"
  by (auto simp: timer_is_empty_def split: option.split list.split prod.split)

lemma timer_current_earliest:
  assumes "timer_wf t" and "timer_current t = Some c"
  shows "timer_abs t (current_key c) = Some (cur_value c) \<and>
    (\<forall>k. timer_abs t k \<noteq> None \<longrightarrow> cur_sleep c \<le> deadline k)"
proof -
  have "cur_sleep c \<le> deadline k" if "timer_abs t k \<noteq> None" for k
    using assms that bt_get_None [of "timer_queue t" k]
    by (cases "k = current_key c") (auto simp: timer_wf_def timer_abs_def)
  with assms show ?thesis by (simp add: timer_abs_def)
qed

lemma timer_take_current:
  assumes "timer_wf t" and "timer_current t = Some c"
  shows "timer_wf (t\<lparr>timer_current := None\<rparr>) \<and>
    timer_abs (t\<lparr>timer_current := None\<rparr>) = (timer_abs t)(current_key c := None)"
proof -
  from assms have "bt_get (timer_queue t) (current_key c) = None"
    by (auto simp: timer_wf_def bt_get_None)
  with assms show ?thesis by (auto simp: timer_wf_def timer_abs_def fun_eq_iff)
qed

text \<open>What a poll may answer, over the abstract timer.\<close>

definition timer_poll_spec ::
    "(instant \<Rightarrow> bool) \<Rightarrow> (Timeout \<Rightarrow> 'v option) \<Rightarrow> 'v timer_poll \<Rightarrow> (Timeout \<Rightarrow> 'v option) \<Rightarrow> bool" where
  "timer_poll_spec sleep_ready m r m' \<longleftrightarrow>
     (case r of
        PollReady None \<Rightarrow> m = Map.empty \<and> m' = m
      | PollReady (Some v) \<Rightarrow>
          (\<exists>k. m k = Some v \<and> (\<forall>j. m j \<noteq> None \<longrightarrow> deadline k \<le> deadline j) \<and> sleep_ready (deadline k) \<and>
               m' = m(k := None))
      | PollPending \<Rightarrow>
          (\<exists>k. m k \<noteq> None \<and> (\<forall>j. m j \<noteq> None \<longrightarrow> deadline k \<le> deadline j) \<and> \<not> sleep_ready (deadline k) \<and>
               m' = m))"

lemma timer_poll_next_refines:
  assumes "timer_wf t" and "timer_poll_next sleep_ready t = (r, t')"
  shows "timer_wf t' \<and> timer_poll_spec sleep_ready (timer_abs t) r (timer_abs t')"
proof -
  let ?p = "timer_promote t"
  from timer_promote_wf [OF assms(1)] have p: "timer_wf ?p" "timer_abs ?p = timer_abs t" by auto
  show ?thesis
  proof (cases "timer_current ?p")
    case None
    with assms show ?thesis
      by (auto simp: timer_poll_next_promote timer_poll_spec_def timer_abs_empty [symmetric]
          timer_promote_None simp del: timer_promote.simps)
  next
    case (Some c)
    from timer_current_earliest [OF p(1) Some] p(2) have
      c: "timer_abs t (current_key c) = Some (cur_value c)"
      "\<forall>k. timer_abs t k \<noteq> None \<longrightarrow> deadline (current_key c) \<le> deadline k" by auto
    from timer_take_current [OF p(1) Some] p Some c assms(2) show ?thesis
      by (auto simp: timer_poll_next_promote timer_poll_spec_def simp del: timer_promote.simps
          split: if_splits intro!: exI [of _ "current_key c"])
  qed
qed

section \<open>Operations on a timer as steps\<close>

text \<open>
  The states a timer can be in: new, or after a call of one of its operations. A schedule
  counts while its key is not yet in use, and a poll while time is \<open>now\<close>.
\<close>

inductive timer_reachable :: "'v Timer \<Rightarrow> bool" where
  reach_new: "timer_reachable timer_new"
| reach_schedule: "timer_reachable t \<Longrightarrow> timer_fresh dl t \<Longrightarrow> timer_reachable (snd (schedule_at dl v t))"
| reach_cancel: "timer_reachable t \<Longrightarrow> timer_reachable (snd (timer_cancel k t))"
| reach_poll: "timer_reachable t \<Longrightarrow> timer_reachable (snd (timer_poll_next (\<lambda>d. d \<le> now) t))"

lemma timer_reachable_wf: "timer_reachable t \<Longrightarrow> timer_wf t"
proof (induction rule: timer_reachable.induct)
  case (reach_poll t now)
  then show ?case
    using timer_poll_next_refines [of t "\<lambda>d. d \<le> now"] by (metis prod.collapse)
qed (simp_all add: timer_wf_new schedule_at_wf timer_cancel_wf)

section \<open>Properties\<close>

text \<open>
  C20. The timer refines a map from timeouts to values: in every reachable state, scheduling
  with an unused key adds exactly that entry, cancelling removes exactly the named entry and
  reports whether it was there, and a poll at time \<open>now\<close> (a sleep being ready when its deadline
  has passed) delivers an entry with the earliest deadline and removes it when that deadline has
  passed, is pending when no deadline has passed, and ends the stream when there is no entry.
\<close>

theorem timer_refines_map:
  assumes "timer_reachable t"
  shows "(timer_fresh dl t \<longrightarrow>
            timer_abs (snd (schedule_at dl v t)) = (timer_abs t)(fst (schedule_at dl v t) \<mapsto> v)) \<and>
         timer_abs (snd (timer_cancel k t)) = (timer_abs t)(k := None) \<and>
         (fst (timer_cancel k t) \<longleftrightarrow> timer_abs t k \<noteq> None) \<and>
         timer_poll_spec (\<lambda>d. d \<le> now) (timer_abs t) (fst (timer_poll_next (\<lambda>d. d \<le> now) t))
           (timer_abs (snd (timer_poll_next (\<lambda>d. d \<le> now) t)))"
  using timer_reachable_wf [OF assms] timer_cancel_abs schedule_at_abs
    timer_poll_next_refines [OF timer_reachable_wf [OF assms], of "\<lambda>d. d \<le> now"]
  by (metis prod.collapse)

theorem timer_refines_map_witness:
  "fst (timer_poll_next (\<lambda>d. d \<le> 7) (snd (schedule_at 5 ''b'' (snd (schedule_at 9 ''a'' timer_new)))))
     = PollReady (Some ''b'')
   \<and> timer_abs (snd (schedule_at 5 ''b'' (snd (schedule_at 9 ''a'' timer_new)))) =
       (timer_abs (snd (schedule_at 9 ''a'' timer_new)))(Timeout 5 1 \<mapsto> ''b'')"
proof -
  let ?t = "snd (schedule_at 9 ''a'' timer_new)"
  have f: "timer_fresh 9 (timer_new :: string Timer)"
    by (simp add: timer_fresh_def timer_abs_new)
  have "timer_fresh 5 ?t \<and> fst (schedule_at 5 ''b'' ?t) = Timeout 5 1 \<and>
    fst (timer_poll_next (\<lambda>d. d \<le> 7) (snd (schedule_at 5 ''b'' ?t))) = PollReady (Some ''b'')"
    by code_simp
  with timer_refines_map [OF reach_schedule [OF reach_new f, of "''a''"], of 5 "''b''"] show ?thesis
    by simp
qed

end
