(* ===== verification/Util_Send.thy ===== *)
theory Util_Send
  imports Prelude
begin

text \<open>
  The splitting of one channel into several with their own capacities,
  \<open>btp-util/src/send/split_sender.rs\<close>. The counter is an \<open>AtomicUsize\<close> (64 bits) that several
  threads share, so the operations are also given as the atomic steps they are made of, and the
  safety of the counter is proved for every interleaving of those steps. The underlying
  \<open>TrySender\<close> is a parameter: \<open>send_try d s\<close> gives back \<open>Some d\<close> when it refused the message.
\<close>

record 's SplitSender =
  split_send :: 's
  split_count :: u64
  split_capacity :: u64

definition split_sender_new :: "'s \<Rightarrow> u64 \<Rightarrow> 's SplitSender" where
  "split_sender_new send capacity = \<lparr>split_send = send, split_count = 0, split_capacity = capacity\<rparr>"

definition split_sender :: "'s \<Rightarrow> u64 \<Rightarrow> u64 \<Rightarrow> 's SplitSender \<times> 's SplitSender" where
  "split_sender send cap_one cap_two = (split_sender_new send cap_one, split_sender_new send cap_two)"

definition try_count_increment :: "'s SplitSender \<Rightarrow> bool \<times> 's SplitSender" where
  "try_count_increment s =
     (let our_count = split_count s;
          s1 = s\<lparr>split_count := our_count + 1\<rparr>
      in if our_count < split_capacity s then (True, s1)
         else (False, s1\<lparr>split_count := split_count s1 - 1\<rparr>))"

definition split_try_send ::
    "('t \<Rightarrow> 's \<Rightarrow> 't option \<times> 's) \<Rightarrow> 't \<Rightarrow> 's SplitSender \<Rightarrow> 't option \<times> 's SplitSender" where
  "split_try_send send_try d s =
     (let (should_send, s1) = try_count_increment s
      in if should_send
         then let (r, inner) = send_try d (split_send s1) in (r, s1\<lparr>split_send := inner\<rparr>)
         else (Some d, s1))"

definition split_ack :: "'s SplitSender \<Rightarrow> 's SplitSender" where
  "split_ack s = s\<lparr>split_count := split_count s - 1\<rparr>"

section \<open>Interleaved execution\<close>

text \<open>
  A thread is between two calls, has been granted a slot and is about to call the underlying
  sender, or has overshot the capacity and is about to take its increment back. Besides the
  shared counter the state records how many accepted messages have not been acknowledged and how
  many granted slots ended in a refusal of the underlying sender.
\<close>

datatype sender_phase = Idle | Granted | Reverting

record split_sys =
  sys_count :: u64
  sys_threads :: "sender_phase list"
  in_flight :: nat
  refused :: nat

inductive split_step :: "u64 \<Rightarrow> split_sys \<Rightarrow> split_sys \<Rightarrow> bool" for cap :: u64 where
  fetch_add_ok: "i < length (sys_threads s) \<Longrightarrow> sys_threads s ! i = Idle \<Longrightarrow> sys_count s < cap \<Longrightarrow>
     split_step cap s (s\<lparr>sys_count := sys_count s + 1, sys_threads := (sys_threads s)[i := Granted]\<rparr>)"
| fetch_add_over: "i < length (sys_threads s) \<Longrightarrow> sys_threads s ! i = Idle \<Longrightarrow> \<not> sys_count s < cap \<Longrightarrow>
     split_step cap s (s\<lparr>sys_count := sys_count s + 1, sys_threads := (sys_threads s)[i := Reverting]\<rparr>)"
| fetch_sub: "i < length (sys_threads s) \<Longrightarrow> sys_threads s ! i = Reverting \<Longrightarrow>
     split_step cap s (s\<lparr>sys_count := sys_count s - 1, sys_threads := (sys_threads s)[i := Idle]\<rparr>)"
| send_ok: "i < length (sys_threads s) \<Longrightarrow> sys_threads s ! i = Granted \<Longrightarrow>
     split_step cap s (s\<lparr>in_flight := in_flight s + 1, sys_threads := (sys_threads s)[i := Idle]\<rparr>)"
| send_refused: "i < length (sys_threads s) \<Longrightarrow> sys_threads s ! i = Granted \<Longrightarrow>
     split_step cap s (s\<lparr>refused := refused s + 1, sys_threads := (sys_threads s)[i := Idle]\<rparr>)"
| ack: "0 < in_flight s \<Longrightarrow>
     split_step cap s (s\<lparr>sys_count := sys_count s - 1, in_flight := in_flight s - 1\<rparr>)"

definition split_init :: "nat \<Rightarrow> split_sys" where
  "split_init n = \<lparr>sys_count = 0, sys_threads = replicate n Idle, in_flight = 0, refused = 0\<rparr>"

abbreviation split_steps :: "u64 \<Rightarrow> split_sys \<Rightarrow> split_sys \<Rightarrow> bool" where
  "split_steps cap \<equiv> (split_step cap)\<^sup>*\<^sup>*"

inductive_cases split_stepE: "split_step cap s s'"

abbreviation phase_count :: "sender_phase \<Rightarrow> split_sys \<Rightarrow> nat" where
  "phase_count p s \<equiv> count_list (sys_threads s) p"

text \<open>
  The counter is the number of slots in use, of increments still to be taken back included, and
  the slots really granted never exceed the capacity.
\<close>

definition split_inv :: "u64 \<Rightarrow> nat \<Rightarrow> split_sys \<Rightarrow> bool" where
  "split_inv cap n s \<longleftrightarrow>
     length (sys_threads s) = n \<and>
     unat (sys_count s) = phase_count Granted s + phase_count Reverting s + in_flight s + refused s \<and>
     phase_count Granted s + in_flight s + refused s \<le> unat cap"

lemma count_list_update:
  assumes "i < length xs"
  shows "count_list (xs[i := y]) p + (if xs ! i = p then 1 else 0) = count_list xs p + (if y = p then 1 else 0)"
  using assms
proof (induction xs arbitrary: i)
  case (Cons x xs)
  then show ?case by (cases i) fastforce+
qed simp

lemma count_list_add_le:
  "p \<noteq> q \<Longrightarrow> count_list xs p + count_list xs q \<le> length xs"
  by (induction xs) auto

lemma count_list_pos: "i < length xs \<Longrightarrow> xs ! i = p \<Longrightarrow> 0 < count_list xs p"
  by (metis count_list_0_iff nth_mem gr0I)

lemma unat_plus_1: "Suc (unat w) < 2 ^ 64 \<Longrightarrow> unat (w + 1) = Suc (unat w)" for w :: u64
  by (simp add: unat_word_ariths)

lemma unat_minus_1': "0 < unat w \<Longrightarrow> unat (w - 1) = unat w - 1" for w :: u64
  by (metis unat_minus_one unat_0 less_irrefl)

lemma split_inv_room:
  assumes "split_inv cap n s" and "unat cap + n < 2 ^ 64"
    and "i < length (sys_threads s)" and "sys_threads s ! i = Idle"
  shows "Suc (unat (sys_count s)) < 2 ^ 64"
proof -
  have "phase_count Reverting s + phase_count Idle s \<le> n"
    using assms(1) count_list_add_le [of Reverting Idle "sys_threads s"] by (simp add: split_inv_def)
  moreover have "0 < phase_count Idle s" using assms(3,4) by (rule count_list_pos)
  ultimately show ?thesis using assms(1,2) by (simp add: split_inv_def)
qed

lemma split_inv_step:
  assumes inv: "split_inv cap n s" and room: "unat cap + n < 2 ^ 64" and step: "split_step cap s s'"
  shows "split_inv cap n s'"
  using step
proof cases
  case (fetch_add_ok i)
  note upd = count_list_update [OF fetch_add_ok(2), of Granted]
  from fetch_add_ok inv upd [of Granted] upd [of Reverting]
    unat_plus_1 [OF split_inv_room [OF inv room fetch_add_ok(2,3)]]
  show ?thesis by (simp add: split_inv_def word_less_nat_alt)
next
  case (fetch_add_over i)
  note upd = count_list_update [OF fetch_add_over(2), of Reverting]
  from fetch_add_over inv upd [of Granted] upd [of Reverting]
    unat_plus_1 [OF split_inv_room [OF inv room fetch_add_over(2,3)]]
  show ?thesis by (simp add: split_inv_def)
next
  case (fetch_sub i)
  note upd = count_list_update [OF fetch_sub(2), of Idle]
  from fetch_sub inv upd [of Granted] upd [of Reverting] count_list_pos [OF fetch_sub(2,3)]
    unat_minus_1' [of "sys_count s"]
  show ?thesis by (simp add: split_inv_def)
next
  case (send_ok i)
  note upd = count_list_update [OF send_ok(2), of Idle]
  from send_ok inv upd [of Granted] upd [of Reverting] show ?thesis by (simp add: split_inv_def)
next
  case (send_refused i)
  note upd = count_list_update [OF send_refused(2), of Idle]
  from send_refused inv upd [of Granted] upd [of Reverting] show ?thesis by (simp add: split_inv_def)
next
  case ack
  with inv unat_minus_1' [of "sys_count s"] show ?thesis by (auto simp: split_inv_def)
qed

lemma split_inv_init: "split_inv cap n (split_init n)"
  by (induction n) (auto simp: split_inv_def split_init_def)

lemma split_inv_steps:
  "split_steps cap s s' \<Longrightarrow> split_inv cap n s \<Longrightarrow> unat cap + n < 2 ^ 64 \<Longrightarrow> split_inv cap n s'"
  by (induction rule: rtranclp_induct) (auto intro: split_inv_step)

lemma refused_step: "split_step cap s s' \<Longrightarrow> refused s \<le> refused s'"
  by (elim split_stepE) auto

lemma refused_mono: "split_steps cap s s' \<Longrightarrow> refused s \<le> refused s'"
  by (induction rule: rtranclp_induct) (auto dest: refused_step)

text \<open>A call of \<open>try_count_increment\<close> alone is one or two of the atomic steps.\<close>

lemma try_count_increment_steps:
  assumes "i < length (sys_threads s)" and "sys_threads s ! i = Idle"
    and "try_count_increment \<lparr>split_send = x, split_count = sys_count s, split_capacity = cap\<rparr> = (b, t)"
  shows "split_steps cap s
     (s\<lparr>sys_count := split_count t, sys_threads := (sys_threads s)[i := if b then Granted else Idle]\<rparr>)"
proof (cases "sys_count s < cap")
  case True
  with assms fetch_add_ok [OF assms(1,2)] show ?thesis
    by (auto simp: try_count_increment_def Let_def intro!: r_into_rtranclp)
next
  case False
  let ?s1 = "s\<lparr>sys_count := sys_count s + 1, sys_threads := (sys_threads s)[i := Reverting]\<rparr>"
  have "split_step cap s ?s1" using False assms by (intro fetch_add_over)
  moreover have "split_step cap ?s1
      (?s1\<lparr>sys_count := sys_count ?s1 - 1, sys_threads := (sys_threads ?s1)[i := Idle]\<rparr>)"
    using assms by (intro fetch_sub) auto
  ultimately show ?thesis using False assms
    by (auto simp: try_count_increment_def Let_def intro: converse_rtranclp_into_rtranclp)
qed

section \<open>Properties\<close>

text \<open>
  C22. However the atomic steps of \<open>n\<close> threads sharing one split sender are interleaved, the
  number of messages it has let through and that are not yet acknowledged never exceeds its
  capacity (as long as capacity and thread count together stay below the width of the counter).
\<close>

theorem split_sender_capacity:
  assumes "split_steps cap (split_init n) s" and "unat cap + n < 2 ^ 64"
  shows "in_flight s \<le> unat cap"
  using split_inv_steps [OF assms(1) split_inv_init assms(2)] by (simp add: split_inv_def)

theorem split_sender_capacity_witness:
  "\<exists>s. split_steps 1 (split_init 2) s \<and> in_flight s = 1 \<and> in_flight s \<le> unat (1::u64)"
proof -
  let ?s1 = "(split_init 2)\<lparr>sys_count := 1, sys_threads := [Granted, Idle]\<rparr>"
  let ?s2 = "?s1\<lparr>in_flight := 1, sys_threads := [Idle, Idle]\<rparr>"
  have "split_step 1 (split_init 2) ?s1"
    using fetch_add_ok [of 0 "split_init 2" 1] by (simp add: split_init_def numeral_2_eq_2)
  moreover have "split_step 1 ?s1 ?s2"
    using send_ok [of 0 ?s1 1] by (simp add: split_init_def)
  ultimately have steps: "split_steps 1 (split_init 2) ?s2" by simp
  from split_sender_capacity [OF steps] have "in_flight ?s2 \<le> unat (1::u64)" by simp
  with steps show ?thesis by (intro exI [of _ ?s2]) simp
qed

text \<open>
  C39. A slot that is granted and then refused by the underlying sender is never returned: once
  as many messages were refused as the capacity, the split sender never lets a message through
  again, whatever is acknowledged later.
\<close>

theorem split_sender_refusal_leak:
  assumes "split_steps cap (split_init n) s" and "unat cap + n < 2 ^ 64" and "unat cap \<le> refused s"
    and "split_steps cap s s'"
  shows "in_flight s' = 0 \<and> phase_count Granted s' = 0"
proof -
  from assms(1,4) have "split_steps cap (split_init n) s'" by simp
  from split_inv_steps [OF this split_inv_init assms(2)] refused_mono [OF assms(4)] assms(3)
  show ?thesis by (simp add: split_inv_def)
qed

theorem split_sender_refusal_leak_witness:
  "\<exists>s. split_steps 1 (split_init 1) s \<and> refused s = 1 \<and>
     (\<forall>s'. split_steps 1 s s' \<longrightarrow> in_flight s' = 0 \<and> phase_count Granted s' = 0)"
proof -
  let ?s1 = "(split_init 1)\<lparr>sys_count := 1, sys_threads := [Granted]\<rparr>"
  let ?s2 = "?s1\<lparr>refused := 1, sys_threads := [Idle]\<rparr>"
  have "split_step 1 (split_init 1) ?s1"
    using fetch_add_ok [of 0 "split_init 1" 1] by (simp add: split_init_def)
  moreover have "split_step 1 ?s1 ?s2"
    using send_refused [of 0 ?s1 1] by (simp add: split_init_def)
  ultimately have steps: "split_steps 1 (split_init 1) ?s2" by simp
  with split_sender_refusal_leak [OF steps] show ?thesis
    by (intro exI [of _ ?s2]) simp
qed

end
