(* ===== verification/Util_Trans.thy ===== *)
theory Util_Trans
  imports Prelude "HOL-Library.Multiset"
begin

text \<open>
  Transaction ids: the Fisher-Yates shuffles of \<open>btp-util/src/lib.rs\<close> and the generators of
  \<open>btp-util/src/trans\<close>. The ids are unsigned machine integers of any width. The random numbers
  come from the \<open>rand\<close> crate; \<open>rnd i\<close> is the one drawn in round \<open>i\<close> of a shuffle, and nothing is
  assumed of it.
\<close>

definition shuffle_swap :: "'a \<Rightarrow> nat \<Rightarrow> nat \<Rightarrow> 'a list \<Rightarrow> 'a list" where
  "shuffle_swap dflt i swap_index xs =
     (let src_val = xs ! i;
          xs1 = xs[i := dflt];
          dst_val = xs1 ! swap_index;
          xs2 = xs1[swap_index := dflt];
          xs3 = xs2[i := dst_val]
      in xs3[swap_index := src_val])"

definition fisher_shuffle :: "'a \<Rightarrow> (nat \<Rightarrow> nat) \<Rightarrow> 'a list \<Rightarrow> 'a list" where
  "fisher_shuffle dflt rnd xs =
     foldl (\<lambda>l i. shuffle_swap dflt i (rnd i mod (length l - i) + i) l) xs [0..<length xs]"

definition fisher_shuffle_copy :: "(nat \<Rightarrow> nat) \<Rightarrow> 'a list \<Rightarrow> 'a list" where
  "fisher_shuffle_copy rnd xs =
     foldl (\<lambda>l i. let swap_index = rnd i mod (length l - i) + i; temp = l ! i
                  in (l[i := l ! swap_index])[swap_index := temp]) xs [0..<length xs]"

section \<open>Sequential ids\<close>

record 't SequentialIds =
  seq_next_id :: 't

definition seq_start_at :: "'a::len word \<Rightarrow> 'a word SequentialIds" where
  "seq_start_at start = \<lparr>seq_next_id = start\<rparr>"

definition seq_new :: "'a::len word SequentialIds" where
  "seq_new = seq_start_at 0"

definition seq_generate :: "'a::len word SequentialIds \<Rightarrow> 'a word \<times> 'a word SequentialIds" where
  "seq_generate g = (seq_next_id g, g\<lparr>seq_next_id := seq_next_id g + 1\<rparr>)"

section \<open>Locally shuffled ids\<close>

definition TRANSACTION_ID_PREALLOC_LEN :: nat where
  "TRANSACTION_ID_PREALLOC_LEN = 2048"

record 't LocallyShuffledIds =
  sequential :: "'t SequentialIds"
  stored_ids :: "'t list"

definition shuffled_start_at :: "'a::len word \<Rightarrow> 'a word LocallyShuffledIds" where
  "shuffled_start_at start = \<lparr>sequential = seq_start_at start, stored_ids = []\<rparr>"

definition shuffled_new :: "'a::len word LocallyShuffledIds" where
  "shuffled_new = shuffled_start_at 0"

text \<open>The loop of \<open>refill_stored_ids\<close>; \<open>max_value\<close> is the word with all bits set.\<close>

function refill_loop ::
    "nat \<Rightarrow> bool \<Rightarrow> bool \<Rightarrow> 'a::len word SequentialIds \<Rightarrow> 'a word list \<Rightarrow> 'a word SequentialIds \<times> 'a word list" where
  "refill_loop num_ids_generated contains_min_value contains_max_value g ids =
     (if num_ids_generated < TRANSACTION_ID_PREALLOC_LEN \<and> (\<not> contains_min_value \<or> \<not> contains_max_value)
      then let (next_id, g') = seq_generate g
           in refill_loop (num_ids_generated + 1) (contains_min_value \<or> next_id = 0)
                (contains_max_value \<or> next_id = -1) g' (ids @ [next_id])
      else (g, ids))"
  by pat_completeness auto
termination
  by (relation "measure (\<lambda>(n, _). TRANSACTION_ID_PREALLOC_LEN - n)") auto

declare refill_loop.simps [simp del]

definition refill_stored_ids :: "(nat \<Rightarrow> nat) \<Rightarrow> 'a::len word LocallyShuffledIds \<Rightarrow> 'a word LocallyShuffledIds" where
  "refill_stored_ids rnd g =
     (let (sq, ids) = refill_loop 0 False False (sequential g) []
      in \<lparr>sequential = sq, stored_ids = fisher_shuffle 0 rnd ids\<rparr>)"

section \<open>Shuffling is a permutation\<close>

lemma shuffle_swap_eq:
  "i < length xs \<Longrightarrow> j < length xs \<Longrightarrow> shuffle_swap d i j xs = (xs[i := xs ! j])[j := xs ! i]"
  by (cases "i = j") (auto simp: shuffle_swap_def Let_def nth_list_update intro: nth_equalityI)

lemma swap_index_bound: "i < n \<Longrightarrow> r mod (n - i) + i < (n::nat)"
  using mod_less_divisor [of "n - i" r] by linarith

lemma foldl_swap_mset:
  fixes xs :: "'a list"
  assumes "\<And>l i. i < length l \<Longrightarrow> length l = length xs \<Longrightarrow>
    \<exists>j<length l. step l i = (l[i := l ! j])[j := l ! i]"
  shows "set is \<subseteq> {..<length xs} \<Longrightarrow> mset (foldl step xs is) = mset xs"
  using assms
proof (induction "is" arbitrary: xs)
  case (Cons i "is")
  then have "i < length xs" by simp
  with Cons.prems(2) [of i xs] obtain j where "j < length xs" "step xs i = (xs[i := xs ! j])[j := xs ! i]"
    by auto
  with \<open>i < length xs\<close> have "mset (step xs i) = mset xs" "length (step xs i) = length xs"
    by (auto simp: mset_swap)
  with Cons.IH [of "step xs i"] Cons.prems show ?case by simp
qed simp

lemma mset_fisher_shuffle [simp]: "mset (fisher_shuffle d rnd xs) = mset xs" for xs :: "'a list"
  unfolding fisher_shuffle_def
proof (rule foldl_swap_mset)
  fix l :: "'a list" and i assume "i < length l" and "length l = length xs"
  with swap_index_bound [of i "length l" "rnd i"] show
    "\<exists>j<length l. shuffle_swap d i (rnd i mod (length l - i) + i) l = (l[i := l ! j])[j := l ! i]"
    by (auto simp: shuffle_swap_eq)
qed auto

lemma mset_fisher_shuffle_copy [simp]: "mset (fisher_shuffle_copy rnd xs) = mset xs" for xs :: "'a list"
  unfolding fisher_shuffle_copy_def
proof (rule foldl_swap_mset)
  fix l :: "'a list" and i assume "i < length l" and "length l = length xs"
  with swap_index_bound [of i "length l" "rnd i"] show "\<exists>j<length l.
      (let swap_index = rnd i mod (length l - i) + i; temp = l ! i
       in (l[i := l ! swap_index])[swap_index := temp]) = (l[i := l ! j])[j := l ! i]"
    by (auto simp: Let_def)
qed auto

lemma length_fisher_shuffle [simp]: "length (fisher_shuffle d rnd xs) = length xs"
  by (metis mset_fisher_shuffle size_mset)

lemma distinct_fisher_shuffle [simp]: "distinct (fisher_shuffle d rnd xs) = distinct xs"
  by (metis mset_fisher_shuffle mset_eq_imp_distinct_iff)

section \<open>The ids of one block\<close>

definition consecutive :: "'a::len word \<Rightarrow> nat \<Rightarrow> 'a word list" where
  "consecutive s m = map (\<lambda>i. s + of_nat i) [0..<m]"

text \<open>
  How many ids a refill takes from \<open>s\<close> on: up to the preallocation length, but never past the
  point where both the smallest and the largest value have been seen.
\<close>

definition block_len :: "'a::len word \<Rightarrow> nat" where
  "block_len s = min TRANSACTION_ID_PREALLOC_LEN
     (if s = 0 then 2 ^ LENGTH('a) else 2 ^ LENGTH('a) - unat s + 1)"

lemma consecutive_Suc: "consecutive s (Suc m) = consecutive s m @ [s + of_nat m]"
  by (simp add: consecutive_def)

lemma length_consecutive [simp]: "length (consecutive s m) = m"
  by (simp add: consecutive_def)

lemma unat_of_nat_small: "n < 2 ^ LENGTH('a) \<Longrightarrow> unat (of_nat n :: 'a::len word) = n"
  by (simp add: unat_of_nat)

lemma unat_offset: "unat (s + of_nat i) = (unat s + i) mod 2 ^ LENGTH('a)" for s :: "'a::len word"
  by (simp add: unat_word_ariths unat_of_nat mod_add_right_eq)

lemma distinct_consecutive:
  fixes s :: "'a::len word"
  assumes "m \<le> 2 ^ LENGTH('a)"
  shows "distinct (consecutive s m)"
proof -
  have "(of_nat i :: 'a word) = of_nat j \<Longrightarrow> i < m \<Longrightarrow> j < m \<Longrightarrow> i = j" for i j
    using assms unat_of_nat_small [of i] unat_of_nat_small [of j] by (metis order_less_le_trans)
  then show ?thesis by (auto simp: consecutive_def distinct_map intro!: inj_onI)
qed

lemma offset_eq_0_iff:
  fixes s :: "'a::len word"
  assumes "i < 2 ^ LENGTH('a)"
  shows "s + of_nat i = 0 \<longleftrightarrow> (if s = 0 then i = 0 else i = 2 ^ LENGTH('a) - unat s)"
proof -
  have lt: "unat s < 2 ^ LENGTH('a)" by simp
  have "s + of_nat i = 0 \<longleftrightarrow> (unat s + i) mod 2 ^ LENGTH('a) = 0"
    by (metis unat_offset unsigned_eq_0_iff)
  also have "\<dots> \<longleftrightarrow> unat s + i = 0 \<or> unat s + i = 2 ^ LENGTH('a)"
  proof
    assume "(unat s + i) mod 2 ^ LENGTH('a) = 0"
    then obtain q where q: "unat s + i = 2 ^ LENGTH('a) * q" by (metis mod_0_imp_dvd dvd_def)
    with lt assms have "2 ^ LENGTH('a) * q < 2 ^ LENGTH('a) * 2" by linarith
    then have "q < 2" by simp
    with q show "unat s + i = 0 \<or> unat s + i = 2 ^ LENGTH('a)" by (auto simp: less_2_cases_iff)
  qed auto
  also have "\<dots> \<longleftrightarrow> (if s = 0 then i = 0 else i = 2 ^ LENGTH('a) - unat s)"
    using assms le_add_diff_inverse [OF less_imp_le [OF lt]] by (auto simp: unsigned_eq_0_iff)
  finally show ?thesis .
qed

lemma offset_eq_max_iff:
  fixes s :: "'a::len word"
  assumes "i < 2 ^ LENGTH('a)"
  shows "s + of_nat i = -1 \<longleftrightarrow> i = 2 ^ LENGTH('a) - unat s - 1"
proof -
  have lt: "unat s < 2 ^ LENGTH('a)" by simp
  have "s + of_nat i = -1 \<longleftrightarrow> s + of_nat (Suc i) = 0"
    by (metis (no_types, opaque_lifting) add.commute add.left_commute of_nat_Suc add_eq_0_iff minus_minus)
  moreover have "s + of_nat (Suc i) = 0 \<longleftrightarrow> Suc i = 2 ^ LENGTH('a) - unat s"
  proof (cases "Suc i < 2 ^ LENGTH('a)")
    case True
    then show ?thesis by (simp only: offset_eq_0_iff) (use True in auto)
  next
    case False
    with assms have "Suc i = 2 ^ LENGTH('a)" by simp
    moreover from this have "(of_nat (Suc i) :: 'a word) = 0"
      by (metis word_exp_length_eq_0 of_nat_power of_nat_numeral)
    moreover have "2 ^ LENGTH('a) = 2 ^ LENGTH('a) - unat s \<longleftrightarrow> unat s = 0" using lt by linarith
    ultimately show ?thesis by (simp add: unsigned_eq_0_iff)
  qed
  moreover have "Suc i = 2 ^ LENGTH('a) - unat s \<longleftrightarrow> i = 2 ^ LENGTH('a) - unat s - 1"
    using lt by linarith
  ultimately show ?thesis by (simp only:)
qed

lemma block_len_le: "block_len s \<le> 2 ^ LENGTH('a)" for s :: "'a::len word"
proof -
  have "s \<noteq> 0 \<Longrightarrow> 0 < unat s" by (simp add: unat_gt_0)
  moreover have "unat s < 2 ^ LENGTH('a)" by simp
  ultimately have "s \<noteq> 0 \<Longrightarrow> 2 ^ LENGTH('a) - unat s + 1 \<le> 2 ^ LENGTH('a)" by linarith
  then show ?thesis by (auto simp: block_len_def intro: min.coboundedI2)
qed

lemma block_len_pos: "0 < block_len s"
  by (simp add: block_len_def TRANSACTION_ID_PREALLOC_LEN_def)

text \<open>The loop condition, for a loop that has taken \<open>k\<close> consecutive ids.\<close>

lemma refill_continues:
  fixes s :: "'a::len word"
  assumes "k \<le> block_len s"
  shows "k < TRANSACTION_ID_PREALLOC_LEN \<and> (\<not> (\<exists>i<k. s + of_nat i = 0) \<or> \<not> (\<exists>i<k. s + of_nat i = -1))
    \<longleftrightarrow> k < block_len s"
proof -
  have k: "k \<le> 2 ^ LENGTH('a)" using assms block_len_le [of s] by (rule order_trans)
  have lt: "unat s < 2 ^ LENGTH('a)" by simp
  have pos: "s \<noteq> 0 \<Longrightarrow> 0 < unat s" by (simp add: unat_gt_0)
  have "(\<exists>i<k. s + of_nat i = 0) \<longleftrightarrow> (if s = 0 then 0 < k else 2 ^ LENGTH('a) - unat s < k)"
    using k by (auto simp: offset_eq_0_iff)
  moreover have "(\<exists>i<k. s + of_nat i = -1) \<longleftrightarrow> 2 ^ LENGTH('a) - unat s - 1 < k"
    using k by (auto simp: offset_eq_max_iff)
  ultimately show ?thesis using assms lt pos by (auto simp: block_len_def)
qed

lemma refill_loop_from:
  fixes s :: "'a::len word"
  assumes "k \<le> block_len s"
  shows "refill_loop k (\<exists>i<k. s + of_nat i = 0) (\<exists>i<k. s + of_nat i = -1)
      \<lparr>seq_next_id = s + of_nat k\<rparr> (consecutive s k) =
    (\<lparr>seq_next_id = s + of_nat (block_len s)\<rparr>, consecutive s (block_len s))"
  using assms
proof (induction "block_len s - k" arbitrary: k)
  case 0
  then have "\<not> k < block_len s" by simp
  with 0 show ?case
    unfolding refill_loop.simps [of k] refill_continues [OF 0(2)] by simp
next
  case (Suc m)
  have ex: "(\<exists>i<Suc k. P i) \<longleftrightarrow> (\<exists>i<k. P i) \<or> P k" for P by (auto simp: less_Suc_eq)
  from Suc.hyps(2) have lt: "k < block_len s" by simp
  with Suc.hyps(1) [of "Suc k"] Suc.hyps(2) have IH: "refill_loop (Suc k)
      ((\<exists>i<k. s + of_nat i = 0) \<or> s + of_nat k = 0) ((\<exists>i<k. s + of_nat i = -1) \<or> s + of_nat k = -1)
      \<lparr>seq_next_id = s + of_nat (Suc k)\<rparr> (consecutive s k @ [s + of_nat k]) =
      (\<lparr>seq_next_id = s + of_nat (block_len s)\<rparr>, consecutive s (block_len s))"
    unfolding ex consecutive_Suc by simp
  show ?case
    unfolding refill_loop.simps [of k] refill_continues [OF Suc.prems] IH [symmetric]
    using lt by (simp add: seq_generate_def ac_simps)
qed

lemma refill_stored_ids_block:
  fixes g :: "'a::len word LocallyShuffledIds"
  defines "s \<equiv> seq_next_id (sequential g)"
  shows "refill_stored_ids rnd g =
    \<lparr>sequential = \<lparr>seq_next_id = s + of_nat (block_len s)\<rparr>,
     stored_ids = fisher_shuffle 0 rnd (consecutive s (block_len s))\<rparr>"
  using refill_loop_from [of 0 s]
  by (cases "sequential g") (simp add: refill_stored_ids_def consecutive_def s_def)

lemma refill_not_empty: "stored_ids (refill_stored_ids rnd g) \<noteq> []"
  using block_len_pos by (simp add: refill_stored_ids_block flip: length_0_conv)

text \<open>
  \<open>generate\<close> pops an id and, when there is none, refills and calls itself. It ends because a
  refilled generator is never empty.
\<close>

function shuffled_generate ::
    "(nat \<Rightarrow> nat) \<Rightarrow> 'a::len word LocallyShuffledIds \<Rightarrow> 'a word \<times> 'a word LocallyShuffledIds" where
  "shuffled_generate rnd g =
     (if stored_ids g = [] then shuffled_generate rnd (refill_stored_ids rnd g)
      else (last (stored_ids g), g\<lparr>stored_ids := butlast (stored_ids g)\<rparr>))"
  by pat_completeness auto
termination
  by (relation "measure (\<lambda>(rnd, g). if stored_ids g = [] then 1 else 0)") (simp_all add: refill_not_empty)

declare shuffled_generate.simps [simp del]

text \<open>Successive calls; the numbers drawn by the refill of call \<open>i\<close> are \<open>rnds i\<close>.\<close>

fun generate_many ::
    "(nat \<Rightarrow> nat \<Rightarrow> nat) \<Rightarrow> nat \<Rightarrow> 'a::len word LocallyShuffledIds \<Rightarrow> 'a word list \<times> 'a word LocallyShuffledIds"
where
  "generate_many rnds 0 g = ([], g)"
| "generate_many rnds (Suc n) g =
     (let (x, g1) = shuffled_generate (rnds 0) g;
          (xs, g2) = generate_many (\<lambda>i. rnds (Suc i)) n g1
      in (x # xs, g2))"

lemma generate_many_stored:
  "n = length (stored_ids g) \<Longrightarrow>
   generate_many rnds n g = (rev (stored_ids g), g\<lparr>stored_ids := []\<rparr>)"
proof (induction n arbitrary: g rnds)
  case (Suc n)
  then obtain ys y where "stored_ids g = ys @ [y]" by (metis length_Suc_conv_rev)
  with Suc.IH [of "g\<lparr>stored_ids := ys\<rparr>"] Suc.prems show ?case
    by (simp add: shuffled_generate.simps)
qed simp

lemma generate_many_refill:
  assumes "stored_ids g = []" and "0 < n"
  shows "generate_many rnds n g = generate_many rnds n (refill_stored_ids (rnds 0) g)"
  using assms refill_not_empty [of "rnds 0" g]
  by (cases n) (simp_all add: shuffled_generate.simps [of "rnds 0" g])

section \<open>The older generator\<close>

record 't TIDGenerator =
  next_alloc :: 't
  curr_index :: nat
  trans_ids :: "'t list"

text \<open>\<open>NumCast::from\<close>: the cast fails when the value does not fit the type.\<close>

definition num_cast :: "nat \<Rightarrow> 'a::len word option" where
  "num_cast n = (if n < 2 ^ LENGTH('a) then Some (of_nat n) else None)"

definition generate_tids :: "'a::len word \<Rightarrow> 'a word \<times> 'a word list" where
  "generate_tids curr_alloc =
     (let (next_alloc_start, next_alloc_end) =
            (case num_cast TRANSACTION_ID_PREALLOC_LEN of
               Some alloc_len \<Rightarrow>
                 if curr_alloc = -1 then (0, alloc_len) else (curr_alloc, curr_alloc + alloc_len)
             | None \<Rightarrow> (curr_alloc, curr_alloc));
          (_, ids) = foldl (\<lambda>(next_tid, ids) _. (next_tid + 1, ids @ [next_tid])) (next_alloc_start, [])
                       (replicate TRANSACTION_ID_PREALLOC_LEN (1 :: 'a word))
      in (next_alloc_end, ids))"

definition tid_new :: "(nat \<Rightarrow> nat) \<Rightarrow> 'a::len word TIDGenerator" where
  "tid_new rnd =
     (let (na, ids) = generate_tids 0
      in \<lparr>next_alloc = na, curr_index = 0, trans_ids = fisher_shuffle_copy rnd ids\<rparr>)"

definition tid_refill :: "(nat \<Rightarrow> nat) \<Rightarrow> 'a::len word TIDGenerator \<Rightarrow> 'a word TIDGenerator" where
  "tid_refill rnd g =
     (let (na, ids) = generate_tids (next_alloc g)
      in \<lparr>next_alloc = na, curr_index = 0, trans_ids = fisher_shuffle_copy rnd ids\<rparr>)"

lemma length_fisher_shuffle_copy [simp]: "length (fisher_shuffle_copy rnd xs) = length xs"
  by (metis mset_fisher_shuffle_copy size_mset)

lemma foldl_tids:
  "foldl (\<lambda>(t, ids) _. (t + 1, ids @ [t])) (s, acc) (replicate n x) = (s + of_nat n, acc @ consecutive s n)"
proof (induction n arbitrary: s acc)
  case (Suc n)
  have "consecutive s (Suc n) = s # consecutive (s + 1) n"
    by (simp add: consecutive_def upt_conv_Cons map_Suc_upt [symmetric] ac_simps del: upt_Suc)
  with Suc show ?case by (simp add: ac_simps)
qed (simp add: consecutive_def)

lemma generate_tids_block:
  fixes a :: "'a::len word"
  shows "snd (generate_tids a) =
    consecutive (if a = -1 \<and> TRANSACTION_ID_PREALLOC_LEN < 2 ^ LENGTH('a) then 0 else a)
      TRANSACTION_ID_PREALLOC_LEN"
  by (simp add: generate_tids_def foldl_tids num_cast_def)

lemma tid_refill_length: "length (trans_ids (tid_refill rnd g)) = TRANSACTION_ID_PREALLOC_LEN"
  using generate_tids_block [of "next_alloc g"]
  by (cases "generate_tids (next_alloc g)") (simp add: tid_refill_def)

lemma tid_refill_index: "curr_index (tid_refill rnd g) = 0"
  by (simp add: tid_refill_def split: prod.split)

function tid_generate :: "(nat \<Rightarrow> nat) \<Rightarrow> 'a::len word TIDGenerator \<Rightarrow> 'a word \<times> 'a word TIDGenerator" where
  "tid_generate rnd g =
     (if curr_index g < length (trans_ids g)
      then (trans_ids g ! curr_index g, g\<lparr>curr_index := curr_index g + 1\<rparr>)
      else tid_generate rnd (tid_refill rnd g))"
  by pat_completeness auto
termination
  by (relation "measure (\<lambda>(rnd, g). if curr_index g < length (trans_ids g) then 0 else 1)")
    (simp_all add: tid_refill_length tid_refill_index TRANSACTION_ID_PREALLOC_LEN_def)

declare tid_generate.simps [simp del]

section \<open>Properties\<close>

text \<open>
  C30. The ids handed out between two refills of the locally shuffled generator are pairwise
  distinct: whatever the random numbers, an exhausted generator whose counter is at \<open>s\<close> hands out
  a permutation of the next \<open>block_len s\<close> consecutive ids (up to 2048, fewer only at the
  wrap-around of a narrow type), and is then exhausted with its counter moved on by that much.
\<close>

theorem shuffled_block_distinct:
  fixes g :: "'a::len word LocallyShuffledIds"
  assumes "stored_ids g = []" and "s = seq_next_id (sequential g)"
    and "generate_many rnds (block_len s) g = (xs, g')"
  shows "distinct xs \<and> mset xs = mset (consecutive s (block_len s)) \<and> stored_ids g' = [] \<and>
    seq_next_id (sequential g') = s + of_nat (block_len s)"
proof -
  have "generate_many rnds (block_len s) g =
      (rev (stored_ids (refill_stored_ids (rnds 0) g)), (refill_stored_ids (rnds 0) g)\<lparr>stored_ids := []\<rparr>)"
    using assms block_len_pos [of s]
    by (simp add: generate_many_refill generate_many_stored refill_stored_ids_block)
  with assms distinct_consecutive [OF block_len_le [of s]] show ?thesis
    by (auto simp: refill_stored_ids_block)
qed

theorem shuffled_block_distinct_witness:
  "distinct (fst (generate_many (\<lambda>i j. i * 7 + j * 3) 4 (shuffled_new :: 2 word LocallyShuffledIds))) \<and>
   mset (fst (generate_many (\<lambda>i j. i * 7 + j * 3) 4 (shuffled_new :: 2 word LocallyShuffledIds))) =
     {#0, 1, 2, 3#}"
proof -
  let ?g = "shuffled_new :: 2 word LocallyShuffledIds"
  have b: "block_len (0 :: 2 word) = 4" by (simp add: block_len_def TRANSACTION_ID_PREALLOC_LEN_def)
  have c: "consecutive (0 :: 2 word) 4 = [0, 1, 2, 3]" by code_simp
  obtain xs g' where "generate_many (\<lambda>i j. i * 7 + j * 3) 4 ?g = (xs, g')" by fastforce
  with shuffled_block_distinct [of ?g 0 "\<lambda>i j. i * 7 + j * 3" xs g'] b c show ?thesis
    by (simp add: shuffled_new_def shuffled_start_at_def seq_start_at_def)
qed

text \<open>
  Both Fisher-Yates shuffles return a permutation of their input, whatever the random
  numbers, although one of them moves the elements through a default value.
\<close>

theorem shuffles_permute:
  "mset (fisher_shuffle dflt rnd xs) = mset xs \<and> mset (fisher_shuffle_copy rnd ys) = mset ys"
  by simp

end
