(* ===== verification/Util_Contiguous.thy ===== *)
theory Util_Contiguous
  imports Prelude
begin

text \<open>
  Buffers that never reallocate, \<open>btp-util/src/contiguous.rs\<close>: the trait \<open>ContiguousBuffer\<close> as a
  locale, its implementation for \<open>Vec\<close> and the one that presents a sequence of buffers as a single
  buffer. A \<open>Vec\<close> is its elements with its allocated capacity. A generic Rust function takes the
  methods of its type parameter as arguments here. \<open>read\<close> is the list of the slices it passes to
  the receiver, in order.
\<close>

record 'a cvec =
  cv_data :: "'a list"
  cv_capacity :: nat

definition vec_length :: "'a cvec \<Rightarrow> nat" where
  "vec_length v = length (cv_data v)"

definition vec_clear :: "'a cvec \<Rightarrow> 'a cvec" where
  "vec_clear v = v\<lparr>cv_data := take 0 (cv_data v)\<rparr>"

definition vec_write :: "'a list \<Rightarrow> 'a cvec \<Rightarrow> (unit, 'a cvec) outcome" where
  "vec_write d v =
     (let available_space = cv_capacity v - vec_length v
      in if available_space < length d then Panic else Ok (v\<lparr>cv_data := cv_data v @ d\<rparr>))"

definition vec_read :: "'a cvec \<Rightarrow> 'a list list" where
  "vec_read v = (if 0 < vec_length v then [cv_data v] else [])"

section \<open>Many buffers as one\<close>

record 'b ContiguousBuffers =
  buffers :: "'b list"

definition buffers_new :: "'b ContiguousBuffers" where
  "buffers_new = \<lparr>buffers = []\<rparr>"

definition with_buffer :: "'b \<Rightarrow> 'b ContiguousBuffers" where
  "with_buffer b = \<lparr>buffers = [b]\<rparr>"

definition pack :: "'b ContiguousBuffers \<Rightarrow> 'b ContiguousBuffers \<Rightarrow> 'b ContiguousBuffers" where
  "pack self buffer = self\<lparr>buffers := buffers self @ buffers buffer\<rparr>"

text \<open>\<open>unpack\<close> is the list of the values it passes to the closure.\<close>

definition unpack :: "'b ContiguousBuffers \<Rightarrow> 'b ContiguousBuffers list" where
  "unpack self = map with_buffer (buffers self)"

definition buffers_capacity :: "('b \<Rightarrow> nat) \<Rightarrow> 'b ContiguousBuffers \<Rightarrow> nat" where
  "buffers_capacity capacity self = sum_list (map capacity (buffers self))"

definition buffers_length :: "('b \<Rightarrow> nat) \<Rightarrow> 'b ContiguousBuffers \<Rightarrow> nat" where
  "buffers_length len self = sum_list (map len (buffers self))"

definition buffers_clear :: "('b \<Rightarrow> 'b) \<Rightarrow> 'b ContiguousBuffers \<Rightarrow> 'b ContiguousBuffers" where
  "buffers_clear clear self = self\<lparr>buffers := map clear (buffers self)\<rparr>"

fun write_loop ::
    "('b \<Rightarrow> nat) \<Rightarrow> ('b \<Rightarrow> nat) \<Rightarrow> ('a list \<Rightarrow> 'b \<Rightarrow> (unit, 'b) outcome) \<Rightarrow> 'a list \<Rightarrow> nat \<Rightarrow> 'b list \<Rightarrow>
     (unit, nat \<times> 'b list) outcome" where
  "write_loop capacity len wr d bytes_written [] = Ok (bytes_written, [])"
| "write_loop capacity len wr d bytes_written (b # bs) =
     (if bytes_written = length d then Ok (bytes_written, b # bs)
      else
        let available_capacity = capacity b - len b;
            amount_to_write = min available_capacity (length d - bytes_written)
        in try_bind (wr (slice d bytes_written (bytes_written + amount_to_write)) b) (\<lambda>b'.
           try_bind (write_loop capacity len wr d (bytes_written + amount_to_write) bs) (\<lambda>(n, bs').
           Ok (n, b' # bs'))))"

definition buffers_write ::
    "('b \<Rightarrow> nat) \<Rightarrow> ('b \<Rightarrow> nat) \<Rightarrow> ('a list \<Rightarrow> 'b \<Rightarrow> (unit, 'b) outcome) \<Rightarrow> 'a list \<Rightarrow> 'b ContiguousBuffers \<Rightarrow>
     (unit, 'b ContiguousBuffers) outcome" where
  "buffers_write capacity len wr d self =
     try_bind (write_loop capacity len wr d 0 (buffers self)) (\<lambda>(bytes_written, bs).
       if bytes_written \<noteq> length d then Panic else Ok (self\<lparr>buffers := bs\<rparr>))"

definition buffers_read :: "('b \<Rightarrow> 'a list list) \<Rightarrow> 'b ContiguousBuffers \<Rightarrow> 'a list list" where
  "buffers_read read self = concat (map read (buffers self))"

section \<open>The contract of a contiguous buffer\<close>

text \<open>The buffers are used in order: what follows a buffer with room is empty.\<close>

fun in_order :: "('b \<Rightarrow> bool) \<Rightarrow> ('b \<Rightarrow> nat) \<Rightarrow> ('b \<Rightarrow> nat) \<Rightarrow> 'b list \<Rightarrow> bool" where
  "in_order valid capacity len [] = True"
| "in_order valid capacity len (b # bs) \<longleftrightarrow>
     valid b \<and> in_order valid capacity len bs \<and> (len b = capacity b \<or> (\<forall>b'\<in>set bs. len b' = 0))"

locale contiguous_buffer =
  fixes capacity :: "'b \<Rightarrow> nat" and len :: "'b \<Rightarrow> nat" and clear :: "'b \<Rightarrow> 'b"
    and wr :: "'a list \<Rightarrow> 'b \<Rightarrow> (unit, 'b) outcome" and read :: "'b \<Rightarrow> 'a list list"
    and valid :: "'b \<Rightarrow> bool"
  assumes len_read: "valid b \<Longrightarrow> len b = length (concat (read b))"
    and read_no_empty: "valid b \<Longrightarrow> [] \<notin> set (read b)"
    and len_le: "valid b \<Longrightarrow> len b \<le> capacity b"
    and clear_empty: "valid b \<Longrightarrow> valid (clear b) \<and> capacity (clear b) = capacity b \<and> concat (read (clear b)) = []"
    and write_fits: "valid b \<Longrightarrow> length d \<le> capacity b - len b \<Longrightarrow>
      \<exists>b'. wr d b = Ok b' \<and> valid b' \<and> capacity b' = capacity b \<and> concat (read b') = concat (read b) @ d"
    and write_overflows: "valid b \<Longrightarrow> capacity b - len b < length d \<Longrightarrow> wr d b = Panic"
begin

abbreviation ordered :: "'b list \<Rightarrow> bool" where
  "ordered \<equiv> in_order valid capacity len"

abbreviation contents :: "'b \<Rightarrow> 'a list" where
  "contents b \<equiv> concat (read b)"

lemma in_order_valid: "ordered bs \<Longrightarrow> b \<in> set bs \<Longrightarrow> valid b"
  by (induction bs) auto

lemma in_order_lengths:
  assumes "ordered bs"
  shows "sum_list (map len bs) = length (concat (map contents bs))"
    and "sum_list (map len bs) \<le> sum_list (map capacity bs)"
  using assms
proof (induction bs)
  case (Cons b bs)
  case 1 with Cons show ?case by (simp add: len_read)
next
  case (Cons b bs)
  case 2 with Cons len_le [of b] show ?case by (simp add: add_mono)
qed simp_all

lemma in_order_empties:
  assumes "\<forall>b\<in>set bs. valid b \<and> len b = 0"
  shows "ordered bs" and "concat (map contents bs) = []"
proof -
  show "ordered bs" using assms by (induction bs) auto
  moreover have "sum_list (map len bs) = 0" using assms by (induction bs) auto
  ultimately show "concat (map contents bs) = []" using in_order_lengths(1) [of bs] by simp
qed

lemma clear_in_order:
  assumes "ordered bs"
  shows "ordered (map clear bs) \<and> map capacity (map clear bs) = map capacity bs \<and>
    concat (map contents (map clear bs)) = []"
proof -
  have c: "valid (clear b) \<and> capacity (clear b) = capacity b \<and> contents (clear b) = []" if "b \<in> set bs" for b
    using clear_empty in_order_valid [OF assms that] by simp
  then have "\<forall>b\<in>set (map clear bs). valid b \<and> len b = 0" using len_read by auto
  from in_order_empties [OF this] c show ?thesis by simp
qed

lemma write_loop_done: "write_loop capacity len wr d (length d) bs = Ok (length d, bs)"
  by (cases bs) auto

lemma write_step:
  assumes "valid b"
  shows "\<exists>b'. wr (slice d n (n + min (capacity b - len b) (length d - n))) b = Ok b' \<and> valid b' \<and>
     capacity b' = capacity b \<and> contents b' = contents b @ slice d n (n + min (capacity b - len b) (length d - n))"
  using assms by (intro write_fits) (simp_all add: slice_def)

text \<open>
  From position \<open>n\<close> on, the loop appends what fits of the data to the buffers and says up to
  where it got.
\<close>

lemma write_loop_appends:
  assumes "ordered bs" and "n \<le> length d"
  shows "\<exists>bs'. let m = min (length d) (n + (sum_list (map capacity bs) - sum_list (map len bs))) in
      write_loop capacity len wr d n bs = Ok (m, bs') \<and> ordered bs' \<and>
      map capacity bs' = map capacity bs \<and>
      concat (map contents bs') = concat (map contents bs) @ slice d n m"
  using assms
proof (induction bs arbitrary: n)
  case Nil
  then show ?case by (simp add: min_def slice_simps)
next
  case (Cons b bs)
  show ?case
  proof (cases "n = length d")
    case True
    with Cons.prems show ?thesis by (simp add: write_loop_done slice_simps)
  next
    case False
    define k where "k = n + min (capacity b - len b) (length d - n)"
    define m where "m = min (length d) (k + (sum_list (map capacity bs) - sum_list (map len bs)))"
    from Cons.prems have b: "valid b" "ordered bs" "len b \<le> capacity b" by (auto intro: len_le)
    from write_step [OF b(1), of d n] obtain b' where
      b': "wr (slice d n k) b = Ok b'" "valid b'" "capacity b' = capacity b"
      "contents b' = contents b @ slice d n k" unfolding k_def by blast
    have k: "n \<le> k" "k \<le> length d" using Cons.prems by (auto simp: k_def)
    from Cons.IH [OF b(2) k(2)] obtain bs' where
      bs': "write_loop capacity len wr d k bs = Ok (m, bs')" "ordered bs'"
      "map capacity bs' = map capacity bs"
      "concat (map contents bs') = concat (map contents bs) @ slice d k m"
      unfolding m_def by (auto simp: Let_def)
    have m: "k \<le> m" "m \<le> length d" using k by (auto simp: m_def)
    have "len b' = len b + (k - n)" using b' b(1) k by (simp add: len_read length_slice)
    then have full: "len b' = capacity b' \<or> k = length d" using b(3) b'(3) Cons.prems(2) by (simp add: k_def) linarith
    have total: "m = min (length d) (n + (sum_list (map capacity (b # bs)) - sum_list (map len (b # bs))))"
      using b(3) in_order_lengths(2) [OF b(2)] Cons.prems(2)
      unfolding m_def k_def list.map sum_list.Cons by linarith
    have ord: "ordered (b' # bs')"
    proof (cases "len b' = capacity b'")
      case False
      with full have "k = length d" by simp
      with bs'(1) write_loop_done [of d bs] have "bs' = bs" by simp
      moreover have "len b \<noteq> capacity b"
        using False b'(3) \<open>len b' = len b + (k - n)\<close> by (auto simp: k_def)
      ultimately show ?thesis using Cons.prems b' by simp
    qed (use b' bs' in simp)
    have behind: "concat (map contents bs) = [] \<or> slice d n k = []"
    proof (cases "len b = capacity b")
      case True
      then show ?thesis by (simp add: k_def slice_self)
    next
      case False
      then have "\<forall>b'\<in>set bs. valid b' \<and> len b' = 0" using Cons.prems(1) in_order_valid [of bs] by auto
      from in_order_empties(2) [OF this] show ?thesis ..
    qed
    have "slice d n m = slice d n k @ slice d k m" using k m by (intro slice_concat)
    with behind bs' b' have "concat (map contents (b' # bs')) = concat (map contents (b # bs)) @ slice d n m"
      by (elim disjE) (simp_all del: concat_eq_Nil_conv)
    with bs' b' False ord show ?thesis
      unfolding total [symmetric] by (intro exI [of _ "b' # bs'"]) (simp add: Let_def k_def [symmetric])
  qed
qed

lemma concat_concat_map: "concat (concat (map f xs)) = concat (map (\<lambda>x. concat (f x)) xs)"
  by (induction xs) auto

text \<open>A sequence of buffers used in order is a contiguous buffer.\<close>

lemma buffers_contiguous:
  "contiguous_buffer (buffers_capacity capacity) (buffers_length len) (buffers_clear clear)
     (buffers_write capacity len wr) (buffers_read read) (\<lambda>self. ordered (buffers self))"
proof
  fix self :: "'b ContiguousBuffers" and d assume v: "ordered (buffers self)"
  note lens = in_order_lengths [OF v]
  show "buffers_length len self = length (concat (buffers_read read self))"
    "buffers_length len self \<le> buffers_capacity capacity self"
    using lens by (simp_all add: buffers_length_def buffers_capacity_def buffers_read_def concat_concat_map)
  show "[] \<notin> set (buffers_read read self)"
    using in_order_valid [OF v] read_no_empty by (auto simp: buffers_read_def)
  show "ordered (buffers (buffers_clear clear self)) \<and>
      buffers_capacity capacity (buffers_clear clear self) = buffers_capacity capacity self \<and>
      concat (buffers_read read (buffers_clear clear self)) = []"
    using clear_in_order [OF v]
    by (simp add: buffers_clear_def buffers_capacity_def buffers_read_def concat_concat_map
        del: map_map concat_eq_Nil_conv)
  from write_loop_appends [OF v, of 0 d] obtain bs' where
    w: "write_loop capacity len wr d 0 (buffers self) =
          Ok (min (length d) (buffers_capacity capacity self - buffers_length len self), bs')"
      "ordered bs'" "map capacity bs' = map capacity (buffers self)"
      "concat (map contents bs') = concat (map contents (buffers self)) @
         slice d 0 (min (length d) (buffers_capacity capacity self - buffers_length len self))"
    by (auto simp: Let_def buffers_capacity_def buffers_length_def)
  show "\<exists>self'. buffers_write capacity len wr d self = Ok self' \<and> ordered (buffers self') \<and>
      buffers_capacity capacity self' = buffers_capacity capacity self \<and>
      concat (buffers_read read self') = concat (buffers_read read self) @ d"
    if "length d \<le> buffers_capacity capacity self - buffers_length len self"
    using w that
    by (auto simp: buffers_write_def min_absorb1 slice_simps buffers_capacity_def buffers_read_def
        concat_concat_map)
  show "buffers_write capacity len wr d self = Panic"
    if "buffers_capacity capacity self - buffers_length len self < length d"
    using w(1) that by (simp add: buffers_write_def)
qed

end

section \<open>The instances of the source\<close>

definition vec_valid :: "'a cvec \<Rightarrow> bool" where
  "vec_valid v \<longleftrightarrow> vec_length v \<le> cv_capacity v"

interpretation vec: contiguous_buffer cv_capacity vec_length vec_clear vec_write vec_read vec_valid
  by unfold_locales
    (auto simp: vec_valid_def vec_length_def vec_read_def vec_clear_def vec_write_def)

interpretation vecs: contiguous_buffer "buffers_capacity cv_capacity" "buffers_length vec_length"
  "buffers_clear vec_clear" "buffers_write cv_capacity vec_length vec_write" "buffers_read vec_read"
  "\<lambda>self. in_order vec_valid cv_capacity vec_length (buffers self)"
  by (rule vec.buffers_contiguous)

section \<open>Properties\<close>

text \<open>
  C29. Buffers packed one behind the other and used in order behave as one buffer: a write that
  fits the free space of all of them succeeds and appends the data to what \<open>read\<close> delivers, across
  buffer boundaries, keeping the total capacity; a write that does not fit panics. \<open>read\<close> never
  delivers an empty slice.
\<close>

theorem buffers_write_appends:
  assumes "in_order vec_valid cv_capacity vec_length (buffers self)"
  shows "(if length d \<le> buffers_capacity cv_capacity self - buffers_length vec_length self
      then \<exists>self'. buffers_write cv_capacity vec_length vec_write d self = Ok self' \<and>
             in_order vec_valid cv_capacity vec_length (buffers self') \<and>
             buffers_capacity cv_capacity self' = buffers_capacity cv_capacity self \<and>
             concat (buffers_read vec_read self') = concat (buffers_read vec_read self) @ d \<and>
             [] \<notin> set (buffers_read vec_read self')
      else buffers_write cv_capacity vec_length vec_write d self = Panic)"
  using vecs.write_fits [OF assms, of d] vecs.write_overflows [OF assms, of d] vecs.read_no_empty
  by (metis not_le)

theorem buffers_write_appends_witness:
  "\<exists>self'. buffers_write cv_capacity vec_length vec_write [3, 4, 5 :: byte]
      \<lparr>buffers = [\<lparr>cv_data = [1], cv_capacity = 2\<rparr>, \<lparr>cv_data = [], cv_capacity = 2\<rparr>]\<rparr> = Ok self' \<and>
    concat (buffers_read vec_read self') = [1, 3, 4, 5]"
proof -
  let ?b = "\<lparr>buffers = [\<lparr>cv_data = [1 :: byte], cv_capacity = 2\<rparr>, \<lparr>cv_data = [], cv_capacity = 2\<rparr>]\<rparr>"
  have "in_order vec_valid cv_capacity vec_length (buffers ?b)"
    by (simp add: vec_valid_def vec_length_def)
  from buffers_write_appends [OF this, of "[3, 4, 5]"] show ?thesis
    by (auto simp: buffers_capacity_def buffers_length_def vec_length_def buffers_read_def vec_read_def)
qed

end
