(* ===== verification/Dht_Node.thy ===== *)
theory Dht_Node
  imports Util_Sha
begin

text \<open>
  The nodes of the routing table, \<open>btp-dht/src/routing/node.rs\<close>. Every method reads the clock with
  \<open>Instant::now()\<close>; the time it reads is an argument here, one for all the readings of a call.
\<close>

definition MAX_LAST_SEEN_MINS :: nat where
  "MAX_LAST_SEEN_MINS = 15"

definition MAX_REFRESH_REQUESTS :: u64 where
  "MAX_REFRESH_REQUESTS = 2"

datatype NodeStatus = Bad | Questionable | Good

text \<open>The derived order: variants higher up are smaller.\<close>

fun status_rank :: "NodeStatus \<Rightarrow> nat" where
  "status_rank Bad = 0"
| "status_rank Questionable = 1"
| "status_rank Good = 2"

lemma status_rank_inj: "status_rank a = status_rank b \<longleftrightarrow> a = b"
  by (cases a; cases b) simp_all

instantiation NodeStatus :: linorder
begin

definition less_eq_NodeStatus :: "NodeStatus \<Rightarrow> NodeStatus \<Rightarrow> bool" where
  "less_eq_NodeStatus a b \<longleftrightarrow> status_rank a \<le> status_rank b"

definition less_NodeStatus :: "NodeStatus \<Rightarrow> NodeStatus \<Rightarrow> bool" where
  "less_NodeStatus a b \<longleftrightarrow> status_rank a < status_rank b"

instance
  by standard (auto simp: less_eq_NodeStatus_def less_NodeStatus_def status_rank_inj)

end

lemma status_less_simps [simp]:
  "\<not> s < Bad" "Bad < Questionable" "Bad < Good" "Questionable < Good" "\<not> Good < s"
  "Bad \<le> s" "s \<le> Good" "\<not> Questionable \<le> Bad" "\<not> Good \<le> Bad" "\<not> Good \<le> Questionable"
  by (cases s; simp add: less_NodeStatus_def less_eq_NodeStatus_def)+

lemma Good_le_iff [simp]: "Good \<le> s \<longleftrightarrow> s = Good"
  by (cases s) simp_all

record NodeHandle =
  h_id :: ShaHash
  h_addr :: SocketAddr

record Node =
  handle :: NodeHandle
  last_request :: "instant option"
  last_response :: "instant option"
  last_local_request :: "instant option"
  refresh_requests :: u64

definition as_good :: "instant \<Rightarrow> ShaHash \<Rightarrow> SocketAddr \<Rightarrow> Node" where
  "as_good now nid addr =
     \<lparr>handle = \<lparr>h_id = nid, h_addr = addr\<rparr>, last_request = None, last_response = Some now,
      last_local_request = None, refresh_requests = 0\<rparr>"

definition as_questionable :: "instant \<Rightarrow> ShaHash \<Rightarrow> SocketAddr \<Rightarrow> Node" where
  "as_questionable now nid addr =
     (let last_response_offset = from_secs (MAX_LAST_SEEN_MINS * 60)
      in \<lparr>handle = \<lparr>h_id = nid, h_addr = addr\<rparr>, last_request = None,
          last_response = Some (now - int last_response_offset), last_local_request = None,
          refresh_requests = 0\<rparr>)"

definition as_bad :: "ShaHash \<Rightarrow> SocketAddr \<Rightarrow> Node" where
  "as_bad nid addr =
     \<lparr>handle = \<lparr>h_id = nid, h_addr = addr\<rparr>, last_request = None, last_response = None,
      last_local_request = None, refresh_requests = 0\<rparr>"

definition status :: "instant \<Rightarrow> Node \<Rightarrow> NodeStatus" where
  "status now node =
     (case last_response node of
        None \<Rightarrow> Bad
      | Some response_time \<Rightarrow>
          if duration_since now response_time < from_secs (MAX_LAST_SEEN_MINS * 60) then Good
          else if MAX_REFRESH_REQUESTS \<le> refresh_requests node then Bad
          else (case last_request node of
                  Some request_time \<Rightarrow>
                    if duration_since now request_time < from_secs (MAX_LAST_SEEN_MINS * 60) then Good
                    else Questionable
                | None \<Rightarrow> Questionable))"

definition update :: "instant \<Rightarrow> Node \<Rightarrow> Node \<Rightarrow> (unit, Node) outcome" where
  "update now self other =
     (if handle self \<noteq> handle other then Panic
      else
        Ok (case (status now self, status now other) of
              (Good, Good) \<Rightarrow>
                \<lparr>handle = handle self, last_request = last_request self,
                 last_response = last_response other, last_local_request = last_local_request self,
                 refresh_requests = 0\<rparr>
            | (Good, Questionable) \<Rightarrow> self
            | (Good, Bad) \<Rightarrow> self
            | (Questionable, Good) \<Rightarrow> other
            | (Questionable, Questionable) \<Rightarrow> self
            | (Questionable, Bad) \<Rightarrow> self
            | (Bad, Good) \<Rightarrow> other
            | (Bad, Questionable) \<Rightarrow> other
            | (Bad, Bad) \<Rightarrow> self))"

definition saturating_inc :: "u64 \<Rightarrow> u64" where
  "saturating_inc n = (if n = -1 then -1 else n + 1)"

definition local_request :: "instant \<Rightarrow> Node \<Rightarrow> Node" where
  "local_request now self =
     (let self1 = self\<lparr>last_local_request := Some now\<rparr>
      in if status now self1 \<noteq> Good
         then self1\<lparr>refresh_requests := saturating_inc (refresh_requests self1)\<rparr> else self1)"

definition remote_request :: "instant \<Rightarrow> Node \<Rightarrow> Node" where
  "remote_request now self = self\<lparr>last_request := Some now\<rparr>"

definition remote_response :: "instant \<Rightarrow> Node \<Rightarrow> Node" where
  "remote_response now self = self\<lparr>last_response := Some now, refresh_requests := 0\<rparr>"

definition node_id :: "Node \<Rightarrow> ShaHash" where
  "node_id node = h_id (handle node)"

definition node_addr :: "Node \<Rightarrow> SocketAddr" where
  "node_addr node = h_addr (handle node)"

text \<open>
  \<open>encode\<close> fills an array of 26 bytes, the id first and the address where the id ended; it
  panics on an IPv6 address.
\<close>

definition node_encode :: "Node \<Rightarrow> (unit, bytes) outcome" where
  "node_encode node =
     (case node_addr node of
        SockV4 v4 \<Rightarrow>
          let encoded = take 26 (node_id node @ octets (v4_ip v4) @ replicate 26 0);
              port = v4_port v4
          in Ok (encoded[24 := ucast (drop_bit 8 port), 25 := ucast port])
      | SockV6 _ \<Rightarrow> Panic)"

definition is_pingable :: "instant \<Rightarrow> Node \<Rightarrow> bool" where
  "is_pingable now node \<longleftrightarrow> (let st = status now node in st = Good \<or> st = Questionable)"

definition recently_requested_from :: "instant \<Rightarrow> Node \<Rightarrow> bool" where
  "recently_requested_from now node =
     (case last_local_request node of Some time \<Rightarrow> now - int (from_secs 30) < time | None \<Rightarrow> False)"

definition node_eq :: "Node \<Rightarrow> Node \<Rightarrow> bool" where
  "node_eq a b \<longleftrightarrow> handle a = handle b"

section \<open>Facts about the status\<close>

definition recent :: "instant \<Rightarrow> instant option \<Rightarrow> bool" where
  "recent now t = (case t of Some time \<Rightarrow> duration_since now time < from_secs (MAX_LAST_SEEN_MINS * 60) | None \<Rightarrow> False)"

lemma status_Good:
  "status now n = Good \<longleftrightarrow> last_response n \<noteq> None \<and>
     (recent now (last_response n) \<or> refresh_requests n < MAX_REFRESH_REQUESTS \<and> recent now (last_request n))"
  by (auto simp: status_def recent_def split: option.splits)

lemma status_Bad:
  "status now n = Bad \<longleftrightarrow> last_response n = None \<or>
     (\<not> recent now (last_response n) \<and> MAX_REFRESH_REQUESTS \<le> refresh_requests n)"
  by (auto simp: status_def recent_def split: option.splits)

lemma status_Questionable:
  "status now n = Questionable \<longleftrightarrow> last_response n \<noteq> None \<and> \<not> recent now (last_response n) \<and>
     refresh_requests n < MAX_REFRESH_REQUESTS \<and> \<not> recent now (last_request n)"
  by (auto simp: status_def recent_def split: option.splits)

lemma is_pingable_iff: "is_pingable now n \<longleftrightarrow> status now n \<noteq> Bad"
  by (cases "status now n") (simp_all add: is_pingable_def)

lemma pingable_responded: "is_pingable now n \<Longrightarrow> last_response n \<noteq> None"
  by (simp add: is_pingable_iff status_Bad)

lemma recent_later: "recent now' t \<Longrightarrow> now \<le> now' \<Longrightarrow> recent now t"
  by (auto simp: recent_def duration_since_def split: option.splits)

lemma status_as_bad [simp]: "status now (as_bad i a) = Bad"
  by (simp add: status_def as_bad_def)

lemma status_as_good: "status now (as_good now i a) = Good"
  by (simp add: status_def as_good_def duration_since_def from_secs_def MAX_LAST_SEEN_MINS_def)

lemma status_as_questionable: "status now (as_questionable now i a) = Questionable"
  by (simp add: status_def as_questionable_def duration_since_def from_secs_def
      MAX_LAST_SEEN_MINS_def MAX_REFRESH_REQUESTS_def Let_def)

lemma node_encode_length:
  "node_encode n = Ok bs \<Longrightarrow> length bs = 26"
  by (auto simp: node_encode_def Let_def split: SocketAddr.splits)

lemma octets_length [simp]: "length (octets ip) = 4"
  by (cases ip) simp

lemma node_encode_v4:
  assumes "sha_wf (h_id (handle n))" and "h_addr (handle n) = SockV4 v4"
  shows "node_encode n = Ok (h_id (handle n) @ sock_v4_to_bytes_be v4)"
proof -
  obtain a b c d where ip: "v4_ip v4 = Ipv4Addr a b c d" by (cases "v4_ip v4")
  from assms(1) have "length (h_id (handle n)) = 20" by (simp add: sha_wf_def SHA_HASH_LEN_def)
  then show ?thesis
    by (simp add: node_encode_def node_addr_def node_id_def assms(2) ip Let_def list_update_append
        sock_v4_to_bytes_be_def ipv4_to_bytes_be_def port_to_bytes_be_def numeral_nat)
qed

text \<open>Without new traffic a node's status never improves.\<close>

lemma status_antimono:
  assumes "now \<le> now'"
  shows "status now' n \<le> status now n"
proof (cases "status now n")
  case Bad
  with recent_later [OF _ assms] have "status now' n = Bad" by (auto simp: status_Bad)
  then show ?thesis by simp
next
  case Questionable
  with recent_later [OF _ assms] have "status now' n = Questionable"
    by (auto simp: status_Questionable)
  with Questionable show ?thesis by simp
qed simp

lemma unat_saturating_inc: "unat (saturating_inc n) = (if n = -1 then unat n else Suc (unat n))"
  by (simp add: saturating_inc_def unat_inc)

lemma saturating_inc_ge: "n \<le> saturating_inc n"
  by (simp add: word_le_nat_alt unat_saturating_inc)

lemma saturating_inc_twice: "MAX_REFRESH_REQUESTS \<le> saturating_inc (saturating_inc n)"
proof (cases "n = -1 \<or> saturating_inc n = -1")
  case True
  then show ?thesis by (auto simp: saturating_inc_def MAX_REFRESH_REQUESTS_def)
next
  case False
  then show ?thesis
    by (simp add: word_le_nat_alt unat_saturating_inc MAX_REFRESH_REQUESTS_def)
qed

lemma local_request_not_good:
  assumes "status now n \<noteq> Good"
  shows "local_request now n =
      n\<lparr>last_local_request := Some now, refresh_requests := saturating_inc (refresh_requests n)\<rparr> \<and>
    status now (local_request now n) \<noteq> Good"
proof -
  have eq: "local_request now n =
      n\<lparr>last_local_request := Some now, refresh_requests := saturating_inc (refresh_requests n)\<rparr>"
    using assms by (simp add: local_request_def Let_def status_Good)
  moreover have "status now (n\<lparr>last_local_request := Some now, refresh_requests := r\<rparr>) \<noteq> Good"
    if "refresh_requests n \<le> r" for r
    using assms that by (auto simp: status_Good)
  ultimately show ?thesis using saturating_inc_ge by simp
qed

section \<open>Properties\<close>

text \<open>
  A node that is not good and is sent two requests without answering is bad from the second
  request on, at every later time; a response makes it good at once.
\<close>

theorem node_two_unanswered_requests:
  assumes "t1 \<le> t2" and "t2 \<le> t3" and "status t1 n \<noteq> Good"
  shows "status t3 (local_request t2 (local_request t1 n)) = Bad \<and>
    status t3 (remote_response t3 (local_request t2 (local_request t1 n))) = Good"
proof -
  let ?n1 = "local_request t1 n"
  let ?n2 = "local_request t2 ?n1"
  note eq1 = local_request_not_good [OF assms(3)]
  have n1: "status t1 ?n1 \<noteq> Good" using eq1 by (rule conjunct2)
  then have "status t2 ?n1 \<noteq> Good"
    using status_antimono [OF assms(1), of ?n1] by (metis antisym status_less_simps(7))
  note n2 = local_request_not_good [OF this]
  have "refresh_requests ?n1 = saturating_inc (refresh_requests n)"
    by (subst conjunct1 [OF eq1]) simp
  moreover have "refresh_requests ?n2 = saturating_inc (refresh_requests ?n1)"
    by (subst conjunct1 [OF n2]) simp
  ultimately have "MAX_REFRESH_REQUESTS \<le> refresh_requests ?n2"
    by (simp add: saturating_inc_twice)
  moreover have "status t3 ?n2 \<noteq> Good"
    using n2 status_antimono [OF assms(2), of ?n2] by (metis antisym status_less_simps(7))
  ultimately have "status t3 ?n2 = Bad" by (auto simp: status_Good status_Bad)
  then show ?thesis
    by (simp add: status_Good remote_response_def recent_def duration_since_def from_secs_def
        MAX_LAST_SEEN_MINS_def)
qed

theorem node_two_unanswered_requests_witness:
  "status 901000000000
     (local_request 901000000000 (local_request 900000000000 (as_good 0 [] (SockV4 \<lparr>v4_ip = Ipv4Addr 1 2 3 4, v4_port = 5\<rparr>)))) = Bad"
proof -
  let ?n = "as_good 0 [] (SockV4 \<lparr>v4_ip = Ipv4Addr 1 2 3 4, v4_port = 5\<rparr>)"
  have "status 900000000000 ?n \<noteq> Good"
    by (simp add: status_def as_good_def duration_since_def from_secs_def MAX_LAST_SEEN_MINS_def
        MAX_REFRESH_REQUESTS_def)
  from node_two_unanswered_requests [OF _ _ this, of 901000000000 901000000000] show ?thesis by simp
qed

text \<open>
  Merging what is known of a node from a fresh sighting (one without a recorded request, as
  the constructors make them) never lowers its status: the merged node has the better of the two.
  The merge panics exactly when the two have different ids or addresses.
\<close>

theorem update_takes_better_status:
  assumes "last_request other = None"
  shows "(if handle self = handle other
     then \<exists>n. update now self other = Ok n \<and> handle n = handle self \<and>
            status now n = max (status now self) (status now other)
     else update now self other = Panic)"
proof (cases "handle self = handle other")
  case True
  have "status now other = Good \<Longrightarrow> status now n = Good" if "last_response n = last_response other" for n
    using assms that by (auto simp: status_Good recent_def)
  with True show ?thesis
    by (cases "status now self"; cases "status now other") (simp_all add: update_def max_def)
qed (simp add: update_def)

theorem update_takes_better_status_witness:
  "\<exists>n. update 900000000000 (as_good 0 [] (SockV4 \<lparr>v4_ip = Ipv4Addr 1 2 3 4, v4_port = 5\<rparr>))
      (as_good 900000000000 [] (SockV4 \<lparr>v4_ip = Ipv4Addr 1 2 3 4, v4_port = 5\<rparr>)) = Ok n \<and>
    status 900000000000 n = Good"
proof -
  let ?a = "SockV4 \<lparr>v4_ip = Ipv4Addr 1 2 3 4, v4_port = 5\<rparr>"
  have "status 900000000000 (as_good 900000000000 [] ?a) = Good" by (rule status_as_good)
  moreover have "status 900000000000 (as_good 0 [] ?a) = Questionable"
    by (simp add: status_def as_good_def duration_since_def from_secs_def MAX_LAST_SEEN_MINS_def
        MAX_REFRESH_REQUESTS_def)
  moreover have "handle (as_good 0 [] ?a) = handle (as_good 900000000000 [] ?a)"
    "last_request (as_good 900000000000 [] ?a) = None" by (simp_all add: as_good_def)
  ultimately show ?thesis
    using update_takes_better_status [of "as_good 900000000000 [] ?a" "as_good 0 [] ?a" 900000000000]
    by (auto simp: max_def)
qed

end
