(* ===== verification/Dht_Bucket.thy ===== *)
theory Dht_Bucket
  imports Dht_Node
begin

text \<open>
  The buckets of the routing table, \<open>btp-dht/src/routing/bucket.rs\<close>: arrays of eight nodes that
  start out filled with bad ones.
\<close>

definition MAX_BUCKET_SIZE :: nat where
  "MAX_BUCKET_SIZE = 8"

record Bucket =
  nodes :: "Node list"

definition bucket_new :: Bucket where
  "bucket_new =
     (let nid = replicate SHA_HASH_LEN 0;
          addr = SockV4 \<lparr>v4_ip = Ipv4Addr 127 0 0 1, v4_port = 0\<rparr>
      in \<lparr>nodes = replicate MAX_BUCKET_SIZE (as_bad nid addr)\<rparr>)"

definition good_nodes_filter :: "instant \<Rightarrow> Node \<Rightarrow> bool" where
  "good_nodes_filter now node \<longleftrightarrow> status now node = Good"

definition good_nodes :: "instant \<Rightarrow> Bucket \<Rightarrow> Node list" where
  "good_nodes now b = filter (good_nodes_filter now) (nodes b)"

definition pingable_nodes_filter :: "instant \<Rightarrow> Node \<Rightarrow> bool" where
  "pingable_nodes_filter now node \<longleftrightarrow> (let st = status now node in st = Good \<or> st = Questionable)"

definition pingable_nodes :: "instant \<Rightarrow> Bucket \<Rightarrow> Node list" where
  "pingable_nodes now b = filter (pingable_nodes_filter now) (nodes b)"

definition needs_refresh :: "instant \<Rightarrow> Bucket \<Rightarrow> bool" where
  "needs_refresh now b = foldl (\<lambda>prev node. prev \<and> status now node \<noteq> Good) True (nodes b)"

definition bucket_add_node :: "instant \<Rightarrow> Node \<Rightarrow> Bucket \<Rightarrow> bool \<times> Bucket" where
  "bucket_add_node now new_node b =
     (let new_node_status = status now new_node
      in if new_node_status = Bad then (True, b)
         else (case position (\<lambda>node. node_eq node new_node) (nodes b) of
                 Some index \<Rightarrow>
                   (let other_node_status = status now (nodes b ! index)
                    in (True, if other_node_status \<le> new_node_status
                              then b\<lparr>nodes := (nodes b)[index := new_node]\<rparr> else b))
               | None \<Rightarrow>
                   (case position (\<lambda>node. status now node < new_node_status) (nodes b) of
                      Some index \<Rightarrow> (True, b\<lparr>nodes := (nodes b)[index := new_node]\<rparr>)
                    | None \<Rightarrow> (False, b))))"

section \<open>The invariant of a bucket\<close>

text \<open>
  A bucket has eight slots. A slot whose node never responded is a placeholder. The nodes that
  did respond satisfy the predicate the table wants of the bucket's nodes, and no node shares its
  id and address with one in an earlier slot.
\<close>

abbreviation responded :: "Node \<Rightarrow> bool" where
  "responded n \<equiv> last_response n \<noteq> None"

definition bucket_ok :: "(Node \<Rightarrow> bool) \<Rightarrow> Bucket \<Rightarrow> bool" where
  "bucket_ok P b \<longleftrightarrow> length (nodes b) = MAX_BUCKET_SIZE \<and> (\<forall>n\<in>set (nodes b). responded n \<longrightarrow> P n) \<and>
     (\<forall>i j. i < j \<longrightarrow> j < MAX_BUCKET_SIZE \<longrightarrow> responded (nodes b ! j) \<longrightarrow>
        handle (nodes b ! i) \<noteq> handle (nodes b ! j))"

abbreviation ping_count :: "instant \<Rightarrow> Bucket \<Rightarrow> nat" where
  "ping_count now b \<equiv> length (filter (is_pingable now) (nodes b))"

lemma pingable_nodes_filter_eq [simp]: "pingable_nodes_filter = is_pingable"
  by (rule ext)+ (simp add: pingable_nodes_filter_def is_pingable_def)

lemma status_not_Bad_responded: "status now n \<noteq> Bad \<Longrightarrow> responded n"
  by (simp add: status_Bad)

lemma bucket_ok_new: "bucket_ok P bucket_new"
  by (auto simp: bucket_ok_def bucket_new_def as_bad_def Let_def)

lemma nodes_bucket_new: "n \<in> set (nodes bucket_new) \<Longrightarrow> status now n = Bad"
  by (auto simp: bucket_new_def Let_def)

lemma ping_count_new: "filter (is_pingable now) (nodes bucket_new) = []"
  by (auto simp: filter_empty_conv is_pingable_iff nodes_bucket_new)

lemma bucket_ok_mono: "bucket_ok P b \<Longrightarrow> (\<And>n. responded n \<Longrightarrow> P n \<Longrightarrow> Q n) \<Longrightarrow> bucket_ok Q b"
  by (auto simp: bucket_ok_def)

lemma bucket_ok_update:
  assumes ok: "bucket_ok P b" and i: "i < length (nodes b)" and P: "P new"
    and before: "\<And>j. j < i \<Longrightarrow> handle (nodes b ! j) \<noteq> handle new"
    and after: "\<And>j. i < j \<Longrightarrow> j < length (nodes b) \<Longrightarrow> responded (nodes b ! j) \<Longrightarrow> handle (nodes b ! j) \<noteq> handle new"
  shows "bucket_ok P (b\<lparr>nodes := (nodes b)[i := new]\<rparr>)"
proof -
  let ?ns = "(nodes b)[i := new]"
  from ok have len: "length (nodes b) = MAX_BUCKET_SIZE"
    and old: "\<And>k l. k < l \<Longrightarrow> l < MAX_BUCKET_SIZE \<Longrightarrow> responded (nodes b ! l) \<Longrightarrow>
      handle (nodes b ! k) \<noteq> handle (nodes b ! l)"
    and Q: "\<forall>n\<in>set (nodes b). responded n \<longrightarrow> P n"
    by (auto simp: bucket_ok_def)
  have "handle (?ns ! k) \<noteq> handle (?ns ! l)"
    if "k < l" "l < MAX_BUCKET_SIZE" "responded (?ns ! l)" for k l
    using that old [of k l] before [of k] after [of l] i len
    by (cases "l = i"; cases "k = i") auto
  moreover have "\<forall>n\<in>set ?ns. responded n \<longrightarrow> P n"
    using Q P set_update_subset_insert [of "nodes b" i new] by auto
  ultimately show ?thesis using len by (simp add: bucket_ok_def)
qed

text \<open>The three ways in which adding a node that is not bad can end.\<close>

lemma bucket_add_node_cases:
  assumes "status now new \<noteq> Bad"
  obtains (same) i where "i < length (nodes b)" "handle (nodes b ! i) = handle new"
      "\<forall>j<i. handle (nodes b ! j) \<noteq> handle new"
      "bucket_add_node now new b =
         (True, if status now (nodes b ! i) \<le> status now new then b\<lparr>nodes := (nodes b)[i := new]\<rparr> else b)"
  | (replace) i where "i < length (nodes b)" "status now (nodes b ! i) < status now new"
      "\<forall>n\<in>set (nodes b). handle n \<noteq> handle new"
      "bucket_add_node now new b = (True, b\<lparr>nodes := (nodes b)[i := new]\<rparr>)"
  | (full) "\<forall>n\<in>set (nodes b). handle n \<noteq> handle new \<and> status now new \<le> status now n"
      "bucket_add_node now new b = (False, b)"
proof (cases "position (\<lambda>node. node_eq node new) (nodes b)")
  case (Some i)
  from assms Some Some [unfolded position_Some] same [of i] show thesis
    by (auto simp: bucket_add_node_def Let_def node_eq_def)
next
  case None
  then have other: "\<forall>n\<in>set (nodes b). handle n \<noteq> handle new" by (simp add: position_None node_eq_def)
  show thesis
  proof (cases "position (\<lambda>node. status now node < status now new) (nodes b)")
    case (Some i)
    with assms None have "bucket_add_node now new b = (True, b\<lparr>nodes := (nodes b)[i := new]\<rparr>)"
      by (simp add: bucket_add_node_def)
    with other Some [unfolded position_Some] show thesis by (intro replace) auto
  next
    case none: None
    with assms None have "bucket_add_node now new b = (False, b)" by (simp add: bucket_add_node_def)
    with other none show thesis by (intro full) (auto simp: position_None not_less)
  qed
qed

lemma bucket_add_node_Bad [simp]: "status now new = Bad \<Longrightarrow> bucket_add_node now new b = (True, b)"
  by (simp add: bucket_add_node_def)

lemma bucket_add_node_ok:
  assumes "bucket_ok P b" and "P new"
  shows "bucket_ok P (snd (bucket_add_node now new b))"
proof (cases "status now new = Bad")
  case False
  then show ?thesis
  proof (cases rule: bucket_add_node_cases [where b = b])
    case (same i)
    have "bucket_ok P (b\<lparr>nodes := (nodes b)[i := new]\<rparr>)"
    proof (rule bucket_ok_update [OF assms(1) same(1) assms(2)])
      show "handle (nodes b ! j) \<noteq> handle new"
        if "i < j" "j < length (nodes b)" "responded (nodes b ! j)" for j
        using assms(1) that same(2) unfolding bucket_ok_def by metis
    qed (use same(3) in simp)
    with same assms show ?thesis by simp
  next
    case (replace i)
    then have "bucket_ok P (b\<lparr>nodes := (nodes b)[i := new]\<rparr>)"
      using assms by (intro bucket_ok_update) auto
    with replace show ?thesis by simp
  qed (use assms in simp)
qed (use assms in simp)

lemma bucket_add_node_fails:
  assumes "fst (bucket_add_node now new b) = False"
  shows "snd (bucket_add_node now new b) = b \<and> status now new \<noteq> Bad \<and>
    (\<forall>n\<in>set (nodes b). status now new \<le> status now n)"
proof (cases "status now new = Bad")
  case False
  then show ?thesis by (cases rule: bucket_add_node_cases [where b = b]) (use assms in auto)
qed (use assms in simp)

lemma bucket_add_node_present:
  assumes "status now new \<noteq> Bad" and "fst (bucket_add_node now new b)"
  shows "\<exists>n\<in>set (nodes (snd (bucket_add_node now new b))). handle n = handle new \<and> status now new \<le> status now n"
  using assms(1)
proof (cases rule: bucket_add_node_cases [where b = b])
  case (same i)
  show ?thesis
  proof (cases "status now (nodes b ! i) \<le> status now new")
    case True
    with same show ?thesis by (auto intro!: bexI [of _ new] simp: set_update_memI)
  next
    case False
    with same show ?thesis by (auto intro!: bexI [of _ "nodes b ! i"])
  qed
next
  case (replace i)
  then show ?thesis by (auto intro!: bexI [of _ new] simp: set_update_memI)
qed (use assms in simp)

lemma list_update_other:
  "x \<in> set xs \<Longrightarrow> x \<noteq> xs ! i \<Longrightarrow> x \<in> set (xs[i := y])"
  by (metis in_set_conv_nth length_list_update nth_list_update_neq)

lemma bucket_add_node_keeps_good:
  assumes "n \<in> set (nodes b)" and "status now n = Good"
  shows "\<exists>n'\<in>set (nodes (snd (bucket_add_node now new b))). handle n' = handle n \<and> status now n' = Good"
proof (cases "status now new = Bad")
  case False
  then show ?thesis
  proof (cases rule: bucket_add_node_cases [where b = b])
    case (same i)
    show ?thesis
    proof (cases "n = nodes b ! i")
      case True
      show ?thesis
      proof (cases "Good \<le> status now new")
        case le: True
        then have "status now new = Good" by (simp add: antisym)
        with le True same assms show ?thesis by (auto intro!: bexI [of _ new] simp: set_update_memI)
      next
        case False
        with True same assms show ?thesis by auto
      qed
    next
      case False
      with list_update_other [OF assms(1) False, of new] same assms show ?thesis by auto
    qed
  next
    case (replace i)
    with assms have "n \<noteq> nodes b ! i" by auto
    with list_update_other [OF assms(1) this, of new] replace assms show ?thesis by auto
  qed (use assms in auto)
qed (use assms in auto)

lemma length_filter_update_le:
  "i < length xs \<Longrightarrow> length (filter P (xs[i := x])) \<le> Suc (length (filter P xs))"
proof (induction xs arbitrary: i)
  case (Cons y xs)
  then show ?case by (cases i) auto
qed simp

lemma bucket_add_node_count:
  "ping_count now (snd (bucket_add_node now new b)) \<le> Suc (ping_count now b)"
proof (cases "status now new = Bad")
  case False
  then show ?thesis
    by (cases rule: bucket_add_node_cases [where b = b]) (auto simp: length_filter_update_le)
qed simp

text \<open>A bucket with a bad node takes every node.\<close>

lemma bucket_add_node_room:
  assumes "length (nodes b) = MAX_BUCKET_SIZE" and "ping_count now b < MAX_BUCKET_SIZE"
  shows "fst (bucket_add_node now new b)"
proof (rule ccontr)
  assume f: "\<not> fst (bucket_add_node now new b)"
  with bucket_add_node_fails [of now new b] have "\<forall>n\<in>set (nodes b). is_pingable now n"
    by (auto simp: is_pingable_iff) (metis antisym status_less_simps(6))
  then have "filter (is_pingable now) (nodes b) = nodes b" by (simp add: filter_id_conv)
  with assms show False by simp
qed

section \<open>Properties\<close>

text \<open>
  C28. Adding a node to a bucket keeps the bucket well-formed and never loses a good node. It
  succeeds, with the node stored at least at its status, unless every node of the bucket has at
  least that status, and then the bucket is unchanged.
\<close>

theorem bucket_add_node_correct:
  assumes "bucket_ok P b" and "P new" and "bucket_add_node now new b = (added, b')" and "status now new \<noteq> Bad"
  shows "bucket_ok P b' \<and>
    (\<forall>n\<in>set (nodes b). status now n = Good \<longrightarrow> (\<exists>n'\<in>set (nodes b'). handle n' = handle n \<and> status now n' = Good)) \<and>
    (if added then \<exists>n\<in>set (nodes b'). handle n = handle new \<and> status now new \<le> status now n
     else b' = b \<and> (\<forall>n\<in>set (nodes b). status now new \<le> status now n))"
proof -
  have b': "b' = snd (bucket_add_node now new b)" "added = fst (bucket_add_node now new b)"
    using assms(3) by simp_all
  show ?thesis
    unfolding b' using bucket_add_node_ok [OF assms(1,2)] bucket_add_node_keeps_good
      bucket_add_node_present [OF assms(4)] bucket_add_node_fails [of now new b]
    by simp
qed

theorem bucket_add_node_correct_witness:
  "bucket_ok (\<lambda>n. True) (snd (bucket_add_node 5
     (as_good 5 [1] (SockV4 \<lparr>v4_ip = Ipv4Addr 1 2 3 4, v4_port = 5\<rparr>)) bucket_new))"
proof -
  let ?n = "as_good 5 [1] (SockV4 \<lparr>v4_ip = Ipv4Addr 1 2 3 4, v4_port = 5\<rparr>)"
  obtain added b' where "bucket_add_node 5 ?n bucket_new = (added, b')" by fastforce
  with bucket_add_node_correct [OF bucket_ok_new _ this, of "\<lambda>n. True"] status_as_good show ?thesis by simp
qed

text \<open>
  A new good node takes the first slot that holds a worse node, so a questionable node is
  thrown out although a later slot of the bucket is still free.
\<close>

theorem bucket_add_node_evicts_questionable:
  assumes "nodes b = q # rest" and "status now q = Questionable" and "status now new = Good"
    and "handle q \<noteq> handle new" and "\<forall>n\<in>set rest. handle n \<noteq> handle new"
  shows "bucket_add_node now new b = (True, b\<lparr>nodes := new # rest\<rparr>)"
proof -
  have "position (\<lambda>node. node_eq node new) (nodes b) = None"
    using assms by (simp add: position_None node_eq_def del: position.simps)
  with assms show ?thesis by (simp add: bucket_add_node_def)
qed

theorem bucket_add_node_evicts_questionable_witness:
  "\<exists>b. length (filter (is_pingable 5) (nodes b)) = 1 \<and>
     length (filter (is_pingable 5) (nodes (snd (bucket_add_node 5 (as_good 5 [2] (SockV4 \<lparr>v4_ip = Ipv4Addr 1 2 3 4, v4_port = 5\<rparr>)) b)))) = 1"
proof -
  let ?a = "SockV4 \<lparr>v4_ip = Ipv4Addr 1 2 3 4, v4_port = 5\<rparr>"
  let ?q = "as_questionable 5 [1] ?a" and ?n = "as_good 5 [2] ?a" and ?r = "replicate 7 (as_bad [3] ?a)"
  let ?b = "\<lparr>nodes = ?q # ?r\<rparr>"
  have "handle ?q \<noteq> handle ?n" "\<forall>n\<in>set ?r. handle n \<noteq> handle ?n"
    by (simp_all add: as_questionable_def as_good_def as_bad_def Let_def)
  with bucket_add_node_evicts_questionable [of ?b ?q ?r 5 ?n] status_as_good status_as_questionable
  have "bucket_add_node 5 ?n ?b = (True, \<lparr>nodes = ?n # ?r\<rparr>)" by simp
  then show ?thesis
    by (intro exI [of _ ?b]) (simp add: is_pingable_iff status_as_good status_as_questionable)
qed

end
