(* ===== verification/Dht_Table.thy ===== *)
theory Dht_Table
  imports Dht_Bucket
begin

text \<open>
  The routing table, \<open>btp-dht/src/routing/table.rs\<close>: adding nodes and splitting buckets, looking up
  a node, and the iterator over the buckets. \<open>bucket_node\<close>, \<open>split_bucket\<close> and \<open>add_node\<close> call each
  other; the recursion is cut by fuel, and \<open>add_node_correct\<close> below shows that \<open>MAX_BUCKETS\<close> is
  enough, so that running out (\<open>Err ()\<close>) never happens. \<open>Panic\<close> is a panic of the code.
\<close>

definition MAX_BUCKETS :: nat where
  "MAX_BUCKETS = SHA_HASH_LEN * 8"

record RoutingTable =
  buckets :: "Bucket list"
  rt_node_id :: ShaHash

definition routing_table_new :: "ShaHash \<Rightarrow> RoutingTable" where
  "routing_table_new nid = \<lparr>buckets = [bucket_new], rt_node_id = nid\<rparr>"

definition can_split_bucket :: "nat \<Rightarrow> nat \<Rightarrow> bool" where
  "can_split_bucket num_buckets bucket_index \<longleftrightarrow>
     bucket_index = num_buckets - 1 \<and> bucket_index \<noteq> MAX_BUCKETS - 1"

definition bucket_placement :: "nat \<Rightarrow> nat \<Rightarrow> nat" where
  "bucket_placement num_same_bits num_buckets =
     (let ideal_index = num_same_bits
      in if num_buckets \<le> ideal_index then num_buckets - 1 else ideal_index)"

text \<open>The bodies of \<open>add_node\<close> and \<open>split_bucket\<close>, over the function they call back.\<close>

definition add_node_with ::
    "(Node \<Rightarrow> nat \<Rightarrow> RoutingTable \<Rightarrow> (unit, RoutingTable) outcome) \<Rightarrow> instant \<Rightarrow> Node \<Rightarrow> RoutingTable \<Rightarrow>
     (unit, RoutingTable) outcome" where
  "add_node_with bucket_node now node t =
     (if status now node = Bad then Ok t
      else let num_same_bits = leading_bit_count (rt_node_id t) (node_id node)
           in if num_same_bits \<noteq> MAX_BUCKETS then bucket_node node num_same_bits t else Ok t)"

fun add_all ::
    "(Node \<Rightarrow> RoutingTable \<Rightarrow> (unit, RoutingTable) outcome) \<Rightarrow> Node list \<Rightarrow> RoutingTable \<Rightarrow>
     (unit, RoutingTable) outcome" where
  "add_all add [] t = Ok t"
| "add_all add (n # ns) t = try_bind (add n t) (add_all add ns)"

definition split_bucket_with ::
    "(Node \<Rightarrow> RoutingTable \<Rightarrow> (unit, RoutingTable) outcome) \<Rightarrow> nat \<Rightarrow> RoutingTable \<Rightarrow>
     (unit, bool \<times> RoutingTable) outcome" where
  "split_bucket_with add bucket_index t =
     (if \<not> can_split_bucket (length (buckets t)) bucket_index then Ok (False, t)
      else if buckets t = [] then Panic
      else let split = last (buckets t);
               t1 = t\<lparr>buckets := butlast (buckets t) @ [bucket_new] @ [bucket_new]\<rparr>
           in try_bind (add_all add (nodes split) t1) (\<lambda>t2. Ok (True, t2)))"

primrec bucket_node ::
    "nat \<Rightarrow> instant \<Rightarrow> Node \<Rightarrow> nat \<Rightarrow> RoutingTable \<Rightarrow> (unit, RoutingTable) outcome" where
  "bucket_node 0 now node num_same_bits t = Err ()"
| "bucket_node (Suc fuel) now node num_same_bits t =
     (if buckets t = [] then Panic
      else let bucket_index = bucket_placement num_same_bits (length (buckets t));
               (added, b) = bucket_add_node now node (buckets t ! bucket_index);
               t1 = t\<lparr>buckets := (buckets t)[bucket_index := b]\<rparr>
           in if added then Ok t1
              else try_bind (split_bucket_with (add_node_with (bucket_node fuel now) now) bucket_index t1)
                     (\<lambda>(split, t2). if split then bucket_node fuel now node num_same_bits t2 else Ok t2))"

definition add_node :: "instant \<Rightarrow> Node \<Rightarrow> RoutingTable \<Rightarrow> (unit, RoutingTable) outcome" where
  "add_node now node t = add_node_with (bucket_node MAX_BUCKETS now) now node t"

definition split_bucket :: "instant \<Rightarrow> nat \<Rightarrow> RoutingTable \<Rightarrow> (unit, bool \<times> RoutingTable) outcome" where
  "split_bucket now bucket_index t = split_bucket_with (add_node now) bucket_index t"

section \<open>Looking up nodes\<close>

text \<open>Fails (\<open>None\<close>) where the code panics, on a table without buckets.\<close>

definition bucket_index_for_node :: "RoutingTable \<Rightarrow> ShaHash \<Rightarrow> nat option" where
  "bucket_index_for_node t nid =
     (let bucket_index = leading_bit_count (rt_node_id t) nid
      in if bucket_index < length (buckets t) then Some bucket_index
         else if buckets t = [] then None else Some (length (buckets t) - 1))"

text \<open>
  A mutable reference to a node is the position it points to; \<open>with_node_mut\<close> is what a caller does
  with it.
\<close>

definition find_node_mut :: "instant \<Rightarrow> NodeHandle \<Rightarrow> RoutingTable \<Rightarrow> (nat \<times> nat) option" where
  "find_node_mut now h t =
     Option.bind (bucket_index_for_node t (h_id h)) (\<lambda>i.
       if i < length (buckets t)
       then map_option (Pair i) (position (\<lambda>n. is_pingable now n \<and> handle n = h) (nodes (buckets t ! i)))
       else None)"

definition with_node_mut :: "instant \<Rightarrow> NodeHandle \<Rightarrow> (Node \<Rightarrow> Node) \<Rightarrow> RoutingTable \<Rightarrow> RoutingTable" where
  "with_node_mut now h f t =
     (case find_node_mut now h t of
        Some (i, j) \<Rightarrow>
          let b = buckets t ! i
          in t\<lparr>buckets := (buckets t)[i := b\<lparr>nodes := (nodes b)[j := f (nodes b ! j)]\<rparr>]\<rparr>
      | None \<Rightarrow> t)"

datatype BucketContents = EmptyBucket | Sorted Bucket | Assorted Bucket

fun is_assorted :: "BucketContents \<Rightarrow> bool" where
  "is_assorted (Assorted _) = True"
| "is_assorted _ = False"

record Buckets =
  bs_buckets :: "Bucket list"
  bs_index :: nat

definition buckets_iter_new :: "Bucket list \<Rightarrow> Buckets" where
  "buckets_iter_new bs = \<lparr>bs_buckets = bs, bs_index = 0\<rparr>"

definition buckets_next :: "Buckets \<Rightarrow> BucketContents option \<times> Buckets" where
  "buckets_next self =
     (if MAX_BUCKETS < bs_index self then (None, self)
      else if bs_index self = MAX_BUCKETS then
        (if length (bs_buckets self) = MAX_BUCKETS \<or> bs_buckets self = [] then None
         else Some (Assorted (bs_buckets self ! (length (bs_buckets self) - 1))),
         self\<lparr>bs_index := bs_index self + 1\<rparr>)
      else if bs_index self + 1 < length (bs_buckets self) \<or> length (bs_buckets self) = MAX_BUCKETS then
        (Some (Sorted (bs_buckets self ! bs_index self)), self\<lparr>bs_index := bs_index self + 1\<rparr>)
      else (Some EmptyBucket, self\<lparr>bs_index := bs_index self + 1\<rparr>))"

text \<open>\<open>skip(n).next()\<close>, which stops at the first \<open>None\<close>, and \<open>find(p)\<close>.\<close>

fun buckets_skip_next :: "nat \<Rightarrow> Buckets \<Rightarrow> BucketContents option" where
  "buckets_skip_next 0 it = fst (buckets_next it)"
| "buckets_skip_next (Suc n) it =
     (case buckets_next it of (None, _) \<Rightarrow> None | (Some _, it') \<Rightarrow> buckets_skip_next n it')"

function buckets_find :: "(BucketContents \<Rightarrow> bool) \<Rightarrow> Buckets \<Rightarrow> BucketContents option" where
  "buckets_find p it =
     (case buckets_next it of
        (None, _) \<Rightarrow> None
      | (Some c, it') \<Rightarrow> if p c then Some c else buckets_find p it')"
  by pat_completeness auto
termination
  by (relation "measure (\<lambda>(p, it). Suc MAX_BUCKETS - bs_index it)")
    (auto simp: buckets_next_def split: if_splits)

declare buckets_find.simps [simp del]

definition find_node :: "instant \<Rightarrow> Node \<Rightarrow> RoutingTable \<Rightarrow> Node option" where
  "find_node now node t =
     (let bucket_index = leading_bit_count (rt_node_id t) (node_id node);
          it = buckets_iter_new (buckets t);
          opt_bucket_contents =
            (case buckets_skip_next bucket_index it of
               Some c \<Rightarrow> Some c
             | None \<Rightarrow> buckets_find is_assorted it)
      in case opt_bucket_contents of
           Some (Sorted b) \<Rightarrow> find (\<lambda>n. node_eq n node) (pingable_nodes now b)
         | Some (Assorted b) \<Rightarrow> find (\<lambda>n. node_eq n node) (pingable_nodes now b)
         | _ \<Rightarrow> None)"

section \<open>The invariant of the table\<close>

definition same_bits :: "RoutingTable \<Rightarrow> Node \<Rightarrow> nat" where
  "same_bits t n = leading_bit_count (rt_node_id t) (node_id n)"

definition placed :: "RoutingTable \<Rightarrow> nat \<Rightarrow> Node \<Rightarrow> bool" where
  "placed t i n \<longleftrightarrow> same_bits t n \<noteq> MAX_BUCKETS \<and> bucket_placement (same_bits t n) (length (buckets t)) = i"

text \<open>
  Between one and 160 buckets, each well-formed, and every node that ever responded is in the
  bucket that \<open>bucket_placement\<close> names for it; the own id is not in the table.
\<close>

definition rt_wf :: "RoutingTable \<Rightarrow> bool" where
  "rt_wf t \<longleftrightarrow> sha_wf (rt_node_id t) \<and> buckets t \<noteq> [] \<and> length (buckets t) \<le> MAX_BUCKETS \<and>
     (\<forall>i<length (buckets t). bucket_ok (placed t i) (buckets t ! i))"

definition all_nodes :: "RoutingTable \<Rightarrow> Node list" where
  "all_nodes t = concat (map nodes (buckets t))"

definition keeps_good :: "instant \<Rightarrow> Node list \<Rightarrow> Node list \<Rightarrow> bool" where
  "keeps_good now ns ns' \<longleftrightarrow>
     (\<forall>n\<in>set ns. status now n = Good \<longrightarrow> (\<exists>n'\<in>set ns'. handle n' = handle n \<and> status now n' = Good))"

lemma keeps_good_refl [simp]: "keeps_good now ns ns"
  by (auto simp: keeps_good_def)

lemma keeps_good_Nil [simp]: "keeps_good now [] ns"
  by (simp add: keeps_good_def)

lemma keeps_good_Bad: "status now n = Bad \<Longrightarrow> keeps_good now [n] ns"
  by (simp add: keeps_good_def)

lemma keeps_good_Cons: "keeps_good now (n # ns) m \<longleftrightarrow> keeps_good now [n] m \<and> keeps_good now ns m"
  by (auto simp: keeps_good_def)

lemma keeps_good_trans: "keeps_good now a b \<Longrightarrow> keeps_good now b c \<Longrightarrow> keeps_good now a c"
  by (fastforce simp: keeps_good_def)

lemma take_while_count_le:
  "bit_pos it \<le> length (bits_bytes it) * 8 \<Longrightarrow> bit_pos it + take_while_count p it \<le> length (bits_bytes it) * 8"
proof (induction p it rule: take_while_count.induct)
  case (1 p it)
  then show ?case
    by (subst take_while_count.simps) (auto simp: bits_next_def Let_def split: prod.split option.split if_splits)
qed

lemma leading_bit_count_le: "leading_bit_count a b \<le> length a * 8"
  using take_while_count_le [of "bits_new (sha_bitxor a b)" "\<lambda>x. bit_eq_xor x XorSame"]
  by (simp add: leading_bit_count_def bits_new_def)

lemma same_bits_le: "rt_wf t \<Longrightarrow> same_bits t n \<le> MAX_BUCKETS"
  using leading_bit_count_le [of "rt_node_id t"]
  by (simp add: same_bits_def rt_wf_def sha_wf_def MAX_BUCKETS_def)

lemma MAX_BUCKETS_pos [simp]: "0 < MAX_BUCKETS" "1 < MAX_BUCKETS"
  by (simp_all add: MAX_BUCKETS_def SHA_HASH_LEN_def)

lemma bucket_placement_less: "0 < L \<Longrightarrow> bucket_placement k L < L"
  by (auto simp: bucket_placement_def)

lemma rt_wf_new: "sha_wf nid \<Longrightarrow> rt_wf (routing_table_new nid)"
  by (simp add: rt_wf_def routing_table_new_def bucket_ok_new Suc_le_eq)

section \<open>Adding a node\<close>

lemma placed_update [simp]:
  "length bs = length (buckets t) \<Longrightarrow> placed (t\<lparr>buckets := bs\<rparr>) i = placed t i"
  by (rule ext) (simp add: placed_def same_bits_def)

lemma same_bits_update [simp]: "same_bits (t\<lparr>buckets := bs\<rparr>) n = same_bits t n"
  by (simp add: same_bits_def)

lemma same_bits_cong: "rt_node_id t' = rt_node_id t \<Longrightarrow> same_bits t' n = same_bits t n"
  by (simp add: same_bits_def)

lemma rt_wf_update:
  assumes "rt_wf t" and "i < length (buckets t)" and "bucket_ok (placed t i) b"
  shows "rt_wf (t\<lparr>buckets := (buckets t)[i := b]\<rparr>)"
proof -
  have "bucket_ok (placed (t\<lparr>buckets := (buckets t)[i := b]\<rparr>) j) ((buckets t)[i := b] ! j)"
    if "j < length (buckets t)" for j
    using assms that by (cases "i = j") (simp_all add: rt_wf_def)
  with assms(1) show ?thesis by (simp add: rt_wf_def)
qed

lemma all_nodes_iff: "n \<in> set (all_nodes t) \<longleftrightarrow> (\<exists>i<length (buckets t). n \<in> set (nodes (buckets t ! i)))"
  unfolding all_nodes_def by simp (metis in_set_conv_nth)

lemma keeps_good_update:
  assumes "i < length (buckets t)" and "keeps_good now (nodes (buckets t ! i)) (nodes b)"
  shows "keeps_good now (all_nodes t) (all_nodes (t\<lparr>buckets := (buckets t)[i := b]\<rparr>))"
  unfolding keeps_good_def all_nodes_iff
proof (intro ballI impI)
  fix n assume "n \<in> set (all_nodes t)" and good: "status now n = Good"
  then obtain j where j: "j < length (buckets t)" "n \<in> set (nodes (buckets t ! j))" by (auto simp: all_nodes_iff)
  show "\<exists>n'\<in>set (all_nodes (t\<lparr>buckets := (buckets t)[i := b]\<rparr>)). handle n' = handle n \<and> status now n' = Good"
  proof (cases "i = j")
    case True
    with assms j good obtain n' where "n' \<in> set (nodes b)" "handle n' = handle n" "status now n' = Good"
      by (auto simp: keeps_good_def)
    with True assms(1) show ?thesis by (auto simp: all_nodes_iff intro!: bexI [of _ n'] exI [of _ i])
  next
    case False
    with j good show ?thesis by (auto simp: all_nodes_iff intro!: bexI [of _ n] exI [of _ j])
  qed
qed

text \<open>A node finds a place in its bucket.\<close>

lemma bucket_node_added:
  fixes t :: RoutingTable and n :: Node and now :: instant
  defines "i \<equiv> bucket_placement (same_bits t n) (length (buckets t))"
  defines "r \<equiv> bucket_add_node now n (buckets t ! i)"
  assumes wf: "rt_wf t" and ne: "same_bits t n \<noteq> MAX_BUCKETS" and nb: "status now n \<noteq> Bad" and add: "fst r"
  shows "\<exists>t'. bucket_node (Suc fuel) now n (same_bits t n) t = Ok t' \<and>
     t' = t\<lparr>buckets := (buckets t)[i := snd r]\<rparr> \<and> rt_wf t' \<and> keeps_good now (all_nodes t) (all_nodes t') \<and>
     (\<exists>n'\<in>set (all_nodes t'). handle n' = handle n \<and> status now n \<le> status now n')"
proof -
  let ?t = "t\<lparr>buckets := (buckets t)[i := snd r]\<rparr>"
  from wf have L: "buckets t \<noteq> []" "i < length (buckets t)"
    by (auto simp: rt_wf_def i_def bucket_placement_less)
  from wf L have ok: "bucket_ok (placed t i) (buckets t ! i)" by (simp add: rt_wf_def)
  have "placed t i n" using ne by (simp add: placed_def i_def)
  from bucket_add_node_ok [OF ok this] have "rt_wf ?t"
    using wf L by (intro rt_wf_update) (auto simp: r_def)
  moreover have "keeps_good now (all_nodes t) (all_nodes ?t)"
    using L bucket_add_node_keeps_good by (intro keeps_good_update) (auto simp: keeps_good_def r_def)
  moreover have "\<exists>n'\<in>set (all_nodes ?t). handle n' = handle n \<and> status now n \<le> status now n'"
    using bucket_add_node_present [OF nb] add L by (force simp: all_nodes_iff r_def)
  moreover have "bucket_node (Suc fuel) now n (same_bits t n) t = Ok ?t"
    using L add by (simp add: i_def [symmetric] r_def case_prod_unfold Let_def)
  ultimately show ?thesis by blast
qed

text \<open>A full bucket is left as it is, and split if possible.\<close>

lemma bucket_node_full:
  fixes t :: RoutingTable and n :: Node and now :: instant
  defines "i \<equiv> bucket_placement (same_bits t n) (length (buckets t))"
  assumes "buckets t \<noteq> []" and "\<not> fst (bucket_add_node now n (buckets t ! i))"
  shows "bucket_node (Suc fuel) now n (same_bits t n) t =
     try_bind (split_bucket_with (add_node_with (bucket_node fuel now) now) i t)
       (\<lambda>(split, t2). if split then bucket_node fuel now n (same_bits t n) t2 else Ok t2)"
  using assms bucket_add_node_fails [of now n "buckets t ! i"]
  by (simp add: i_def case_prod_unfold Let_def)

section \<open>Splitting the last bucket\<close>

definition split_table :: "RoutingTable \<Rightarrow> RoutingTable" where
  "split_table t = t\<lparr>buckets := butlast (buckets t) @ [bucket_new, bucket_new]\<rparr>"

lemma split_table_sel [simp]:
  "rt_node_id (split_table t) = rt_node_id t"
  "buckets t \<noteq> [] \<Longrightarrow> length (buckets (split_table t)) = Suc (length (buckets t))"
  "same_bits (split_table t) n = same_bits t n"
  by (simp_all add: split_table_def)

lemma split_table_nth:
  assumes "buckets t \<noteq> []" and "i < Suc (length (buckets t))"
  shows "buckets (split_table t) ! i = (if i < length (buckets t) - 1 then buckets t ! i else bucket_new)"
  using assms by (auto simp: split_table_def nth_append nth_butlast nth_Cons')

lemma split_table_wf:
  assumes wf: "rt_wf t" and "length (buckets t) < MAX_BUCKETS"
  shows "rt_wf (split_table t)"
proof -
  from wf have ne: "buckets t \<noteq> []" by (simp add: rt_wf_def)
  have "bucket_ok (placed (split_table t) i) (buckets (split_table t) ! i)" if "i < Suc (length (buckets t))" for i
  proof (cases "i < length (buckets t) - 1")
    case True
    with wf have "bucket_ok (placed t i) (buckets t ! i)" by (simp add: rt_wf_def)
    then have "bucket_ok (placed (split_table t) i) (buckets t ! i)"
    proof (rule bucket_ok_mono)
      show "placed (split_table t) i n" if "placed t i n" for n
        using that True ne by (auto simp: placed_def bucket_placement_def Let_def split: if_splits)
    qed
    with True ne show ?thesis by (simp add: split_table_nth)
  qed (use ne that in \<open>simp add: split_table_nth bucket_ok_new\<close>)
  with assms ne show ?thesis by (simp add: rt_wf_def) (simp add: split_table_def)
qed

text \<open>
  Putting back at most eight nodes that belong to the last two buckets, which have room for them,
  never splits again and loses no good node.
\<close>

lemma add_all_fits:
  assumes "rt_wf t" and "length (buckets t) = Suc (Suc m)"
    and "\<forall>n\<in>set ns. status now n \<noteq> Bad \<longrightarrow> same_bits t n \<noteq> MAX_BUCKETS \<and> m \<le> same_bits t n"
    and "\<forall>i\<in>{m, Suc m}. ping_count now (buckets t ! i) + length ns \<le> MAX_BUCKET_SIZE"
  shows "\<exists>t'. add_all (add_node_with (bucket_node (Suc fuel) now) now) ns t = Ok t' \<and> rt_wf t' \<and>
     rt_node_id t' = rt_node_id t \<and> length (buckets t') = length (buckets t) \<and>
     keeps_good now (all_nodes t) (all_nodes t') \<and> keeps_good now ns (all_nodes t')"
  using assms
proof (induction ns arbitrary: t)
  case Nil
  then show ?case by simp
next
  case (Cons n ns)
  let ?add = "add_node_with (bucket_node (Suc fuel) now) now"
  have "\<exists>t1. ?add n t = Ok t1 \<and> rt_wf t1 \<and> rt_node_id t1 = rt_node_id t \<and>
      length (buckets t1) = length (buckets t) \<and> keeps_good now (all_nodes t) (all_nodes t1) \<and>
      keeps_good now [n] (all_nodes t1) \<and>
      (\<forall>i\<in>{m, Suc m}. ping_count now (buckets t1 ! i) \<le> Suc (ping_count now (buckets t ! i)))"
  proof (cases "status now n = Bad")
    case True
    with Cons.prems show ?thesis by (simp add: add_node_with_def keeps_good_Bad)
  next
    case False
    define i where "i = bucket_placement (same_bits t n) (length (buckets t))"
    define r where "r = bucket_add_node now n (buckets t ! i)"
    from Cons.prems False have k: "same_bits t n \<noteq> MAX_BUCKETS" "m \<le> same_bits t n" by auto
    with Cons.prems(2) have i: "i \<in> {m, Suc m}" by (auto simp: i_def bucket_placement_def Let_def)
    with Cons.prems have "length (nodes (buckets t ! i)) = MAX_BUCKET_SIZE"
      "ping_count now (buckets t ! i) < MAX_BUCKET_SIZE"
      by (auto simp: rt_wf_def bucket_ok_def)
    then have "fst r" by (simp add: r_def bucket_add_node_room)
    with bucket_node_added [OF Cons.prems(1) k(1) False] obtain t1 where
      t1: "bucket_node (Suc fuel) now n (same_bits t n) t = Ok t1" "t1 = t\<lparr>buckets := (buckets t)[i := snd r]\<rparr>"
      "rt_wf t1" "keeps_good now (all_nodes t) (all_nodes t1)"
      "\<exists>n'\<in>set (all_nodes t1). handle n' = handle n \<and> status now n \<le> status now n'"
      by (auto simp: i_def r_def)
    have "?add n t = Ok t1"
      using False k(1) t1(1) by (simp add: add_node_with_def same_bits_def)
    moreover have "keeps_good now [n] (all_nodes t1)"
      using t1(5) by (auto simp: keeps_good_def dest: antisym)
    moreover have "\<forall>j\<in>{m, Suc m}. ping_count now (buckets t1 ! j) \<le> Suc (ping_count now (buckets t ! j))"
      using Cons.prems(2) bucket_add_node_count [of now n "buckets t ! i"] t1(2) i
      by (auto simp: r_def nth_list_update)
    ultimately show ?thesis using t1 by auto
  qed
  then obtain t1 where t1: "?add n t = Ok t1" "rt_wf t1" "rt_node_id t1 = rt_node_id t"
      "length (buckets t1) = length (buckets t)" "keeps_good now (all_nodes t) (all_nodes t1)"
      "keeps_good now [n] (all_nodes t1)"
      "\<forall>i\<in>{m, Suc m}. ping_count now (buckets t1 ! i) \<le> Suc (ping_count now (buckets t ! i))"
    by blast
  have room: "\<forall>i\<in>{m, Suc m}. ping_count now (buckets t1 ! i) + length ns \<le> MAX_BUCKET_SIZE"
    using t1(7) Cons.prems(4) by auto
  have len: "length (buckets t1) = Suc (Suc m)" using t1(4) Cons.prems(2) by simp
  have "\<forall>n\<in>set ns. status now n \<noteq> Bad \<longrightarrow> same_bits t1 n \<noteq> MAX_BUCKETS \<and> m \<le> same_bits t1 n"
    using Cons.prems(3) by (simp add: same_bits_cong [OF t1(3)])
  from Cons.IH [OF t1(2) len this room] obtain t' where
    t': "add_all ?add ns t1 = Ok t'" "rt_wf t'" "rt_node_id t' = rt_node_id t1"
      "length (buckets t') = length (buckets t1)" "keeps_good now (all_nodes t1) (all_nodes t')"
      "keeps_good now ns (all_nodes t')"
    by blast
  have kept: "keeps_good now (n # ns) (all_nodes t')"
    using keeps_good_trans [OF t1(6) t'(5)] t'(6) by (subst keeps_good_Cons) simp
  show ?case
    using t1(1,3,4) t'(1-4) kept keeps_good_trans [OF t1(5) t'(5)] by (intro exI [of _ t']) (simp del: bucket_node.simps)
qed

lemma split_bucket_ok:
  assumes wf: "rt_wf t" and split: "can_split_bucket (length (buckets t)) i"
  shows "\<exists>t'. split_bucket_with (add_node_with (bucket_node (Suc fuel) now) now) i t = Ok (True, t') \<and>
     rt_wf t' \<and> rt_node_id t' = rt_node_id t \<and> length (buckets t') = Suc (length (buckets t)) \<and>
     keeps_good now (all_nodes t) (all_nodes t')"
proof -
  let ?ns = "nodes (last (buckets t))" and ?s = "split_table t"
  from wf have ne: "buckets t \<noteq> []" and le: "length (buckets t) \<le> MAX_BUCKETS" by (auto simp: rt_wf_def)
  then obtain m where m: "length (buckets t) = Suc m" by (cases "length (buckets t)") auto
  with le split have lt: "length (buckets t) < MAX_BUCKETS" by (auto simp: can_split_bucket_def)
  have last: "last (buckets t) = buckets t ! m" using m ne by (simp add: last_conv_nth)
  with wf m have ok: "bucket_ok (placed t m) (last (buckets t))" by (simp add: rt_wf_def)
  have "\<forall>n\<in>set ?ns. status now n \<noteq> Bad \<longrightarrow> same_bits ?s n \<noteq> MAX_BUCKETS \<and> m \<le> same_bits ?s n"
    using ok m by (fastforce simp: bucket_ok_def placed_def bucket_placement_def Let_def
        dest: status_not_Bad_responded split: if_splits)
  moreover have "\<forall>i\<in>{m, Suc m}. ping_count now (buckets ?s ! i) + length ?ns \<le> MAX_BUCKET_SIZE"
    using ok m ne by (auto simp: split_table_nth ping_count_new bucket_ok_def)
  ultimately obtain t' where
    t': "add_all (add_node_with (bucket_node (Suc fuel) now) now) ?ns ?s = Ok t'" "rt_wf t'"
      "rt_node_id t' = rt_node_id ?s" "length (buckets t') = length (buckets ?s)"
      "keeps_good now (all_nodes ?s) (all_nodes t')" "keeps_good now ?ns (all_nodes t')"
    using add_all_fits [OF split_table_wf [OF wf lt], of m ?ns now fuel] m ne by auto
  have "set (all_nodes t) \<subseteq> set (all_nodes ?s) \<union> set ?ns"
    using ne by (cases "buckets t" rule: rev_cases) (auto simp: all_nodes_def split_table_def)
  then have "keeps_good now (all_nodes t) (all_nodes t')"
    using t'(5,6) unfolding keeps_good_def by blast
  with t' split ne show ?thesis by (simp add: split_bucket_with_def split_table_def Let_def)
qed

text \<open>
  The whole of \<open>bucket_node\<close>: with enough fuel it ends in a well-formed table that has the node,
  or in one where the node's bucket is full of nodes at least as good and cannot be split.
\<close>

definition add_node_result :: "instant \<Rightarrow> Node \<Rightarrow> RoutingTable \<Rightarrow> RoutingTable \<Rightarrow> bool" where
  "add_node_result now n t t' \<longleftrightarrow> rt_wf t' \<and> rt_node_id t' = rt_node_id t \<and>
     length (buckets t) \<le> length (buckets t') \<and> keeps_good now (all_nodes t) (all_nodes t') \<and>
     ((\<exists>n'\<in>set (all_nodes t'). handle n' = handle n \<and> status now n \<le> status now n') \<or>
      (let i = bucket_placement (same_bits t' n) (length (buckets t'))
       in \<not> can_split_bucket (length (buckets t')) i \<and>
          (\<forall>n'\<in>set (nodes (buckets t' ! i)). status now n \<le> status now n')))"

lemma bucket_node_correct:
  assumes "rt_wf t" and "MAX_BUCKETS - length (buckets t) < fuel"
    and "same_bits t n \<noteq> MAX_BUCKETS" and "status now n \<noteq> Bad"
  shows "\<exists>t'. bucket_node fuel now n (same_bits t n) t = Ok t' \<and> add_node_result now n t t'"
  using assms
proof (induction fuel arbitrary: t)
  case (Suc fuel)
  define i where "i = bucket_placement (same_bits t n) (length (buckets t))"
  let ?r = "bucket_add_node now n (buckets t ! i)"
  from Suc.prems(1) have ne: "buckets t \<noteq> []" by (simp add: rt_wf_def)
  show ?case
  proof (cases "fst ?r")
    case True
    with bucket_node_added [OF Suc.prems(1,3,4), of fuel] show ?thesis
      by (auto simp: add_node_result_def i_def)
  next
    case False
    note step = bucket_node_full [OF ne False [unfolded i_def], of fuel, folded i_def]
    show ?thesis
    proof (cases "can_split_bucket (length (buckets t)) i")
      case split: True
      from Suc.prems(1) have "length (buckets t) \<le> MAX_BUCKETS" by (simp add: rt_wf_def)
      with split ne have "length (buckets t) < MAX_BUCKETS"
        by (cases "length (buckets t) = MAX_BUCKETS") (auto simp: can_split_bucket_def)
      with Suc.prems(2) have less: "MAX_BUCKETS - Suc (length (buckets t)) < fuel" by linarith
      then obtain f where f: "fuel = Suc f" by (cases fuel) auto
      from split_bucket_ok [OF Suc.prems(1) split, of f now] obtain t2 where
        t2: "split_bucket_with (add_node_with (bucket_node fuel now) now) i t = Ok (True, t2)" "rt_wf t2"
          "rt_node_id t2 = rt_node_id t" "length (buckets t2) = Suc (length (buckets t))"
          "keeps_good now (all_nodes t) (all_nodes t2)"
        unfolding f by blast
      with less Suc.IH [of t2] Suc.prems(3,4) same_bits_cong [OF t2(3), of n] obtain t' where
        "bucket_node fuel now n (same_bits t n) t2 = Ok t'" "add_node_result now n t2 t'" by auto
      with step t2 show ?thesis by (auto simp: add_node_result_def intro: keeps_good_trans)
    next
      case no_split: False
      with step have "bucket_node (Suc fuel) now n (same_bits t n) t = Ok t"
        by (simp add: split_bucket_with_def)
      with no_split False Suc.prems bucket_add_node_fails [of now n "buckets t ! i"] show ?thesis
        by (simp add: add_node_result_def i_def Let_def)
    qed
  qed
qed simp

lemma add_node_result_refl_Bad:
  "rt_wf t \<Longrightarrow> status now n = Bad \<Longrightarrow> add_node now n t = Ok t"
  by (simp add: add_node_def add_node_with_def)

lemma add_node_ok:
  assumes "rt_wf t" and "same_bits t n \<noteq> MAX_BUCKETS" and "status now n \<noteq> Bad"
  shows "\<exists>t'. add_node now n t = Ok t' \<and> add_node_result now n t t'"
proof -
  from assms(1) have "buckets t \<noteq> []" by (simp add: rt_wf_def)
  then have "MAX_BUCKETS - length (buckets t) < MAX_BUCKETS" by simp
  from bucket_node_correct [OF assms(1) this assms(2,3)] assms show ?thesis
    by (simp add: add_node_def add_node_with_def same_bits_def)
qed

section \<open>Lookups\<close>

lemma bucket_index_placement:
  "buckets t \<noteq> [] \<Longrightarrow>
   bucket_index_for_node t (node_id n) = Some (bucket_placement (same_bits t n) (length (buckets t)))"
  by (simp add: bucket_index_for_node_def bucket_placement_def same_bits_def Let_def)

lemma pingable_placement:
  assumes "rt_wf t" and "i < length (buckets t)" and "n \<in> set (nodes (buckets t ! i))" and "is_pingable now n"
  shows "placed t i n"
  using assms pingable_responded [OF assms(4)] by (auto simp: rt_wf_def bucket_ok_def)

lemma find_node_mut_Some:
  assumes "find_node_mut now h t = Some (i, j)"
  shows "i < length (buckets t) \<and> j < length (nodes (buckets t ! i)) \<and>
    is_pingable now (nodes (buckets t ! i) ! j) \<and> handle (nodes (buckets t ! i) ! j) = h"
  using assms by (auto simp: find_node_mut_def bind_eq_Some_conv position_Some split: if_splits)

lemma find_node_mut_found:
  assumes wf: "rt_wf t" and n: "n \<in> set (all_nodes t)" "is_pingable now n"
  shows "find_node_mut now (handle n) t \<noteq> None"
proof -
  from n obtain i where i: "i < length (buckets t)" "n \<in> set (nodes (buckets t ! i))"
    by (auto simp: all_nodes_iff)
  from wf have "buckets t \<noteq> []" by (simp add: rt_wf_def)
  moreover from pingable_placement [OF wf i n(2)] have
    "bucket_placement (same_bits t n) (length (buckets t)) = i" by (simp add: placed_def)
  ultimately have "bucket_index_for_node t (h_id (handle n)) = Some i"
    using bucket_index_placement [of t n] by (simp add: node_id_def)
  moreover have "position (\<lambda>m. is_pingable now m \<and> handle m = handle n) (nodes (buckets t ! i)) \<noteq> None"
    using i n by (auto simp: position_None)
  ultimately show ?thesis using i by (auto simp: find_node_mut_def)
qed

lemma find_node_mut_iff:
  assumes "rt_wf t"
  shows "find_node_mut now h t \<noteq> None \<longleftrightarrow> (\<exists>n\<in>set (all_nodes t). is_pingable now n \<and> handle n = h)"
proof
  assume "find_node_mut now h t \<noteq> None"
  then obtain i j where "find_node_mut now h t = Some (i, j)" by auto
  from find_node_mut_Some [OF this] show "\<exists>n\<in>set (all_nodes t). is_pingable now n \<and> handle n = h"
    by (auto simp: all_nodes_iff intro!: bexI [of _ "nodes (buckets t ! i) ! j"] exI [of _ i])
qed (use find_node_mut_found [OF assms] in blast)

lemma with_node_mut_wf:
  assumes wf: "rt_wf t" and f: "\<And>n. handle (f n) = handle n" "\<And>n. responded (f n) = responded n"
  shows "rt_wf (with_node_mut now h f t)"
proof (cases "find_node_mut now h t")
  case (Some ij)
  then obtain i j where ij: "find_node_mut now h t = Some (i, j)" by (cases ij) simp
  note found = find_node_mut_Some [OF ij]
  let ?b = "buckets t ! i"
  from wf found have ok: "bucket_ok (placed t i) ?b" by (simp add: rt_wf_def)
  then have size: "length (nodes ?b) = MAX_BUCKET_SIZE"
    and old: "\<And>k l. k < l \<Longrightarrow> l < MAX_BUCKET_SIZE \<Longrightarrow> responded (nodes ?b ! l) \<Longrightarrow>
      handle (nodes ?b ! k) \<noteq> handle (nodes ?b ! l)"
    by (auto simp: bucket_ok_def)
  have "bucket_ok (placed t i) (?b\<lparr>nodes := (nodes ?b)[j := f (nodes ?b ! j)]\<rparr>)"
  proof (rule bucket_ok_update [OF ok])
    have "placed t i (nodes ?b ! j)" using pingable_placement [OF wf] found by (metis nth_mem)
    then show "placed t i (f (nodes ?b ! j))" by (simp add: placed_def same_bits_def node_id_def f)
    show "handle (nodes ?b ! k) \<noteq> handle (f (nodes ?b ! j))" if "k < j" for k
      using old [of k j] that found size pingable_responded f by auto
    show "handle (nodes ?b ! k) \<noteq> handle (f (nodes ?b ! j))"
      if "j < k" "k < length (nodes ?b)" "responded (nodes ?b ! k)" for k
      using old [of j k] that size f by metis
  qed (use found in simp)
  with wf found ij show ?thesis by (simp add: with_node_mut_def Let_def rt_wf_update)
qed (simp add: with_node_mut_def wf)

text \<open>The item the iterator over the buckets yields at each position.\<close>

lemma buckets_skip_next_at:
  "i + n \<le> MAX_BUCKETS \<Longrightarrow>
   buckets_skip_next n \<lparr>bs_buckets = bs, bs_index = i\<rparr> = fst (buckets_next \<lparr>bs_buckets = bs, bs_index = i + n\<rparr>)"
proof (induction n arbitrary: i)
  case (Suc n)
  then have "\<exists>c. buckets_next \<lparr>bs_buckets = bs, bs_index = i\<rparr> = (Some c, \<lparr>bs_buckets = bs, bs_index = Suc i\<rparr>)"
    by (auto simp: buckets_next_def)
  with Suc.IH [of "Suc i"] Suc.prems show ?case by auto
qed simp

section \<open>Reachable tables\<close>

text \<open>
  The tables the node can get to, by adding nodes and by recording requests to and from the nodes
  it has.
\<close>

inductive table_step :: "RoutingTable \<Rightarrow> RoutingTable \<Rightarrow> bool" where
  step_add: "sha_wf (node_id n) \<Longrightarrow> add_node now n t = Ok t' \<Longrightarrow> table_step t t'"
| step_local: "table_step t (with_node_mut now h (local_request now') t)"
| step_remote: "table_step t (with_node_mut now h (remote_request now') t)"

lemma add_node_wf:
  assumes "rt_wf t" and "add_node now n t = Ok t'"
  shows "rt_wf t'"
proof (cases "status now n = Bad \<or> same_bits t n = MAX_BUCKETS")
  case True
  with assms show ?thesis
    by (auto simp: add_node_def add_node_with_def same_bits_def Let_def split: if_splits)
next
  case False
  with add_node_ok [OF assms(1), of n now] assms show ?thesis by (auto simp: add_node_result_def)
qed

lemma table_step_wf: "table_step t t' \<Longrightarrow> rt_wf t \<Longrightarrow> rt_wf t'"
proof (induction rule: table_step.induct)
  case (step_local t now h now')
  then show ?case by (intro with_node_mut_wf) (auto simp: local_request_def Let_def)
next
  case (step_remote t now h now')
  then show ?case by (intro with_node_mut_wf) (auto simp: remote_request_def)
qed (rule add_node_wf)

text \<open>A table with one node.\<close>

lemma rt_wf_one:
  assumes "sha_wf nid" and "leading_bit_count nid (node_id n) \<noteq> MAX_BUCKETS"
  shows "rt_wf \<lparr>buckets = [snd (bucket_add_node now n bucket_new)], rt_node_id = nid\<rparr>"
proof -
  let ?t = "routing_table_new nid"
  have "placed ?t 0 n"
    using assms(2) by (simp add: placed_def same_bits_def routing_table_new_def bucket_placement_def Let_def)
  from bucket_add_node_ok [where P = "placed ?t 0", OF bucket_ok_new this, of now] rt_wf_new [OF assms(1)]
  have "rt_wf (?t\<lparr>buckets := (buckets ?t)[0 := snd (bucket_add_node now n bucket_new)]\<rparr>)"
    by (intro rt_wf_update) (simp_all add: routing_table_new_def)
  then show ?thesis by (simp add: routing_table_new_def)
qed

definition sample_node :: Node where
  "sample_node = as_good 5 (0x80 # replicate 19 0) (SockV4 \<lparr>v4_ip = Ipv4Addr 1 2 3 4, v4_port = 5\<rparr>)"

definition sample_table :: RoutingTable where
  "sample_table = \<lparr>buckets = [snd (bucket_add_node 5 sample_node bucket_new)], rt_node_id = replicate 20 0\<rparr>"

lemma sample_table_wf: "rt_wf sample_table"
proof -
  have "leading_bit_count (replicate 20 0) (node_id sample_node) \<noteq> MAX_BUCKETS" by code_simp
  then show ?thesis unfolding sample_table_def by (intro rt_wf_one) (simp_all add: sha_wf_def SHA_HASH_LEN_def)
qed

lemma sample_node_status: "status 5 sample_node = Good"
  unfolding sample_node_def by (rule status_as_good)

lemma sample_table_nodes:
  "nodes (last (buckets sample_table)) = sample_node # replicate 7 (as_bad (replicate 20 0)
     (SockV4 \<lparr>v4_ip = Ipv4Addr 127 0 0 1, v4_port = 0\<rparr>))"
proof -
  let ?b = "as_bad (replicate 20 0) (SockV4 \<lparr>v4_ip = Ipv4Addr 127 0 0 1, v4_port = 0\<rparr>)"
  have new: "bucket_new = \<lparr>nodes = ?b # replicate 7 ?b\<rparr>"
    by (simp add: bucket_new_def MAX_BUCKET_SIZE_def SHA_HASH_LEN_def Let_def eval_nat_numeral)
  have "position (\<lambda>n. node_eq n sample_node) (nodes bucket_new) = None"
    by (auto simp: position_None new node_eq_def sample_node_def as_good_def as_bad_def simp del: position.simps)
  then have "bucket_add_node 5 sample_node bucket_new = (True, \<lparr>nodes = sample_node # replicate 7 ?b\<rparr>)"
    by (simp add: bucket_add_node_def sample_node_status) (simp add: new)
  then show ?thesis by (simp add: sample_table_def)
qed

section \<open>Properties\<close>

text \<open>
  C6. Adding a node to the routing table always ends without a panic in a well-formed table
  (between one and 160 buckets, of eight slots each, every node in the bucket its common prefix
  with the own id names) that still has every good node of the old one. A node that is bad or has
  the own id leaves the table as it is. Every other node is in the new table, at its status or a
  better one, unless its bucket is full of nodes at least as good and cannot be split.
\<close>

theorem add_node_correct:
  assumes "rt_wf t" and "sha_wf (node_id n)"
  shows "\<exists>t'. add_node now n t = Ok t' \<and> rt_wf t' \<and> keeps_good now (all_nodes t) (all_nodes t') \<and>
    (if status now n = Bad \<or> node_id n = rt_node_id t then t' = t
     else (\<exists>n'\<in>set (all_nodes t'). handle n' = handle n \<and> status now n \<le> status now n') \<or>
       (let i = bucket_placement (same_bits t' n) (length (buckets t'))
        in \<not> can_split_bucket (length (buckets t')) i \<and>
           (\<forall>n'\<in>set (nodes (buckets t' ! i)). status now n \<le> status now n')))"
proof -
  have own: "same_bits t n = MAX_BUCKETS \<longleftrightarrow> node_id n = rt_node_id t"
    using assms leading_bit_spec [of "rt_node_id t" "node_id n"]
    by (auto simp: same_bits_def rt_wf_def sha_wf_def MAX_BUCKETS_def)
  show ?thesis
  proof (cases "status now n = Bad \<or> node_id n = rt_node_id t")
    case True
    then have "add_node now n t = Ok t"
      using own by (auto simp: add_node_def add_node_with_def same_bits_def)
    with True assms show ?thesis by simp
  next
    case False
    with own add_node_ok [OF assms(1), of n now] show ?thesis
      unfolding add_node_result_def by (metis (no_types, lifting))
  qed
qed

theorem add_node_correct_witness:
  "\<exists>t'. add_node 5 (as_good 5 (1 # replicate 19 0) (SockV4 \<lparr>v4_ip = Ipv4Addr 1 2 3 4, v4_port = 5\<rparr>))
      (routing_table_new (replicate 20 0)) = Ok t' \<and> rt_wf t'"
proof -
  let ?n = "as_good 5 (1 # replicate 19 0) (SockV4 \<lparr>v4_ip = Ipv4Addr 1 2 3 4, v4_port = 5\<rparr>)"
  have "rt_wf (routing_table_new (replicate 20 0))"
    by (rule rt_wf_new) (simp add: sha_wf_def SHA_HASH_LEN_def)
  moreover have "sha_wf (node_id ?n)"
    by (simp add: node_id_def as_good_def sha_wf_def SHA_HASH_LEN_def)
  ultimately show ?thesis using add_node_correct [of "routing_table_new (replicate 20 0)" ?n 5] by blast
qed

text \<open>
  C21. Every table a new one can be turned into by adding nodes and recording requests, in any
  order and at any times, is well-formed.
\<close>

theorem table_reachable_wf:
  assumes "sha_wf nid" and "table_step\<^sup>*\<^sup>* (routing_table_new nid) t"
  shows "rt_wf t"
  using assms(2) by (induction rule: rtranclp_induct) (auto intro: rt_wf_new assms(1) table_step_wf)

theorem table_reachable_wf_witness:
  "rt_wf (with_node_mut 7 \<lparr>h_id = replicate 20 0, h_addr = SockV4 \<lparr>v4_ip = Ipv4Addr 1 2 3 4, v4_port = 5\<rparr>\<rparr>
     (remote_request 7) (routing_table_new (replicate 20 0)))"
  by (rule table_reachable_wf [of "replicate 20 0"])
    (auto simp: sha_wf_def SHA_HASH_LEN_def intro: step_remote)

text \<open>
  C27. A lookup of a mutable node succeeds exactly when a node with that id and address that is
  good or questionable is somewhere in the table, and then gives the position of such a node.
\<close>

theorem find_node_mut_correct:
  assumes "rt_wf t"
  shows "(case find_node_mut now h t of
       Some (i, j) \<Rightarrow> i < length (buckets t) \<and> j < length (nodes (buckets t ! i)) \<and>
         is_pingable now (nodes (buckets t ! i) ! j) \<and> handle (nodes (buckets t ! i) ! j) = h
     | None \<Rightarrow> \<not> (\<exists>n\<in>set (all_nodes t). is_pingable now n \<and> handle n = h))"
  using find_node_mut_iff [OF assms, of now h] find_node_mut_Some [of now h t]
  by (cases "find_node_mut now h t") auto

theorem find_node_mut_correct_witness:
  "find_node_mut 5 (handle sample_node) sample_table \<noteq> None"
proof -
  have "sample_node \<in> set (all_nodes sample_table)"
    using sample_table_nodes by (auto simp: all_nodes_def sample_table_def)
  with find_node_mut_correct [OF sample_table_wf, of 5 "handle sample_node"] sample_node_status show ?thesis
    by (cases "find_node_mut 5 (handle sample_node) sample_table") (auto simp: is_pingable_iff)
qed

text \<open>
  C37. The lookup \<open>find_node\<close> never finds a node of the last bucket while the table has fewer than
  160 buckets, although that bucket holds all nodes whose own bucket does not exist yet: for a
  bucket that has not been created the iterator yields \<open>Empty\<close> and not the end, so the branch that
  turns to the assorted bucket is not taken. \<open>find_node_mut\<close> finds every one of these nodes.
\<close>

theorem find_node_misses_assorted:
  assumes "rt_wf t" and "length (buckets t) < MAX_BUCKETS"
    and "n \<in> set (nodes (last (buckets t)))" and "is_pingable now n"
  shows "find_node now n t = None \<and> find_node_mut now (handle n) t \<noteq> None"
proof -
  let ?L = "length (buckets t)"
  from assms(1) have ne: "buckets t \<noteq> []" by (simp add: rt_wf_def)
  then have n: "n \<in> set (nodes (buckets t ! (?L - 1)))" using assms(3) by (simp add: last_conv_nth)
  from pingable_placement [OF assms(1) _ n assms(4)] ne have
    "placed t (?L - 1) n" by simp
  then have k: "?L - 1 \<le> same_bits t n" "same_bits t n < MAX_BUCKETS"
    using same_bits_le [OF assms(1), of n]
    by (auto simp: placed_def bucket_placement_def Let_def split: if_splits)
  have "buckets_skip_next (same_bits t n) (buckets_iter_new (buckets t)) = Some EmptyBucket"
    using k assms(2) buckets_skip_next_at [of 0 "same_bits t n" "buckets t"]
    by (auto simp: buckets_iter_new_def buckets_next_def)
  then have "find_node now n t = None" by (simp add: find_node_def same_bits_def)
  moreover have "n \<in> set (all_nodes t)"
    using assms(3) ne by (auto simp: all_nodes_def)
  ultimately show ?thesis using find_node_mut_found [OF assms(1) _ assms(4)] by blast
qed

theorem find_node_misses_assorted_witness:
  "find_node 5 sample_node sample_table = None \<and> find_node_mut 5 (handle sample_node) sample_table \<noteq> None"
proof -
  have "length (buckets sample_table) < MAX_BUCKETS"
    by (simp add: sample_table_def MAX_BUCKETS_def SHA_HASH_LEN_def)
  from find_node_misses_assorted [OF sample_table_wf this, of sample_node 5] show ?thesis
    by (simp add: sample_table_nodes is_pingable_iff sample_node_status)
qed

end
