(* ===== verification/Dht_Closest.thy ===== *)
theory Dht_Closest
  imports Dht_Table "HOL-Library.Multiset"
begin

text \<open>
  The iterator over the nodes closest to an id, \<open>ClosestNodes\<close> of
  \<open>btp-dht/src/routing/table.rs\<close>. It visits the buckets in order of their distance to the bucket
  of the id, and mixes in the nodes of the last (assorted) bucket where their own buckets would be.
\<close>

definition index_is_in_bounds :: "nat \<Rightarrow> nat option \<Rightarrow> bool" where
  "index_is_in_bounds len checked_index = (case checked_index of Some index \<Rightarrow> index < len | None \<Rightarrow> False)"

definition checked_sub :: "nat \<Rightarrow> nat \<Rightarrow> nat option" where
  "checked_sub a b = (if b \<le> a then Some (a - b) else None)"

text \<open>\<open>checked_add\<close> does not overflow on indices.\<close>

definition checked_add :: "nat \<Rightarrow> nat \<Rightarrow> nat option" where
  "checked_add a b = Some (a + b)"

definition next_bucket_index :: "nat \<Rightarrow> nat \<Rightarrow> nat \<Rightarrow> nat option" where
  "next_bucket_index num_buckets start_index curr_index =
     (if curr_index = start_index then
        let right_index = checked_add start_index 1;
            left_index = checked_sub start_index 1
        in if index_is_in_bounds num_buckets right_index then right_index
           else if index_is_in_bounds num_buckets left_index then left_index else None
      else if curr_index > start_index then
        let offset = curr_index - start_index;
            left_index = checked_sub start_index offset;
            right_index = checked_add curr_index 1
        in if index_is_in_bounds num_buckets left_index then left_index
           else if index_is_in_bounds num_buckets right_index then right_index else None
      else
        let offset = (start_index - curr_index) + 1;
            right_index = checked_add start_index offset;
            left_index = checked_sub curr_index 1
        in if index_is_in_bounds num_buckets right_index then right_index
           else if index_is_in_bounds num_buckets left_index then left_index else None)"

section \<open>The order in which buckets are visited\<close>

text \<open>The indices that are still to be visited after \<open>c\<close>, starting from \<open>s\<close>.\<close>

definition remaining :: "nat \<Rightarrow> nat \<Rightarrow> nat \<Rightarrow> nat set" where
  "remaining N s c =
     (if c = s then {i. i < N \<and> i \<noteq> s}
      else if c > s then {i. i < N \<and> (c < i \<or> i + c \<le> 2 * s)}
      else {i. i < N \<and> (i < c \<or> 2 * s < i + c)})"

lemma finite_remaining [simp]: "finite (remaining N s c)"
  by (simp add: remaining_def)

lemma next_bucket_index_None: "next_bucket_index N s c = None \<Longrightarrow> s \<le> N \<Longrightarrow> remaining N s c = {}"
  by (auto simp: next_bucket_index_def remaining_def index_is_in_bounds_def checked_sub_def
      checked_add_def Let_def split: if_splits)

lemma next_bucket_index_Some:
  "next_bucket_index N s c = Some c' \<Longrightarrow> remaining N s c = insert c' (remaining N s c') \<and> c' \<notin> remaining N s c' \<and> c' < N"
  by (auto simp: next_bucket_index_def remaining_def index_is_in_bounds_def checked_sub_def
      checked_add_def Let_def split: if_splits)

lemma next_bucket_index_card:
  "next_bucket_index N s c = Some c' \<Longrightarrow> card (remaining N s c') < card (remaining N s c)"
  by (drule next_bucket_index_Some) simp

function visit_from :: "nat \<Rightarrow> nat \<Rightarrow> nat \<Rightarrow> nat list" where
  "visit_from N s c =
     (case next_bucket_index N s c of None \<Rightarrow> [] | Some c' \<Rightarrow> c' # visit_from N s c')"
  by pat_completeness auto
termination
  by (relation "measure (\<lambda>(N, s, c). card (remaining N s c))") (auto simp: next_bucket_index_card)

declare visit_from.simps [simp del]

lemma visit_from_remaining:
  "s \<le> N \<Longrightarrow> set (visit_from N s c) = remaining N s c \<and> distinct (visit_from N s c)"
proof (induction N s c rule: visit_from.induct)
  case (1 N s c)
  show ?case
  proof (cases "next_bucket_index N s c")
    case None
    with "1.prems" show ?thesis by (simp add: visit_from.simps [of N s c] next_bucket_index_None)
  next
    case (Some c')
    with 1 next_bucket_index_Some [OF Some] show ?thesis
      by (simp add: visit_from.simps [of N s c])
  qed
qed

section \<open>The iterator\<close>

definition is_good_node :: "instant \<Rightarrow> Node \<Rightarrow> bool" where
  "is_good_node now node \<longleftrightarrow> (let st = status now node in st = Good \<or> st = Questionable)"

definition good_node_filter :: "instant \<Rightarrow> Node list \<Rightarrow> Node list" where
  "good_node_filter now ns = filter (is_good_node now) ns"

definition bucket_iterator :: "instant \<Rightarrow> Bucket list \<Rightarrow> nat \<Rightarrow> Node list option" where
  "bucket_iterator now bs index =
     (let sorted = (if length bs = MAX_BUCKETS then bs else take (length bs - 1) bs)
      in if index < length sorted then Some (good_node_filter now (nodes (sorted ! index))) else None)"

text \<open>The last bucket's nodes with the index of the bucket they belong to and a mark.\<close>

definition precompute_assorted_nodes :: "Bucket list \<Rightarrow> ShaHash \<Rightarrow> (nat \<times> Node \<times> bool) list option" where
  "precompute_assorted_nodes bs self_node_id =
     (if length bs = MAX_BUCKETS then None
      else let assorted = nodes (bs ! (length bs - 1))
           in case assorted of
                [] \<Rightarrow> None
              | init # _ \<Rightarrow>
                  Some (foldl (\<lambda>arr (index, node).
                           arr[index := (leading_bit_count self_node_id (node_id node), node, False)])
                         (replicate MAX_BUCKET_SIZE (0, init, True))
                         (zip [0..<length assorted] assorted)))"

record ClosestNodes =
  cn_buckets :: "Bucket list"
  current_iter :: "Node list option"
  current_index :: nat
  start_index :: nat
  assorted_nodes :: "(nat \<times> Node \<times> bool) list option"

definition closest_new :: "instant \<Rightarrow> Bucket list \<Rightarrow> ShaHash \<Rightarrow> ShaHash \<Rightarrow> ClosestNodes" where
  "closest_new now bs self_node_id other_node_id =
     (let start = leading_bit_count self_node_id other_node_id
      in \<lparr>cn_buckets = bs, current_iter = bucket_iterator now bs start, current_index = start,
          start_index = start, assorted_nodes = precompute_assorted_nodes bs self_node_id\<rparr>)"

definition take_iter :: "ClosestNodes \<Rightarrow> (Node \<times> ClosestNodes) option" where
  "take_iter it =
     (case current_iter it of
        Some (n # ns) \<Rightarrow> Some (n, it\<lparr>current_iter := Some ns\<rparr>)
      | _ \<Rightarrow> None)"

definition take_assorted :: "instant \<Rightarrow> ClosestNodes \<Rightarrow> (Node \<times> ClosestNodes) option" where
  "take_assorted now it =
     (case assorted_nodes it of
        None \<Rightarrow> None
      | Some arr \<Rightarrow>
          (case position (\<lambda>(i, n, used). is_good_node now n \<and> i = current_index it \<and> \<not> used) arr of
             None \<Rightarrow> None
           | Some k \<Rightarrow>
               let (i, n, _) = arr ! k
               in Some (n, it\<lparr>assorted_nodes := Some (arr[k := (i, n, True)])\<rparr>)))"

function closest_next :: "instant \<Rightarrow> ClosestNodes \<Rightarrow> Node option \<times> ClosestNodes" where
  "closest_next now it =
     (case take_iter it of
        Some (n, it') \<Rightarrow> (Some n, it')
      | None \<Rightarrow>
          (case take_assorted now it of
             Some (n, it') \<Rightarrow> (Some n, it')
           | None \<Rightarrow>
               (case next_bucket_index MAX_BUCKETS (start_index it) (current_index it) of
                  Some new_index \<Rightarrow>
                    closest_next now (it\<lparr>current_index := new_index,
                                         current_iter := bucket_iterator now (cn_buckets it) new_index\<rparr>)
                | None \<Rightarrow> (None, it))))"
  by pat_completeness auto
termination
  by (relation "measure (\<lambda>(now, it). card (remaining MAX_BUCKETS (start_index it) (current_index it)))")
    (auto simp: next_bucket_index_card)

declare closest_next.simps [simp del]

section \<open>What the iterator yields\<close>

lemma is_good_node_eq [simp]: "is_good_node = is_pingable"
  by (rule ext)+ (simp add: is_good_node_def is_pingable_def)

text \<open>The assorted nodes of bucket \<open>c\<close> that have not been handed out.\<close>

definition pending :: "instant \<Rightarrow> (nat \<times> Node \<times> bool) list option \<Rightarrow> nat \<Rightarrow> Node list" where
  "pending now arr c =
     (case arr of None \<Rightarrow> []
      | Some xs \<Rightarrow> map (fst \<circ> snd) (filter (\<lambda>(i, n, used). is_pingable now n \<and> i = c \<and> \<not> used) xs))"

definition opt_list :: "'a list option \<Rightarrow> 'a list" where
  "opt_list xs = (case xs of Some ys \<Rightarrow> ys | None \<Rightarrow> [])"

definition yields :: "instant \<Rightarrow> ClosestNodes \<Rightarrow> Node list" where
  "yields now it =
     opt_list (current_iter it) @ pending now (assorted_nodes it) (current_index it) @
     concat (map (\<lambda>c. opt_list (bucket_iterator now (cn_buckets it) c) @ pending now (assorted_nodes it) c)
               (visit_from MAX_BUCKETS (start_index it) (current_index it)))"

lemma not_remaining_self: "c \<notin> remaining N s c"
  by (simp add: remaining_def)

lemma visit_from_subset: "set (visit_from N s c) \<subseteq> remaining N s c"
proof (induction N s c rule: visit_from.induct)
  case (1 N s c)
  then show ?case
    by (cases "next_bucket_index N s c")
      (auto simp: visit_from.simps [of N s c] dest!: next_bucket_index_Some)
qed

lemma filter_update_first:
  assumes "position p xs = Some k" and "\<not> p y"
  shows "filter p xs = xs ! k # filter p (xs[k := y])"
  using assms
proof (induction xs arbitrary: k)
  case (Cons x xs)
  show ?case
  proof (cases "p x")
    case False
    with Cons.prems obtain k' where "position p xs = Some k'" "k = Suc k'" by auto
    with Cons.IH [of k'] Cons.prems(2) False show ?thesis by simp
  qed (use Cons.prems in auto)
qed simp

lemma filter_update_other:
  "\<not> p (xs ! k) \<Longrightarrow> \<not> p y \<Longrightarrow> filter p (xs[k := y]) = filter p xs"
proof (induction xs arbitrary: k)
  case (Cons x xs)
  then show ?case by (cases k) auto
qed simp

lemma take_assorted_pending:
  assumes "take_assorted now it = Some (n, it')"
  shows "pending now (assorted_nodes it) (current_index it) = n # pending now (assorted_nodes it') (current_index it)"
    and "c \<noteq> current_index it \<Longrightarrow> pending now (assorted_nodes it') c = pending now (assorted_nodes it) c"
    and "\<exists>arr. it' = it\<lparr>assorted_nodes := arr\<rparr>"
proof -
  let ?p = "\<lambda>c (i, n, used). is_pingable now n \<and> i = c \<and> \<not> used"
  from assms obtain arr k where arr: "assorted_nodes it = Some arr"
    and k: "position (?p (current_index it)) arr = Some k"
    by (auto simp: take_assorted_def split: option.splits)
  from k have pk: "?p (current_index it) (arr ! k)" by (simp add: position_Some)
  obtain i m u where e: "arr ! k = (i, m, u)" by (cases "arr ! k")
  with pk have i: "i = current_index it" by simp
  from assms arr k e have it': "n = m" "it' = it\<lparr>assorted_nodes := Some (arr[k := (i, m, True)])\<rparr>"
    by (auto simp: take_assorted_def)
  show "\<exists>arr. it' = it\<lparr>assorted_nodes := arr\<rparr>" using it'(2) by blast
  show "pending now (assorted_nodes it) (current_index it) = n # pending now (assorted_nodes it') (current_index it)"
    using filter_update_first [OF k, of "(i, m, True)"] e it' arr by (simp add: pending_def)
  show "pending now (assorted_nodes it') c = pending now (assorted_nodes it) c" if "c \<noteq> current_index it"
    using filter_update_other [of "?p c" arr k "(i, m, True)"] e i that it' arr by (simp add: pending_def)
qed

lemma take_assorted_None:
  "take_assorted now it = None \<Longrightarrow> pending now (assorted_nodes it) (current_index it) = []"
  by (auto simp: take_assorted_def pending_def position_None filter_empty_conv Let_def split: option.splits prod.splits)

lemma take_iter_None: "take_iter it = None \<Longrightarrow> opt_list (current_iter it) = []"
  by (auto simp: take_iter_def opt_list_def split: option.splits list.splits)

lemma take_iter_Some:
  "take_iter it = Some (n, it') \<Longrightarrow> \<exists>ns. current_iter it = Some (n # ns) \<and> it' = it\<lparr>current_iter := Some ns\<rparr>"
  by (auto simp: take_iter_def split: option.splits list.splits)

lemma closest_next_yields:
  "(case closest_next now it of (Some n, it') \<Rightarrow> yields now it = n # yields now it' | (None, _) \<Rightarrow> yields now it = [])"
proof (induction now it rule: closest_next.induct)
  case (1 now it)
  show ?case
  proof (cases "take_iter it")
    case (Some p)
    with take_iter_Some [of it "fst p" "snd p"] show ?thesis
      by (cases p) (auto simp: closest_next.simps [of now it] yields_def opt_list_def)
  next
    case None
    note iter = this
    show ?thesis
    proof (cases "take_assorted now it")
      case (Some p)
      then obtain n it' where p: "take_assorted now it = Some (n, it')" by (cases p) simp
      note pend = take_assorted_pending [OF p]
      from pend(3) obtain arr where it': "it' = it\<lparr>assorted_nodes := arr\<rparr>" by blast
      have "pending now arr c = pending now (assorted_nodes it) c"
        if "c \<in> set (visit_from MAX_BUCKETS (start_index it) (current_index it))" for c
        using pend(2) [of c] that visit_from_subset not_remaining_self it' by fastforce
      then have "yields now it = n # yields now it'"
        using pend(1) it' take_iter_None [OF iter] by (simp add: yields_def cong: map_cong)
      with iter p show ?thesis by (simp add: closest_next.simps [of now it])
    next
      case none: None
      show ?thesis
      proof (cases "next_bucket_index MAX_BUCKETS (start_index it) (current_index it)")
        case None
        with iter none show ?thesis
          by (simp add: closest_next.simps [of now it] yields_def take_iter_None take_assorted_None
              visit_from.simps [of MAX_BUCKETS])
      next
        case (Some c)
        let ?it = "it\<lparr>current_index := c, current_iter := bucket_iterator now (cn_buckets it) c\<rparr>"
        have "yields now it = yields now ?it"
          using iter none Some
          by (simp add: yields_def take_iter_None take_assorted_None
              visit_from.simps [of MAX_BUCKETS "start_index it" "current_index it"])
        moreover have "closest_next now it = closest_next now ?it"
          using iter none Some by (simp add: closest_next.simps [of now it])
        ultimately show ?thesis using 1 [OF iter none Some] by (simp only:)
      qed
    qed
  qed
qed

lemma closest_next_decreases:
  "(Some n, it') = closest_next now it \<Longrightarrow> length (yields now it') < length (yields now it)"
  using closest_next_yields [of now it] by (auto split: prod.splits)

text \<open>The nodes of the iterator, in order.\<close>

function closest_collect :: "instant \<Rightarrow> ClosestNodes \<Rightarrow> Node list" where
  "closest_collect now it =
     (case closest_next now it of (None, _) \<Rightarrow> [] | (Some n, it') \<Rightarrow> n # closest_collect now it')"
  by pat_completeness auto
termination
  by (relation "measure (\<lambda>(now, it). length (yields now it))") (auto dest: closest_next_decreases)

declare closest_collect.simps [simp del]

lemma closest_collect_yields: "closest_collect now it = yields now it"
proof (induction now it rule: closest_collect.induct)
  case (1 now it)
  then show ?case
    using closest_next_yields [of now it]
    by (subst closest_collect.simps) (auto split: prod.splits option.splits)
qed

definition closest_nodes :: "instant \<Rightarrow> RoutingTable \<Rightarrow> ShaHash \<Rightarrow> Node list" where
  "closest_nodes now t nid = closest_collect now (closest_new now (buckets t) (rt_node_id t) nid)"

definition num_good_nodes :: "instant \<Rightarrow> RoutingTable \<Rightarrow> nat" where
  "num_good_nodes now t = length (filter (\<lambda>n. status now n = Good) (closest_nodes now t (rt_node_id t)))"

definition num_questionable_nodes :: "instant \<Rightarrow> RoutingTable \<Rightarrow> nat" where
  "num_questionable_nodes now t =
     length (filter (\<lambda>n. status now n = Questionable) (closest_nodes now t (rt_node_id t)))"

section \<open>Every node once\<close>

lemma precompute_assorted:
  assumes "bs \<noteq> []" and "length (nodes (last bs)) = MAX_BUCKET_SIZE" and "length bs \<noteq> MAX_BUCKETS"
  shows "precompute_assorted_nodes bs self =
    Some (map (\<lambda>n. (leading_bit_count self (node_id n), n, False)) (nodes (last bs)))"
proof -
  let ?f = "\<lambda>n. (leading_bit_count self (node_id n), n, False)"
  obtain m ns where ns: "nodes (last bs) = m # ns"
    using assms(2) by (cases "nodes (last bs)") (auto simp: MAX_BUCKET_SIZE_def)
  have "bs ! (length bs - 1) = last bs" using assms(1) by (simp add: last_conv_nth)
  then show ?thesis
    using assms(2,3) ns foldl_array [of "replicate MAX_BUCKET_SIZE (0, m, True)" 0 "nodes (last bs)" ?f]
    by (simp add: precompute_assorted_nodes_def)
qed

lemma mset_concat_sum: "distinct cs \<Longrightarrow> mset (concat (map f cs)) = (\<Sum>c\<in>set cs. mset (f c))"
  by (induction cs) auto

lemma mset_concat_nth: "mset (concat (map f bs)) = (\<Sum>i<length bs. mset (f (bs ! i)))"
proof (induction bs rule: rev_induct)
  case (snoc b bs)
  then show ?case by (simp add: nth_append)
qed simp

lemma sum_filter_by_key:
  "finite K \<Longrightarrow>
   (\<Sum>c\<in>K. mset (filter (\<lambda>n. p n \<and> k n = c) ns)) = mset (filter (\<lambda>n. p n \<and> k n \<in> K) ns)"
proof (induction ns)
  case (Cons n ns)
  have "(\<Sum>c\<in>K. mset (filter (\<lambda>n. p n \<and> k n = c) (n # ns))) =
      (\<Sum>c\<in>K. (if p n \<and> k n = c then {#n#} else {#}) + mset (filter (\<lambda>n. p n \<and> k n = c) ns))"
    by (rule sum.cong) auto
  also have "\<dots> = (\<Sum>c\<in>K. if p n \<and> k n = c then {#n#} else {#}) + mset (filter (\<lambda>n. p n \<and> k n \<in> K) ns)"
    using Cons by (simp add: sum.distrib)
  also have "(\<Sum>c\<in>K. if p n \<and> k n = c then {#n#} else {#}) = (if p n \<and> k n \<in> K then {#n#} else {#})"
    using Cons.prems by (cases "p n") (simp_all add: sum.delta')
  finally show ?case by simp
qed simp

lemma bucket_iterator_list:
  "bs \<noteq> [] \<Longrightarrow> opt_list (bucket_iterator now bs c) =
     (if c < (if length bs = MAX_BUCKETS then length bs else length bs - 1)
      then filter (is_pingable now) (nodes (bs ! c)) else [])"
  by (auto simp: bucket_iterator_def Let_def opt_list_def good_node_filter_def)

text \<open>The buckets in the order in which they are visited.\<close>

definition visits :: "nat \<Rightarrow> nat list" where
  "visits s = s # visit_from MAX_BUCKETS s s"

lemma visits_set:
  assumes "s \<le> MAX_BUCKETS"
  shows "set (visits s) = insert s {..<MAX_BUCKETS}" and "distinct (visits s)"
  using visit_from_remaining [OF assms, of s] not_remaining_self [of s]
  by (auto simp: visits_def remaining_def)

lemma closest_nodes_by_visits:
  fixes t nid
  defines "arr \<equiv> precompute_assorted_nodes (buckets t) (rt_node_id t)"
  shows "closest_nodes now t nid =
    concat (map (\<lambda>c. opt_list (bucket_iterator now (buckets t) c) @ pending now arr c)
      (visits (leading_bit_count (rt_node_id t) nid)))"
  by (simp add: closest_nodes_def closest_collect_yields yields_def closest_new_def visits_def arr_def Let_def)

lemma sum_sorted:
  assumes "m \<le> MAX_BUCKETS"
  shows "(\<Sum>c\<in>insert s {..<MAX_BUCKETS}. if c < m then f c else {#}) = (\<Sum>c<m. f c)"
proof -
  have "(\<Sum>c\<in>insert s {..<MAX_BUCKETS}. if c < m then f c else {#}) =
      (\<Sum>c\<in>insert s {..<MAX_BUCKETS} \<inter> {c. c < m}. f c)"
    by (simp add: sum.inter_filter [symmetric] Int_def)
  also have "insert s {..<MAX_BUCKETS} \<inter> {c. c < m} = {..<m}"
    using assms by auto
  finally show ?thesis .
qed

lemma pending_assorted:
  "pending now (Some (map (\<lambda>n. (k n, n, False)) ns)) c = filter (\<lambda>n. is_pingable now n \<and> k n = c) ns"
  by (simp add: pending_def filter_map comp_def)

lemma closest_nodes_mset:
  assumes wf: "rt_wf t"
  shows "mset (closest_nodes now t nid) = mset (filter (is_pingable now) (all_nodes t))"
proof -
  let ?bs = "buckets t" and ?L = "length (buckets t)"
  let ?s = "leading_bit_count (rt_node_id t) nid"
  let ?g = "\<lambda>c. mset (filter (is_pingable now) (nodes (?bs ! c)))"
  let ?arr = "precompute_assorted_nodes ?bs (rt_node_id t)"
  have s: "?s \<le> MAX_BUCKETS"
    using leading_bit_count_le [of "rt_node_id t" nid] wf
    by (simp add: rt_wf_def sha_wf_def MAX_BUCKETS_def)
  have ne: "?bs \<noteq> []" and le: "?L \<le> MAX_BUCKETS" using wf by (auto simp: rt_wf_def)
  have all: "mset (filter (is_pingable now) (all_nodes t)) = (\<Sum>c<?L. ?g c)"
    by (simp add: all_nodes_def filter_concat comp_def mset_concat_nth)
  have sum: "mset (closest_nodes now t nid) =
      (\<Sum>c\<in>insert ?s {..<MAX_BUCKETS}. mset (opt_list (bucket_iterator now ?bs c))) +
      (\<Sum>c\<in>insert ?s {..<MAX_BUCKETS}. mset (pending now ?arr c))"
    using visits_set [OF s]
    by (simp only: closest_nodes_by_visits mset_concat_sum mset_append sum.distrib)
  show ?thesis
  proof (cases "?L = MAX_BUCKETS")
    case True
    then have "pending now ?arr c = []" for c by (simp add: precompute_assorted_nodes_def pending_def)
    with True ne show ?thesis
      unfolding sum all by (simp add: bucket_iterator_list sum_sorted if_distrib [of mset] cong: if_cong)
  next
    case False
    let ?last = "nodes (last ?bs)"
    let ?k = "\<lambda>n. leading_bit_count (rt_node_id t) (node_id n)"
    have last: "last ?bs = ?bs ! (?L - 1)" using ne by (simp add: last_conv_nth)
    with wf ne have "length ?last = MAX_BUCKET_SIZE" by (simp add: rt_wf_def bucket_ok_def)
    then have arr: "?arr = Some (map (\<lambda>n. (?k n, n, False)) ?last)"
      using ne False by (intro precompute_assorted)
    have "?k n \<in> insert ?s {..<MAX_BUCKETS}" if "n \<in> set ?last" "is_pingable now n" for n
      using pingable_placement [OF wf, of "?L - 1" n now] that last ne same_bits_le [OF wf, of n]
      by (simp add: placed_def same_bits_def)
    then have "filter (\<lambda>n. is_pingable now n \<and> ?k n \<in> insert ?s {..<MAX_BUCKETS}) ?last = filter (is_pingable now) ?last"
      by (intro filter_cong) auto
    then have assorted: "(\<Sum>c\<in>insert ?s {..<MAX_BUCKETS}. mset (pending now ?arr c)) = ?g (?L - 1)"
      unfolding arr pending_assorted by (subst sum_filter_by_key) (simp_all add: last)
    have "(\<Sum>c\<in>insert ?s {..<MAX_BUCKETS}. mset (opt_list (bucket_iterator now ?bs c))) = (\<Sum>c<?L - 1. ?g c)"
      using ne False le by (simp add: bucket_iterator_list sum_sorted if_distrib [of mset] cong: if_cong)
    moreover have "(\<Sum>c<?L. ?g c) = (\<Sum>c<?L - 1. ?g c) + ?g (?L - 1)"
      using ne by (cases ?L) simp_all
    ultimately show ?thesis unfolding sum all assorted by simp
  qed
qed

section \<open>Shared bits\<close>

lemma leading_bit_count_unique:
  assumes "length a = length b" and "n \<le> length a * 8" and "\<forall>j<n. bit_at a j = bit_at b j"
    and "n < length a * 8 \<longrightarrow> bit_at a n \<noteq> bit_at b n"
  shows "leading_bit_count a b = n"
proof -
  let ?k = "leading_bit_count a b"
  from leading_bit_spec [OF assms(1)] have k: "?k \<le> length a * 8" "\<forall>j<?k. bit_at a j = bit_at b j"
    "?k < length a * 8 \<longrightarrow> bit_at a ?k \<noteq> bit_at b ?k" by auto
  show ?thesis
  proof (rule linorder_cases [of ?k n])
    assume "?k < n"
    with assms(2,3) k(3) show ?thesis by auto
  next
    assume "n < ?k"
    with assms(4) k(1,2) show ?thesis by auto
  qed
qed

text \<open>
  How close two ids are to each other, given how many bits each shares with the own id: the ids of
  a bucket before the target's share that many bits with the target, those of every bucket after
  it share as many as the target shares with the own id.
\<close>

lemma shared_bits:
  assumes len: "length own = length target" "length own = length x"
    and "leading_bit_count own x \<noteq> leading_bit_count own target"
  shows "leading_bit_count target x = min (leading_bit_count own x) (leading_bit_count own target)"
proof -
  let ?s = "leading_bit_count own target" and ?c = "leading_bit_count own x"
  note s = leading_bit_spec [OF len(1)] and c = leading_bit_spec [OF len(2)]
  show ?thesis
  proof (rule leading_bit_count_unique)
    show "\<forall>j<min ?c ?s. bit_at target j = bit_at x j" using s c by auto
    show "min ?c ?s < length target * 8 \<longrightarrow> bit_at target (min ?c ?s) \<noteq> bit_at x (min ?c ?s)"
      using s c assms by (cases "?c < ?s") (auto simp: min_def)
  qed (use s len in auto)
qed

section \<open>Properties\<close>

text \<open>
  C7. The iterator over the closest nodes ends, and it yields every good or questionable node of
  the table exactly once, whatever the target: those of the last, assorted bucket included.
\<close>

theorem closest_nodes_complete:
  assumes "rt_wf t"
  shows "mset (closest_nodes now t nid) = mset (filter (is_pingable now) (all_nodes t))"
  by (rule closest_nodes_mset [OF assms])

theorem closest_nodes_complete_witness:
  "closest_nodes 5 sample_table (replicate 20 7) = [sample_node]"
proof -
  have "all_nodes sample_table = nodes (last (buckets sample_table))"
    by (simp add: all_nodes_def sample_table_def)
  then have "filter (is_pingable 5) (all_nodes sample_table) = [sample_node]"
    by (simp add: sample_table_nodes is_pingable_iff sample_node_status)
  with closest_nodes_complete [OF sample_table_wf, of 5 "replicate 20 7"] show ?thesis by simp
qed

text \<open>
  The counters of good and of questionable nodes, which run over that iterator, are the
  numbers of good and of questionable nodes in the table.
\<close>

theorem node_counts_correct:
  assumes "rt_wf t"
  shows "num_good_nodes now t = length (filter (\<lambda>n. status now n = Good) (all_nodes t)) \<and>
    num_questionable_nodes now t = length (filter (\<lambda>n. status now n = Questionable) (all_nodes t))"
proof -
  have "length (filter (\<lambda>n. status now n = st) (closest_nodes now t nid)) =
      length (filter (\<lambda>n. status now n = st) (all_nodes t))" if "st \<noteq> Bad" for st nid
  proof -
    have "mset (filter (\<lambda>n. status now n = st) (closest_nodes now t nid)) =
        filter_mset (\<lambda>n. status now n = st) (mset (filter (is_pingable now) (all_nodes t)))"
      using closest_nodes_mset [OF assms] by simp
    also have "\<dots> = mset (filter (\<lambda>n. status now n = st) (all_nodes t))"
      using that by (simp add: filter_filter_mset is_pingable_iff) (metis (mono_tags, lifting) filter_mset_cong0)
    finally show ?thesis by (metis size_mset)
  qed
  then show ?thesis by (simp add: num_good_nodes_def num_questionable_nodes_def)
qed

theorem node_counts_correct_witness:
  "num_good_nodes 5 sample_table = 1"
proof -
  have "all_nodes sample_table = nodes (last (buckets sample_table))"
    by (simp add: all_nodes_def sample_table_def)
  then show ?thesis
    using node_counts_correct [OF sample_table_wf, of 5] by (simp add: sample_table_nodes sample_node_status)
qed

text \<open>
  C38. The iterator is not ordered by closeness to the target. When target and own id share \<open>s\<close>
  bits, it visits bucket \<open>s - 1\<close> before bucket \<open>s + 2\<close>, but every id of bucket \<open>s - 1\<close> shares only
  \<open>s - 1\<close> bits with the target and every id of bucket \<open>s + 2\<close> shares \<open>s\<close>.
\<close>

theorem closest_nodes_not_by_distance:
  assumes "sha_wf own" and "sha_wf target" and "sha_wf far" and "sha_wf near"
    and "leading_bit_count own target = s" and "0 < s" and "s + 2 < MAX_BUCKETS"
    and "leading_bit_count own far = s - 1" and "leading_bit_count own near = s + 2"
  shows "take 4 (visits s) = [s, s + 1, s - 1, s + 2] \<and>
    leading_bit_count target far = s - 1 \<and> leading_bit_count target near = s"
proof -
  have "next_bucket_index MAX_BUCKETS s s = Some (s + 1)" "next_bucket_index MAX_BUCKETS s (s + 1) = Some (s - 1)"
    "next_bucket_index MAX_BUCKETS s (s - 1) = Some (s + 2)"
    using assms(6,7) by (auto simp: next_bucket_index_def index_is_in_bounds_def checked_add_def checked_sub_def Let_def)
  then have "take 4 (visits s) = [s, s + 1, s - 1, s + 2]"
    by (simp add: visits_def visit_from.simps [of MAX_BUCKETS s s] visit_from.simps [of MAX_BUCKETS s "Suc s"]
        visit_from.simps [of MAX_BUCKETS s "s - Suc 0"])
  moreover have "leading_bit_count target far = s - 1" "leading_bit_count target near = s"
    using assms shared_bits [of own target far] shared_bits [of own target near] by (auto simp: sha_wf_def)
  ultimately show ?thesis by simp
qed

theorem closest_nodes_not_by_distance_witness:
  "take 4 (visits 1) = [1, 2, 0, 3] \<and>
   leading_bit_count (0x40 # replicate 19 0) (0x80 # replicate 19 0) = 0 \<and>
   leading_bit_count (0x40 # replicate 19 0) (0x10 # replicate 19 0) = 1"
proof -
  have "leading_bit_count (replicate 20 0) (0x40 # replicate 19 0) = 1"
    "leading_bit_count (replicate 20 0) (0x80 # replicate 19 0) = 0"
    "leading_bit_count (replicate 20 0) (0x10 # replicate 19 0) = 3" by code_simp+
  then show ?thesis
    using closest_nodes_not_by_distance
      [of "replicate 20 0" "0x40 # replicate 19 0" "0x80 # replicate 19 0" "0x10 # replicate 19 0" 1]
    by (simp add: sha_wf_def SHA_HASH_LEN_def MAX_BUCKETS_def)
qed

end
