(* ===== verification/Dht_Transaction.thy ===== *)
theory Dht_Transaction
  imports Util_Trans Util_Convert
begin

text \<open>
  Transaction ids of the DHT, \<open>btp-dht/src/transaction.rs\<close>: five bytes that name an action and three
  that name one of its messages. Ids are allocated in blocks of 2048 that are shuffled; \<open>rnd\<close> gives
  the numbers drawn for the shuffle of a block.
\<close>

definition ACTION_ID_BYTES :: nat where "ACTION_ID_BYTES = 5"
definition MESSAGE_ID_BYTES :: nat where "MESSAGE_ID_BYTES = 3"
definition TRANSACTION_ID_BYTES :: nat where "TRANSACTION_ID_BYTES = ACTION_ID_BYTES + MESSAGE_ID_BYTES"
definition MAX_ACTION_ID :: u64 where "MAX_ACTION_ID = push_bit (ACTION_ID_BYTES * 8) 1"
definition MESSAGE_ID_SHIFT :: nat where "MESSAGE_ID_SHIFT = MESSAGE_ID_BYTES * 8"
definition MAX_MESSAGE_ID :: u64 where "MAX_MESSAGE_ID = push_bit MESSAGE_ID_SHIFT 1"
definition ACTION_ID_PREALLOC_LEN :: nat where "ACTION_ID_PREALLOC_LEN = 2048"
definition MESSAGE_ID_PREALLOC_LEN :: nat where "MESSAGE_ID_PREALLOC_LEN = 2048"

record TransactionID =
  trans_id :: u64
  trans_id_bytes :: bytes

definition transaction_id_new :: "u64 \<Rightarrow> TransactionID" where
  "transaction_id_new t = \<lparr>trans_id = t, trans_id_bytes = eight_bytes_to_array t\<rparr>"

definition transaction_id_from_bytes :: "bytes \<Rightarrow> TransactionID option" where
  "transaction_id_from_bytes bs =
     (if length bs \<noteq> TRANSACTION_ID_BYTES then None
      else Some (transaction_id_new (foldl (\<lambda>t b. push_bit 8 t OR ucast b) 0 bs)))"

definition action_id_from_transaction_id :: "u64 \<Rightarrow> u64" where
  "action_id_from_transaction_id t = drop_bit MESSAGE_ID_SHIFT t"

definition message_id_from_transaction_id :: "u64 \<Rightarrow> u64" where
  "message_id_from_transaction_id t = (let clear_action_id = MAX_MESSAGE_ID - 1 in t AND clear_action_id)"

definition action_id :: "TransactionID \<Rightarrow> u64" where
  "action_id t = action_id_from_transaction_id (trans_id t)"

definition message_id :: "TransactionID \<Rightarrow> u64" where
  "message_id t = message_id_from_transaction_id (trans_id t)"

text \<open>\<open>for (index, id) in (start..end).enumerate() { ids[index] = id }\<close> on an array of zeros.\<close>

definition fill_range :: "nat \<Rightarrow> u64 \<Rightarrow> u64 \<Rightarrow> u64 list" where
  "fill_range len start stop =
     foldl (\<lambda>arr (index, x). arr[index := x]) (replicate len 0)
       (zip [0..<unat stop - unat start] (map of_nat [unat start..<unat stop]))"

record AIDGenerator =
  aid_next_alloc :: u64
  aid_curr_index :: nat
  action_ids :: "u64 list"

definition generate_aids :: "u64 \<Rightarrow> u64 \<times> u64 list" where
  "generate_aids na =
     (let (start, stop) = (if na = MAX_ACTION_ID then (0, of_nat ACTION_ID_PREALLOC_LEN)
                           else (na, na + of_nat ACTION_ID_PREALLOC_LEN))
      in (stop, fill_range ACTION_ID_PREALLOC_LEN start stop))"

definition aid_generator_new :: "(nat \<Rightarrow> nat) \<Rightarrow> AIDGenerator" where
  "aid_generator_new rnd =
     (let (na, ids) = generate_aids 0
      in \<lparr>aid_next_alloc = na, aid_curr_index = 0, action_ids = fisher_shuffle 0 rnd ids\<rparr>)"

record MIDGenerator =
  mid_action_id :: u64
  mid_next_alloc :: u64
  mid_curr_index :: nat
  message_ids :: "u64 list"

definition mid_generator_new :: "u64 \<Rightarrow> MIDGenerator" where
  "mid_generator_new aid =
     \<lparr>mid_action_id = aid, mid_next_alloc = 0, mid_curr_index = MESSAGE_ID_PREALLOC_LEN,
      message_ids = replicate MESSAGE_ID_PREALLOC_LEN 0\<rparr>"

definition mid_generator_action_id :: "MIDGenerator \<Rightarrow> u64" where
  "mid_generator_action_id g = action_id_from_transaction_id (mid_action_id g)"

definition generate_mids :: "u64 \<Rightarrow> u64 \<times> u64 list" where
  "generate_mids na =
     (let (start, stop) = (if na = MAX_MESSAGE_ID then (0, of_nat MESSAGE_ID_PREALLOC_LEN)
                           else (na, na + of_nat MESSAGE_ID_PREALLOC_LEN))
      in (stop, fill_range MESSAGE_ID_PREALLOC_LEN start stop))"

text \<open>The \<open>else\<close> branches of the two \<open>generate\<close> functions: a new block.\<close>

definition aid_refill :: "(nat \<Rightarrow> nat) \<Rightarrow> AIDGenerator \<Rightarrow> AIDGenerator" where
  "aid_refill rnd g =
     (let (na, ids) = generate_aids (aid_next_alloc g)
      in \<lparr>aid_next_alloc = na, aid_curr_index = 0, action_ids = fisher_shuffle 0 rnd ids\<rparr>)"

definition mid_refill :: "(nat \<Rightarrow> nat) \<Rightarrow> MIDGenerator \<Rightarrow> MIDGenerator" where
  "mid_refill rnd g =
     (let (na, ids) = generate_mids (mid_next_alloc g)
      in g\<lparr>mid_next_alloc := na, mid_curr_index := 0, message_ids := fisher_shuffle 0 rnd ids\<rparr>)"

lemma length_fill_range [simp]: "length (fill_range len a b) = len"
proof -
  have "length (foldl (\<lambda>arr (index, x). arr[index := x]) arr ps) = length arr" for arr :: "u64 list" and ps
    by (induction ps arbitrary: arr) auto
  then show ?thesis by (simp add: fill_range_def)
qed

lemma aid_refill_sel [simp]:
  "aid_curr_index (aid_refill rnd g) = 0" "length (action_ids (aid_refill rnd g)) = ACTION_ID_PREALLOC_LEN"
  by (simp_all add: aid_refill_def generate_aids_def split: prod.split)

lemma mid_refill_sel [simp]:
  "mid_curr_index (mid_refill rnd g) = 0" "length (message_ids (mid_refill rnd g)) = MESSAGE_ID_PREALLOC_LEN"
  "mid_action_id (mid_refill rnd g) = mid_action_id g"
  by (simp_all add: mid_refill_def generate_mids_def split: prod.split)

function aid_generate :: "(nat \<Rightarrow> nat) \<Rightarrow> AIDGenerator \<Rightarrow> MIDGenerator \<times> AIDGenerator" where
  "aid_generate rnd g =
     (if aid_curr_index g < length (action_ids g)
      then (mid_generator_new (push_bit MESSAGE_ID_SHIFT (action_ids g ! aid_curr_index g)),
            g\<lparr>aid_curr_index := aid_curr_index g + 1\<rparr>)
      else aid_generate rnd (aid_refill rnd g))"
  by pat_completeness auto
termination
  by (relation "measure (\<lambda>(rnd, g). if aid_curr_index g < length (action_ids g) then 0 else 1)")
    (simp_all add: ACTION_ID_PREALLOC_LEN_def)

function mid_generate :: "(nat \<Rightarrow> nat) \<Rightarrow> MIDGenerator \<Rightarrow> TransactionID \<times> MIDGenerator" where
  "mid_generate rnd g =
     (if mid_curr_index g < length (message_ids g)
      then (transaction_id_new (mid_action_id g OR message_ids g ! mid_curr_index g),
            g\<lparr>mid_curr_index := mid_curr_index g + 1\<rparr>)
      else mid_generate rnd (mid_refill rnd g))"
  by pat_completeness auto
termination
  by (relation "measure (\<lambda>(rnd, g). if mid_curr_index g < length (message_ids g) then 0 else 1)")
    (simp_all add: MESSAGE_ID_PREALLOC_LEN_def)

declare aid_generate.simps [simp del] mid_generate.simps [simp del]

section \<open>Blocks of ids\<close>

text \<open>
  What the two generators share: an allocation marker that is a multiple of the block length and
  never passes the limit, which is one too, gives blocks of ids below the limit.
\<close>

locale id_blocks =
  fixes generate :: "u64 \<Rightarrow> u64 \<times> u64 list" and limit :: u64
  assumes limit: "2048 dvd unat limit" "unat limit + 2048 < 2 ^ 64" "0 < unat limit"
    and generate: "generate na =
      (let (start, stop) = (if na = limit then (0, 2048) else (na, na + 2048)) in (stop, fill_range 2048 start stop))"
begin

definition marker_ok :: "u64 \<Rightarrow> bool" where
  "marker_ok na \<longleftrightarrow> 2048 dvd unat na \<and> unat na \<le> unat limit"

lemma fill_range_block:
  assumes "unat stop = unat start + 2048"
  shows "fill_range 2048 start stop = map of_nat [unat start..<unat start + 2048]"
  using foldl_array [of "replicate 2048 0" 0 "map of_nat [unat start..<unat start + 2048]" "\<lambda>x. x"] assms
  by (simp add: fill_range_def)

lemma generate_block:
  assumes "marker_ok na" and "generate na = (na', ids)"
  shows "marker_ok na' \<and> length ids = 2048 \<and> (\<forall>x\<in>set ids. unat x < unat limit) \<and> distinct ids"
proof -
  define start where "start = (if na = limit then 0 else na)"
  have start: "2048 dvd unat start" "unat start + 2048 \<le> unat limit"
  proof -
    from assms(1) limit show "2048 dvd unat start" by (auto simp: start_def marker_ok_def)
    have less: "unat start < unat limit"
      using assms(1) limit(3) by (cases "na = limit") (auto simp: start_def marker_ok_def le_less word_unat_eq_iff)
    from \<open>2048 dvd unat start\<close> limit(1) obtain a b where "unat start = 2048 * a" "unat limit = 2048 * b"
      by (auto elim!: dvdE)
    with less show "unat start + 2048 \<le> unat limit" by simp
  qed
  then have stop: "unat (start + 2048) = unat start + 2048"
    using limit(2) by (simp add: unat_word_ariths)
  have g: "generate na = (start + 2048, fill_range 2048 start (start + 2048))"
    by (simp add: generate start_def)
  have small: "unat (of_nat k :: u64) = k" if "k \<in> {unat start..<unat start + 2048}" for k
    using that start(2) limit(2) by (simp add: unat_of_nat)
  have ids: "ids = map of_nat [unat start..<unat start + 2048]" and na': "na' = start + 2048"
    using assms(2) g fill_range_block [OF stop] by auto
  have "inj_on (of_nat :: nat \<Rightarrow> u64) {unat start..<unat start + 2048}"
    using small by (metis inj_on_inverseI)
  then have "distinct ids" by (simp add: ids distinct_map)
  moreover have "\<forall>x\<in>set ids. unat x < unat limit" using small start(2) by (auto simp: ids)
  moreover have "marker_ok na'" using start by (simp add: marker_ok_def na' stop)
  ultimately show ?thesis by (simp add: ids)
qed

end

lemma unat_MAX_ACTION_ID: "unat MAX_ACTION_ID = 2 ^ 40"
  by (simp add: MAX_ACTION_ID_def ACTION_ID_BYTES_def)

lemma unat_MAX_MESSAGE_ID: "unat MAX_MESSAGE_ID = 2 ^ 24"
  by (simp add: MAX_MESSAGE_ID_def MESSAGE_ID_SHIFT_def MESSAGE_ID_BYTES_def)

interpretation aids: id_blocks generate_aids MAX_ACTION_ID
  by unfold_locales
    (simp_all add: unat_MAX_ACTION_ID generate_aids_def ACTION_ID_PREALLOC_LEN_def)

interpretation mids: id_blocks generate_mids MAX_MESSAGE_ID
  by unfold_locales
    (simp_all add: unat_MAX_MESSAGE_ID generate_mids_def MESSAGE_ID_PREALLOC_LEN_def)

section \<open>Composing and splitting transaction ids\<close>

lemma take_bit_small: "unat a < 2 ^ n \<Longrightarrow> take_bit n a = a" for a :: "'a::len word"
  by (metis unsigned_take_bit_eq take_bit_nat_eq_self unsigned_word_eqI)

lemma action_of_composed:
  assumes "unat aid < 2 ^ 40" and "unat mid < 2 ^ 24"
  shows "action_id_from_transaction_id (push_bit MESSAGE_ID_SHIFT aid OR mid) = aid"
proof -
  have a: "aid = take_bit 40 aid" and m: "mid = take_bit 24 mid"
    using assms by (simp_all add: take_bit_small)
  have "drop_bit 24 (push_bit 24 (take_bit 40 aid) OR take_bit 24 mid) = take_bit 40 aid"
    by (rule bit_word_eqI) (auto simp: bit_simps dest: bit_imp_le_length)
  with a m show ?thesis
    by (simp add: action_id_from_transaction_id_def MESSAGE_ID_SHIFT_def MESSAGE_ID_BYTES_def)
qed

lemma message_of_composed:
  assumes "unat aid < 2 ^ 40" and "unat mid < 2 ^ 24"
  shows "message_id_from_transaction_id (push_bit MESSAGE_ID_SHIFT aid OR mid) = mid"
proof -
  have m: "mid = take_bit 24 mid" using assms by (simp add: take_bit_small)
  have "take_bit 24 (push_bit 24 aid OR take_bit 24 mid) = take_bit 24 mid"
    by (rule bit_word_eqI) (auto simp: bit_simps dest: bit_imp_le_length)
  moreover have "MAX_MESSAGE_ID - 1 = mask 24"
    by (simp add: MAX_MESSAGE_ID_def MESSAGE_ID_SHIFT_def MESSAGE_ID_BYTES_def mask_eq_exp_minus_1)
  ultimately show ?thesis using m
    by (simp add: message_id_from_transaction_id_def MESSAGE_ID_SHIFT_def MESSAGE_ID_BYTES_def
        flip: take_bit_eq_mask)
qed

lemma foldl_u64_of_bytes: "foldl (\<lambda>t b. push_bit 8 t OR ucast b) 0 bs = u64_of_bytes bs"
  by (simp add: u64_of_bytes_def shift_in_def [abs_def])

lemma transaction_id_roundtrip:
  "transaction_id_from_bytes (trans_id_bytes (transaction_id_new t)) = Some (transaction_id_new t)"
  by (simp add: transaction_id_from_bytes_def transaction_id_new_def foldl_u64_of_bytes u64_of_eight_bytes
      length_eight_bytes TRANSACTION_ID_BYTES_def ACTION_ID_BYTES_def MESSAGE_ID_BYTES_def)

section \<open>The generators\<close>

definition aid_ok :: "AIDGenerator \<Rightarrow> bool" where
  "aid_ok g \<longleftrightarrow> aids.marker_ok (aid_next_alloc g) \<and> (\<forall>x\<in>set (action_ids g). unat x < 2 ^ 40)"

definition mid_ok :: "u64 \<Rightarrow> MIDGenerator \<Rightarrow> bool" where
  "mid_ok aid m \<longleftrightarrow> mid_action_id m = push_bit MESSAGE_ID_SHIFT aid \<and> mids.marker_ok (mid_next_alloc m) \<and>
     (\<forall>x\<in>set (message_ids m). unat x < 2 ^ 24)"

lemma set_fisher_shuffle [simp]: "set (fisher_shuffle d rnd xs) = set xs"
  by (metis mset_fisher_shuffle set_mset_mset)

lemma aid_ok_refill: "aid_ok g \<Longrightarrow> aid_ok (aid_refill rnd g)"
  using aids.generate_block [of "aid_next_alloc g"]
  by (cases "generate_aids (aid_next_alloc g)") (simp add: aid_ok_def aid_refill_def unat_MAX_ACTION_ID)

lemma aid_ok_new: "aid_ok (aid_generator_new rnd)"
  using aids.generate_block [of 0]
  by (cases "generate_aids 0")
    (simp add: aid_ok_def aid_generator_new_def unat_MAX_ACTION_ID aids.marker_ok_def)

lemma mid_ok_new: "unat aid < 2 ^ 40 \<Longrightarrow> mid_ok aid (mid_generator_new (push_bit MESSAGE_ID_SHIFT aid))"
  by (simp add: mid_ok_def mid_generator_new_def mids.marker_ok_def)

lemma mid_ok_refill: "mid_ok aid m \<Longrightarrow> mid_ok aid (mid_refill rnd m)"
  using mids.generate_block [of "mid_next_alloc m"]
  by (cases "generate_mids (mid_next_alloc m)") (simp add: mid_ok_def mid_refill_def unat_MAX_MESSAGE_ID)

lemma aid_generate_ok:
  "aid_ok g \<Longrightarrow> aid_generate rnd g = (m, g') \<Longrightarrow> aid_ok g' \<and> (\<exists>aid. unat aid < 2 ^ 40 \<and> mid_ok aid m)"
proof (induction rnd g rule: aid_generate.induct)
  case (1 rnd g)
  show ?case
  proof (cases "aid_curr_index g < length (action_ids g)")
    case True
    moreover from this 1 have small: "unat (action_ids g ! aid_curr_index g) < 2 ^ 40" by (auto simp: aid_ok_def)
    ultimately show ?thesis using 1(2,3) mid_ok_new [OF small] small
      by (auto simp: aid_generate.simps [of rnd g] aid_ok_def)
  next
    case False
    with 1 aid_ok_refill show ?thesis by (simp add: aid_generate.simps [of rnd g])
  qed
qed

lemma mid_generate_ok:
  "mid_ok aid m \<Longrightarrow> mid_generate rnd m = (t, m') \<Longrightarrow>
   mid_ok aid m' \<and> (\<exists>mid. unat mid < 2 ^ 24 \<and> t = transaction_id_new (push_bit MESSAGE_ID_SHIFT aid OR mid))"
proof (induction rnd m rule: mid_generate.induct)
  case (1 rnd m)
  show ?case
  proof (cases "mid_curr_index m < length (message_ids m)")
    case True
    moreover from this 1 have "unat (message_ids m ! mid_curr_index m) < 2 ^ 24" by (auto simp: mid_ok_def)
    ultimately show ?thesis using 1(2,3) by (auto simp: mid_generate.simps [of rnd m] mid_ok_def)
  next
    case False
    with 1 mid_ok_refill show ?thesis by (simp add: mid_generate.simps [of rnd m])
  qed
qed

inductive aid_reachable :: "AIDGenerator \<Rightarrow> bool" where
  aid_new: "aid_reachable (aid_generator_new rnd)"
| aid_next: "aid_reachable g \<Longrightarrow> aid_reachable (snd (aid_generate rnd g))"

inductive mid_reachable :: "MIDGenerator \<Rightarrow> bool" where
  mid_new: "aid_reachable g \<Longrightarrow> mid_reachable (fst (aid_generate rnd g))"
| mid_next: "mid_reachable m \<Longrightarrow> mid_reachable (snd (mid_generate rnd m))"

lemma aid_reachable_ok: "aid_reachable g \<Longrightarrow> aid_ok g"
proof (induction rule: aid_reachable.induct)
  case (aid_next g rnd)
  then show ?case using aid_generate_ok [of g rnd] by (cases "aid_generate rnd g") simp
qed (rule aid_ok_new)

lemma mid_reachable_ok: "mid_reachable m \<Longrightarrow> \<exists>aid. unat aid < 2 ^ 40 \<and> mid_ok aid m"
proof (induction rule: mid_reachable.induct)
  case (mid_new g rnd)
  then show ?case using aid_generate_ok [OF aid_reachable_ok, of g rnd] by (cases "aid_generate rnd g") simp
next
  case (mid_next m rnd)
  then show ?case using mid_generate_ok [of _ m rnd] by (cases "mid_generate rnd m") fastforce
qed

section \<open>Properties\<close>

text \<open>
  C23. Every transaction id comes back to the action it was made for: however many ids the
  generators have handed out and whatever the random numbers, an id produced by an action's
  message generator is recovered from the bytes sent on the wire, and the action id read off it is
  the one of the generator. The five and the three bytes never run into each other.
\<close>

theorem transaction_id_routes_back:
  assumes "mid_reachable m" and "mid_generate rnd m = (t, m')"
  shows "transaction_id_from_bytes (trans_id_bytes t) = Some t \<and> action_id t = mid_generator_action_id m \<and>
    mid_generator_action_id m' = mid_generator_action_id m \<and> unat (message_id t) < 2 ^ 24"
proof -
  from mid_reachable_ok [OF assms(1)] obtain aid where aid: "unat aid < 2 ^ 40" "mid_ok aid m" by blast
  from mid_generate_ok [OF aid(2) assms(2)] obtain mid where
    m': "mid_ok aid m'" and mid: "unat mid < 2 ^ 24" "t = transaction_id_new (push_bit MESSAGE_ID_SHIFT aid OR mid)"
    by blast
  have "mid_generator_action_id x = aid" if "mid_ok aid x" for x
    using that action_of_composed [of aid 0] aid(1) by (simp add: mid_generator_action_id_def mid_ok_def)
  with aid m' have "mid_generator_action_id m = aid" "mid_generator_action_id m' = aid" by simp_all
  moreover have "action_id t = aid" "message_id t = mid"
    using aid(1) mid
    by (simp_all add: action_id_def message_id_def transaction_id_new_def action_of_composed message_of_composed)
  ultimately show ?thesis using mid by (simp add: transaction_id_roundtrip)
qed

theorem transaction_id_routes_back_witness:
  "transaction_id_from_bytes (trans_id_bytes (fst (mid_generate (\<lambda>_. 0) (fst (aid_generate (\<lambda>_. 0) (aid_generator_new (\<lambda>_. 0)))))))
     \<noteq> None"
proof -
  let ?m = "fst (aid_generate (\<lambda>_. 0) (aid_generator_new (\<lambda>_. 0)))"
  have "mid_reachable ?m" by (intro mid_new aid_new)
  from transaction_id_routes_back [OF this, of "\<lambda>_. 0"] show ?thesis
    by (cases "mid_generate (\<lambda>_. 0) ?m") simp
qed

text \<open>
  A transaction id is read from exactly eight bytes: every other length is refused, and
  eight bytes are given back unchanged by the id read from them.
\<close>

theorem transaction_id_from_bytes_total:
  "(if length bs = 8 then \<exists>t. transaction_id_from_bytes bs = Some t \<and> trans_id_bytes t = bs
    else transaction_id_from_bytes bs = None)"
  using u64_codec.to_from [of bs]
  by (auto simp: transaction_id_from_bytes_def transaction_id_new_def foldl_u64_of_bytes
      TRANSACTION_ID_BYTES_def ACTION_ID_BYTES_def MESSAGE_ID_BYTES_def)

end
