(* ===== verification/Dht_Token.thy ===== *)
theory Dht_Token
  imports Util_Sha
begin

text \<open>
  The tokens that a node hands out with the answer to \<open>get_peers\<close> and wants back with an announce,
  \<open>btp-dht/src/token.rs\<close>. Times are nanoseconds of UTC. Three things come from other crates and are
  parameters: \<open>num_minutes\<close>, the whole minutes of a \<open>chrono\<close> duration, for which
  \<open>chrono_minutes\<close> states what its documentation says of durations that are not negative; \<open>sha1\<close>,
  the hash of \<open>ShaHash::from_bytes\<close>; and the random secrets, \<open>rnd i\<close> being the \<open>i\<close>-th one drawn in a call.
\<close>

definition MINUTE :: int where
  "MINUTE = 60000000000"

definition chrono_minutes :: "(int \<Rightarrow> int) \<Rightarrow> bool" where
  "chrono_minutes num_minutes \<longleftrightarrow> (\<forall>d\<ge>0. num_minutes d = d div MINUTE)"

text \<open>The division of signed integers rounds towards zero.\<close>

definition i64_quot :: "int \<Rightarrow> int \<Rightarrow> int" where
  "i64_quot a b = sgn a * sgn b * (\<bar>a\<bar> div \<bar>b\<bar>)"

definition REFRESH_INTERVAL_MINS :: int where
  "REFRESH_INTERVAL_MINS = 10"

definition IPV4_SECRET_BUFFER_LEN :: nat where "IPV4_SECRET_BUFFER_LEN = 4 + 4"
definition IPV6_SECRET_BUFFER_LEN :: nat where "IPV6_SECRET_BUFFER_LEN = 16 + 4"

type_synonym Token = bytes

text \<open>Copying one byte sequence over another, as far as both go.\<close>

definition copy_over :: "bytes \<Rightarrow> bytes \<Rightarrow> bytes" where
  "copy_over dst src = map snd (zip dst src) @ drop (length src) dst"

definition token_new :: "bytes \<Rightarrow> (LengthError, Token) outcome" where
  "token_new bs =
     (if length bs \<noteq> SHA_HASH_LEN then Err (length_error LengthExpected SHA_HASH_LEN)
      else Ok (copy_over (replicate SHA_HASH_LEN 0) bs))"

record TokenStore =
  curr_secret :: u32
  last_secret :: u32
  last_refresh :: int

definition token_store_new :: "int \<Rightarrow> (nat \<Rightarrow> u32) \<Rightarrow> TokenStore" where
  "token_store_new now rnd = \<lparr>curr_secret = rnd 0, last_secret = rnd 1, last_refresh = now\<rparr>"

definition intervals_passed :: "(int \<Rightarrow> int) \<Rightarrow> int \<Rightarrow> int \<Rightarrow> int" where
  "intervals_passed num_minutes now refreshed =
     (let refresh_duration = REFRESH_INTERVAL_MINS * MINUTE;
          diff_time = now - refreshed
      in i64_quot (num_minutes diff_time) (num_minutes refresh_duration))"

definition refresh_check :: "(int \<Rightarrow> int) \<Rightarrow> int \<Rightarrow> (nat \<Rightarrow> u32) \<Rightarrow> TokenStore \<Rightarrow> TokenStore" where
  "refresh_check num_minutes now rnd s =
     (let n = intervals_passed num_minutes now (last_refresh s)
      in if n = 0 then s
         else if n = 1 then \<lparr>curr_secret = rnd 0, last_secret = curr_secret s, last_refresh = now\<rparr>
         else \<lparr>curr_secret = rnd 1, last_secret = rnd 0, last_refresh = now\<rparr>)"

definition generate_token_from_addr_v4 :: "(bytes \<Rightarrow> bytes) \<Rightarrow> Ipv4Addr \<Rightarrow> u32 \<Rightarrow> Token" where
  "generate_token_from_addr_v4 sha1 v4_addr secret =
     (let v4_bytes = ipv4_to_bytes_be v4_addr;
          secret_bytes = four_bytes_to_array secret
      in sha1 (copy_over (replicate IPV4_SECRET_BUFFER_LEN 0) (v4_bytes @ secret_bytes)))"

definition generate_token_from_addr_v6 :: "(bytes \<Rightarrow> bytes) \<Rightarrow> Ipv6Addr \<Rightarrow> u32 \<Rightarrow> Token" where
  "generate_token_from_addr_v6 sha1 v6_addr secret =
     (let v6_bytes = ipv6_to_bytes_be v6_addr;
          secret_bytes = four_bytes_to_array secret
      in sha1 (copy_over (replicate IPV6_SECRET_BUFFER_LEN 0) (v6_bytes @ secret_bytes)))"

definition generate_token_from_addr :: "(bytes \<Rightarrow> bytes) \<Rightarrow> IpAddr \<Rightarrow> u32 \<Rightarrow> Token" where
  "generate_token_from_addr sha1 addr secret =
     (case addr of
        IpV4 v4 \<Rightarrow> generate_token_from_addr_v4 sha1 v4 secret
      | IpV6 v6 \<Rightarrow> generate_token_from_addr_v6 sha1 v6 secret)"

definition validate_token_from_addr_v4 :: "(bytes \<Rightarrow> bytes) \<Rightarrow> Ipv4Addr \<Rightarrow> Token \<Rightarrow> u32 \<Rightarrow> bool" where
  "validate_token_from_addr_v4 sha1 v4_addr token secret \<longleftrightarrow>
     generate_token_from_addr_v4 sha1 v4_addr secret = token"

definition validate_token_from_addr_v6 :: "(bytes \<Rightarrow> bytes) \<Rightarrow> Ipv6Addr \<Rightarrow> Token \<Rightarrow> u32 \<Rightarrow> bool" where
  "validate_token_from_addr_v6 sha1 v6_addr token secret \<longleftrightarrow>
     generate_token_from_addr_v6 sha1 v6_addr secret = token"

definition validate_token_from_addr :: "(bytes \<Rightarrow> bytes) \<Rightarrow> IpAddr \<Rightarrow> Token \<Rightarrow> u32 \<Rightarrow> u32 \<Rightarrow> bool" where
  "validate_token_from_addr sha1 addr token secret_one secret_two \<longleftrightarrow>
     (case addr of
        IpV4 v4 \<Rightarrow> validate_token_from_addr_v4 sha1 v4 token secret_one \<or>
                    validate_token_from_addr_v4 sha1 v4 token secret_two
      | IpV6 v6 \<Rightarrow> validate_token_from_addr_v6 sha1 v6 token secret_one \<or>
                    validate_token_from_addr_v6 sha1 v6 token secret_two)"

definition checkout ::
    "(int \<Rightarrow> int) \<Rightarrow> (bytes \<Rightarrow> bytes) \<Rightarrow> int \<Rightarrow> (nat \<Rightarrow> u32) \<Rightarrow> IpAddr \<Rightarrow> TokenStore \<Rightarrow> Token \<times> TokenStore" where
  "checkout num_minutes sha1 now rnd addr s =
     (let s1 = refresh_check num_minutes now rnd s
      in (generate_token_from_addr sha1 addr (curr_secret s1), s1))"

definition checkin ::
    "(int \<Rightarrow> int) \<Rightarrow> (bytes \<Rightarrow> bytes) \<Rightarrow> int \<Rightarrow> (nat \<Rightarrow> u32) \<Rightarrow> IpAddr \<Rightarrow> Token \<Rightarrow> TokenStore \<Rightarrow> bool \<times> TokenStore"
where
  "checkin num_minutes sha1 now rnd addr token s =
     (let s1 = refresh_check num_minutes now rnd s
      in (validate_token_from_addr sha1 addr token (curr_secret s1) (last_secret s1), s1))"

section \<open>Time\<close>

text \<open>
  Checking tokens out and in changes the store only by \<open>refresh_check\<close>, so a history of calls is
  the list of their times and random numbers.
\<close>

fun refresh_run :: "(int \<Rightarrow> int) \<Rightarrow> (int \<times> (nat \<Rightarrow> u32)) list \<Rightarrow> TokenStore \<Rightarrow> TokenStore" where
  "refresh_run num_minutes [] s = s"
| "refresh_run num_minutes ((now, rnd) # ops) s = refresh_run num_minutes ops (refresh_check num_minutes now rnd s)"

lemma intervals_passed_eq:
  assumes "chrono_minutes num_minutes" and "r \<le> now"
  shows "intervals_passed num_minutes now r = (now - r) div (10 * MINUTE)"
proof -
  have ten: "num_minutes (REFRESH_INTERVAL_MINS * MINUTE) = 10"
    using assms(1) by (simp add: chrono_minutes_def REFRESH_INTERVAL_MINS_def MINUTE_def)
  have "num_minutes (now - r) = (now - r) div MINUTE" "0 \<le> (now - r) div MINUTE"
    using assms by (simp_all add: chrono_minutes_def MINUTE_def pos_imp_zdiv_nonneg_iff)
  then have "intervals_passed num_minutes now r = (now - r) div MINUTE div 10"
    unfolding intervals_passed_def Let_def ten by (auto simp: i64_quot_def sgn_if)
  then show ?thesis by (simp add: MINUTE_def zdiv_zmult2_eq [symmetric])
qed

lemma refresh_check_cases:
  assumes "chrono_minutes num_minutes" and "last_refresh s \<le> now"
  obtains (same) "now - last_refresh s < 10 * MINUTE" "refresh_check num_minutes now rnd s = s"
  | (one) "10 * MINUTE \<le> now - last_refresh s" "now - last_refresh s < 20 * MINUTE"
      "refresh_check num_minutes now rnd s =
         \<lparr>curr_secret = rnd 0, last_secret = curr_secret s, last_refresh = now\<rparr>"
  | (more) "20 * MINUTE \<le> now - last_refresh s"
      "refresh_check num_minutes now rnd s = \<lparr>curr_secret = rnd 1, last_secret = rnd 0, last_refresh = now\<rparr>"
proof -
  let ?d = "now - last_refresh s" and ?n = "(now - last_refresh s) div (10 * MINUTE)"
  have d: "0 \<le> ?d" using assms(2) by simp
  have n: "intervals_passed num_minutes now (last_refresh s) = ?n"
    by (rule intervals_passed_eq [OF assms])
  consider "?d < 10 * MINUTE" | "10 * MINUTE \<le> ?d" "?d < 20 * MINUTE" | "20 * MINUTE \<le> ?d" by linarith
  then show thesis
  proof cases
    case 1
    with d n have "intervals_passed num_minutes now (last_refresh s) = 0"
      by (simp add: MINUTE_def div_pos_pos_trivial)
    with 1 same show thesis by (simp add: refresh_check_def)
  next
    case 2
    with n have "intervals_passed num_minutes now (last_refresh s) = 1" by (simp add: MINUTE_def)
    with 2 one show thesis by (simp add: refresh_check_def)
  next
    case 3
    then have "2 \<le> ?n" by (simp add: MINUTE_def)
    with n 3 more show thesis by (simp add: refresh_check_def)
  qed
qed

text \<open>
  The secret \<open>c\<close> that was current when the store had last been refreshed, at \<open>r\<close>: up to twenty
  minutes after \<open>r\<close> it is still the current or the last one.
\<close>

definition secret_kept :: "u32 \<Rightarrow> int \<Rightarrow> int \<Rightarrow> TokenStore \<Rightarrow> bool" where
  "secret_kept c r now s \<longleftrightarrow> last_refresh s \<le> now \<and>
     (curr_secret s = c \<and> last_refresh s = r \<or> last_secret s = c \<and> r + 10 * MINUTE \<le> last_refresh s)"

lemma secret_kept_check:
  assumes "chrono_minutes num_minutes" and kept: "secret_kept c r t s" and "t \<le> now" and "now < r + 20 * MINUTE"
  shows "secret_kept c r now (refresh_check num_minutes now rnd s)"
proof -
  have "last_refresh s \<le> now" using assms by (auto simp: secret_kept_def)
  from assms(1) this show ?thesis
    by (cases rule: refresh_check_cases [where rnd = rnd]) (use assms in \<open>auto simp: secret_kept_def\<close>)
qed

lemma secret_kept_run:
  assumes "chrono_minutes num_minutes"
  shows "secret_kept c r t s \<Longrightarrow> sorted (t # map fst ops) \<Longrightarrow> \<forall>u\<in>set (map fst ops). u < r + 20 * MINUTE \<Longrightarrow>
    \<exists>u. secret_kept c r u (refresh_run num_minutes ops s) \<and> (u = t \<or> u \<in> set (map fst ops))"
proof (induction ops arbitrary: t s)
  case (Cons op ops)
  obtain now rnd where op: "op = (now, rnd)" by (cases op)
  have "secret_kept c r now (refresh_check num_minutes now rnd s)"
    using Cons.prems op by (intro secret_kept_check [OF assms]) auto
  moreover have "sorted (now # map fst ops)" "\<forall>u\<in>set (map fst ops). u < r + 20 * MINUTE"
    using Cons.prems op by auto
  ultimately obtain u where "secret_kept c r u (refresh_run num_minutes ops (refresh_check num_minutes now rnd s))"
    "u = now \<or> u \<in> set (map fst ops)"
    using Cons.IH by blast
  with op show ?case by auto
qed auto

lemma validate_current_or_last:
  "c = a \<or> c = b \<Longrightarrow> validate_token_from_addr sha1 addr (generate_token_from_addr sha1 addr c) a b"
  by (auto simp: validate_token_from_addr_def generate_token_from_addr_def validate_token_from_addr_v4_def
      validate_token_from_addr_v6_def split: IpAddr.split)

lemma validate_secret:
  "validate_token_from_addr sha1 addr token a b \<Longrightarrow>
   token = generate_token_from_addr sha1 addr a \<or> token = generate_token_from_addr sha1 addr b"
  by (auto simp: validate_token_from_addr_def generate_token_from_addr_def validate_token_from_addr_v4_def
      validate_token_from_addr_v6_def split: IpAddr.splits)

text \<open>
  The secrets drawn in a history, and how the store stands towards them when its last refresh
  before the history was at \<open>r\<close>.
\<close>

definition drawn :: "(int \<times> (nat \<Rightarrow> u32)) list \<Rightarrow> u32 set" where
  "drawn ops = (\<Union>(now, rnd)\<in>set ops. {rnd 0, rnd 1})"

definition secret_fading :: "u32 set \<Rightarrow> int \<Rightarrow> TokenStore \<Rightarrow> bool" where
  "secret_fading D r s \<longleftrightarrow> last_refresh s = r \<or> curr_secret s \<in> D \<and> last_refresh s < r + 20 * MINUTE \<or>
     curr_secret s \<in> D \<and> last_secret s \<in> D"

lemma secret_fading_check:
  assumes "chrono_minutes num_minutes" and "last_refresh s \<le> now" and "rnd 0 \<in> D" and "rnd 1 \<in> D"
    and "secret_fading D r s"
  shows "secret_fading D r (refresh_check num_minutes now rnd s)"
    and "r + 30 * MINUTE \<le> now \<Longrightarrow> curr_secret (refresh_check num_minutes now rnd s) \<in> D \<and>
      last_secret (refresh_check num_minutes now rnd s) \<in> D"
  using assms(1,2)
  by (cases rule: refresh_check_cases [where rnd = rnd]; use assms in \<open>auto simp: secret_fading_def\<close>)+

lemma last_refresh_check:
  "chrono_minutes num_minutes \<Longrightarrow> last_refresh s \<le> now \<Longrightarrow> last_refresh (refresh_check num_minutes now rnd s) \<le> now"
  by (cases rule: refresh_check_cases [where rnd = rnd]) auto

lemma secret_fading_run:
  assumes "chrono_minutes num_minutes"
  shows "secret_fading D r s \<Longrightarrow> last_refresh s \<le> t \<Longrightarrow> sorted (t # map fst ops) \<Longrightarrow> drawn ops \<subseteq> D \<Longrightarrow>
    \<forall>u\<in>set (map fst ops). u \<le> e \<Longrightarrow> t \<le> e \<Longrightarrow>
    secret_fading D r (refresh_run num_minutes ops s) \<and> last_refresh (refresh_run num_minutes ops s) \<le> e"
proof (induction ops arbitrary: t s)
  case (Cons op ops)
  obtain now rnd where op: "op = (now, rnd)" by (cases op)
  with Cons.prems have "last_refresh s \<le> now" "rnd 0 \<in> D" "rnd 1 \<in> D" by (auto simp: drawn_def)
  then have "secret_fading D r (refresh_check num_minutes now rnd s)"
    "last_refresh (refresh_check num_minutes now rnd s) \<le> now"
    using Cons.prems(1) secret_fading_check(1) [OF assms] last_refresh_check [OF assms] by blast+
  with Cons.IH [of "refresh_check num_minutes now rnd s" now] Cons.prems op show ?case
    by (auto simp: drawn_def)
qed auto

lemma checkin_within_ten_minutes:
  assumes "chrono_minutes num_minutes" and "last_refresh s \<le> t"
    and "checkout num_minutes sha1 t rnd addr s = (token, s1)"
    and "sorted (t # map fst ops @ [t'])" and "t' < t + 10 * MINUTE"
  shows "fst (checkin num_minutes sha1 t' rnd' addr token (refresh_run num_minutes ops s1))"
proof -
  define r where "r = last_refresh s1"
  have s1: "s1 = refresh_check num_minutes t rnd s" "token = generate_token_from_addr sha1 addr (curr_secret s1)"
    using assms(3) by (auto simp: checkout_def Let_def)
  from assms(1,2) have r: "r \<le> t" "t < r + 10 * MINUTE"
    by (cases rule: refresh_check_cases [where rnd = rnd]; simp add: r_def s1 MINUTE_def)+
  have "secret_kept (curr_secret s1) r t s1" using r by (simp add: secret_kept_def r_def)
  moreover have "\<forall>u\<in>set (map fst ops). u < r + 20 * MINUTE"
    using assms(4,5) r by (fastforce simp: sorted_append)
  ultimately obtain u where u: "secret_kept (curr_secret s1) r u (refresh_run num_minutes ops s1)" "u \<le> t'"
    using secret_kept_run [OF assms(1), of "curr_secret s1" r t s1 ops] assms(4) by (auto simp: sorted_append)
  from secret_kept_check [OF assms(1) u, of rnd'] assms(5) r show ?thesis
    unfolding checkin_def s1(2) by (auto simp: Let_def secret_kept_def intro: validate_current_or_last)
qed

section \<open>Properties\<close>

text \<open>
  C24. A token is good for at least ten minutes: whatever calls the store gets in between, a token
  checked out for an address is accepted from that address at any time less than ten minutes
  later.
\<close>

theorem token_valid_ten_minutes:
  assumes "chrono_minutes num_minutes" and "last_refresh s \<le> t"
    and "checkout num_minutes sha1 t rnd addr s = (token, s1)"
    and "sorted (t # map fst ops @ [t'])" and "t' < t + 10 * MINUTE"
  shows "fst (checkin num_minutes sha1 t' rnd' addr token (refresh_run num_minutes ops s1))"
  by (rule checkin_within_ten_minutes [OF assms])

theorem token_valid_ten_minutes_witness:
  "fst (checkin (\<lambda>d. d div MINUTE) (\<lambda>bs. take 20 (bs @ replicate 20 0)) (9 * MINUTE) (\<lambda>_. 3) (IpV4 (Ipv4Addr 1 2 3 4))
     (fst (checkout (\<lambda>d. d div MINUTE) (\<lambda>bs. take 20 (bs @ replicate 20 0)) 0 (\<lambda>_. 1) (IpV4 (Ipv4Addr 1 2 3 4))
        (token_store_new 0 (\<lambda>_. 2))))
     (refresh_run (\<lambda>d. d div MINUTE) [(5 * MINUTE, \<lambda>_. 7)]
        (snd (checkout (\<lambda>d. d div MINUTE) (\<lambda>bs. take 20 (bs @ replicate 20 0)) 0 (\<lambda>_. 1) (IpV4 (Ipv4Addr 1 2 3 4))
           (token_store_new 0 (\<lambda>_. 2))))))"
  by (rule token_valid_ten_minutes [where s = "token_store_new 0 (\<lambda>_. 2)" and t = 0 and rnd = "\<lambda>_. 1"])
    (simp_all add: chrono_minutes_def token_store_new_def MINUTE_def)

text \<open>
  C25. A token is not good for long: thirty minutes after it was checked out, whatever calls the
  store got in between, it is accepted only if it is the token of a secret drawn after the
  checkout.
\<close>

theorem token_dead_after_thirty_minutes:
  assumes "chrono_minutes num_minutes" and "last_refresh s \<le> t"
    and "checkout num_minutes sha1 t rnd addr s = (token, s1)"
    and "sorted (t # map fst ops @ [t'])" and "t + 30 * MINUTE \<le> t'"
    and "fst (checkin num_minutes sha1 t' rnd' addr' token' (refresh_run num_minutes ops s1))"
  shows "\<exists>secret \<in> drawn (ops @ [(t', rnd')]). token' = generate_token_from_addr sha1 addr' secret"
proof -
  let ?D = "drawn (ops @ [(t', rnd')])" and ?s = "refresh_run num_minutes ops s1"
  have "s1 = refresh_check num_minutes t rnd s" using assms(3) by (simp add: checkout_def Let_def)
  then have r: "last_refresh s1 \<le> t" using last_refresh_check [OF assms(1,2)] by simp
  have "secret_fading ?D (last_refresh s1) ?s \<and> last_refresh ?s \<le> t'"
    using r assms(4) by (intro secret_fading_run [OF assms(1)]) (auto simp: secret_fading_def drawn_def sorted_append)
  then have "curr_secret (refresh_check num_minutes t' rnd' ?s) \<in> ?D \<and>
      last_secret (refresh_check num_minutes t' rnd' ?s) \<in> ?D"
    using r assms(5) by (intro secret_fading_check(2) [OF assms(1), where r = "last_refresh s1"]) (auto simp: drawn_def)
  with assms(6) show ?thesis by (auto simp: checkin_def Let_def dest: validate_secret)
qed

theorem token_dead_after_thirty_minutes_witness:
  "\<exists>secret \<in> drawn ([] @ [(30 * MINUTE, \<lambda>_. 3)]).
     generate_token_from_addr (\<lambda>bs. bs) (IpV4 (Ipv4Addr 1 2 3 4)) 3 =
     generate_token_from_addr (\<lambda>bs. bs) (IpV4 (Ipv4Addr 1 2 3 4)) secret"
proof (rule token_dead_after_thirty_minutes)
  let ?m = "\<lambda>d. d div MINUTE" and ?s = "token_store_new 0 (\<lambda>_. 2)"
  show cm: "chrono_minutes ?m" by (simp add: chrono_minutes_def)
  show "last_refresh ?s \<le> 0" by (simp add: token_store_new_def)
  show "checkout ?m (\<lambda>bs. bs) 0 (\<lambda>_. 1) (IpV4 (Ipv4Addr 1 2 3 4)) ?s =
      (fst (checkout ?m (\<lambda>bs. bs) 0 (\<lambda>_. 1) (IpV4 (Ipv4Addr 1 2 3 4)) ?s), ?s)"
    using intervals_passed_eq [OF cm, of 0 0] by (simp add: checkout_def refresh_check_def token_store_new_def)
  show "fst (checkin ?m (\<lambda>bs. bs) (30 * MINUTE) (\<lambda>_. 3) (IpV4 (Ipv4Addr 1 2 3 4))
      (generate_token_from_addr (\<lambda>bs. bs) (IpV4 (Ipv4Addr 1 2 3 4)) 3) (refresh_run ?m [] ?s))"
    using intervals_passed_eq [OF cm, of 0 "30 * MINUTE"]
    by (simp add: checkin_def refresh_check_def token_store_new_def validate_current_or_last MINUTE_def)
qed (simp_all add: MINUTE_def)

text \<open>
  The upper bound of twenty minutes that the comment in the source claims does not hold. A
  store refreshed at the checkout, used again after 19 minutes and then again after 28 minutes
  still accepts the token.
\<close>

theorem token_accepted_after_28_minutes:
  assumes "chrono_minutes num_minutes" and "last_refresh s = t"
    and "checkout num_minutes sha1 t rnd addr s = (token, s1)"
  shows "fst (checkin num_minutes sha1 (t + 28 * MINUTE) rnd2 addr token
     (refresh_check num_minutes (t + 19 * MINUTE) rnd1 s1))"
proof -
  have "refresh_check num_minutes t rnd s = s"
    using intervals_passed_eq [OF assms(1), of t t] assms(2) by (simp add: refresh_check_def)
  then have s1: "s1 = s" "token = generate_token_from_addr sha1 addr (curr_secret s)"
    using assms(3) by (auto simp: checkout_def)
  have "refresh_check num_minutes (t + 19 * MINUTE) rnd1 s =
      \<lparr>curr_secret = rnd1 0, last_secret = curr_secret s, last_refresh = t + 19 * MINUTE\<rparr>"
    using intervals_passed_eq [OF assms(1), of t "t + 19 * MINUTE"] assms(2)
    by (simp add: refresh_check_def MINUTE_def)
  moreover have "intervals_passed num_minutes (t + 28 * MINUTE) (t + 19 * MINUTE) = 0"
    using intervals_passed_eq [OF assms(1), of "t + 19 * MINUTE" "t + 28 * MINUTE"] by (simp add: MINUTE_def)
  ultimately show ?thesis
    by (simp add: checkin_def s1 refresh_check_def [of _ "t + 28 * MINUTE"] validate_current_or_last)
qed

theorem token_accepted_after_28_minutes_witness:
  "fst (checkin (\<lambda>d. d div MINUTE) (\<lambda>bs. bs) (0 + 28 * MINUTE) (\<lambda>_. 4) (IpV4 (Ipv4Addr 1 2 3 4))
     (generate_token_from_addr (\<lambda>bs. bs) (IpV4 (Ipv4Addr 1 2 3 4)) 2)
     (refresh_check (\<lambda>d. d div MINUTE) (0 + 19 * MINUTE) (\<lambda>_. 3) (token_store_new 0 (\<lambda>_. 2))))"
proof (rule token_accepted_after_28_minutes)
  show cm: "chrono_minutes (\<lambda>d. d div MINUTE)" by (simp add: chrono_minutes_def)
  show "checkout (\<lambda>d. d div MINUTE) (\<lambda>bs. bs) 0 (\<lambda>_. 1) (IpV4 (Ipv4Addr 1 2 3 4)) (token_store_new 0 (\<lambda>_. 2)) =
      (generate_token_from_addr (\<lambda>bs. bs) (IpV4 (Ipv4Addr 1 2 3 4)) 2, token_store_new 0 (\<lambda>_. 2))"
    using intervals_passed_eq [OF cm, of 0 0] by (simp add: checkout_def refresh_check_def token_store_new_def)
qed (simp add: token_store_new_def)

end
