(* ===== verification/Dht_Storage.thy ===== *)
theory Dht_Storage
  imports Util_Sha
begin

text \<open>
  The store of announced peers, \<open>btp-dht/src/storage.rs\<close>: contacts by info hash, and next to it a
  list with the time of each, oldest first. A \<open>HashMap\<close> is a map; times are nanoseconds of UTC.
\<close>

definition MAX_ITEMS_STORED :: nat where
  "MAX_ITEMS_STORED = 500"

definition EXPIRATION_TIME_HOURS :: int where
  "EXPIRATION_TIME_HOURS = 24"

definition duration_hours :: "int \<Rightarrow> int" where
  "duration_hours h = h * 3600000000000"

record ItemExpiration =
  ie_address :: SocketAddr
  ie_inserted :: int
  ie_info_hash :: ShaHash

definition item_expiration_new :: "int \<Rightarrow> ShaHash \<Rightarrow> SocketAddr \<Rightarrow> ItemExpiration" where
  "item_expiration_new now info_hash address =
     \<lparr>ie_address = address, ie_inserted = now, ie_info_hash = info_hash\<rparr>"

definition is_expired :: "int \<Rightarrow> ItemExpiration \<Rightarrow> bool" where
  "is_expired now e \<longleftrightarrow> duration_hours EXPIRATION_TIME_HOURS \<le> now - ie_inserted e"

definition expiration_eq :: "ItemExpiration \<Rightarrow> ItemExpiration \<Rightarrow> bool" where
  "expiration_eq a b \<longleftrightarrow> ie_address a = ie_address b \<and> ie_info_hash a = ie_info_hash b"

record AnnounceItem =
  item_expiration :: ItemExpiration

definition announce_item_new :: "int \<Rightarrow> ShaHash \<Rightarrow> SocketAddr \<Rightarrow> AnnounceItem" where
  "announce_item_new now info_hash address = \<lparr>item_expiration = item_expiration_new now info_hash address\<rparr>"

definition item_eq :: "AnnounceItem \<Rightarrow> AnnounceItem \<Rightarrow> bool" where
  "item_eq a b = expiration_eq (item_expiration a) (item_expiration b)"

record AnnounceStorage =
  storage :: "ShaHash \<Rightarrow> AnnounceItem list option"
  expires :: "ItemExpiration list"

definition announce_storage_new :: AnnounceStorage where
  "announce_storage_new = \<lparr>storage = (\<lambda>_. None), expires = []\<rparr>"

definition insert_contact :: "AnnounceItem \<Rightarrow> AnnounceStorage \<Rightarrow> bool option \<times> AnnounceStorage" where
  "insert_contact item s =
     (let item_info_hash = ie_info_hash (item_expiration item);
          already_in_list = (case storage s item_info_hash of
                               Some items \<Rightarrow> list_ex (\<lambda>a. item_eq a item) items
                             | None \<Rightarrow> False)
      in case (already_in_list, length (expires s) < MAX_ITEMS_STORED) of
           (False, True) \<Rightarrow>
             (Some False,
              s\<lparr>storage := (storage s)(item_info_hash \<mapsto>
                  (case storage s item_info_hash of Some items \<Rightarrow> items @ [item] | None \<Rightarrow> [item]))\<rparr>)
         | (False, False) \<Rightarrow> (None, s)
         | (True, _) \<Rightarrow> (Some True, s))"

text \<open>The body of the loop that drops one expired contact.\<close>

definition remove_contact ::
    "ItemExpiration \<Rightarrow> (ShaHash \<Rightarrow> AnnounceItem list option) \<Rightarrow> ShaHash \<Rightarrow> AnnounceItem list option" where
  "remove_contact e m =
     (let info_hash = ie_info_hash e
      in case m info_hash of
           Some items \<Rightarrow>
             let items' = filter (\<lambda>a. \<not> expiration_eq (item_expiration a) e) items
             in if items' = [] then m(info_hash := None) else m(info_hash \<mapsto> items')
         | None \<Rightarrow> m)"

definition remove_expired_items :: "int \<Rightarrow> AnnounceStorage \<Rightarrow> AnnounceStorage" where
  "remove_expired_items curr_time s =
     (let num_expired_items = length (takeWhile (is_expired curr_time) (expires s))
      in \<lparr>storage = fold remove_contact (take num_expired_items (expires s)) (storage s),
          expires = drop num_expired_items (expires s)\<rparr>)"

text \<open>
  \<open>add\<close> gets the time of the call and \<open>AnnounceItem::new\<close> reads the clock again, at \<open>now\<close>.
\<close>

definition storage_add ::
    "int \<Rightarrow> ShaHash \<Rightarrow> SocketAddr \<Rightarrow> int \<Rightarrow> AnnounceStorage \<Rightarrow> bool \<times> AnnounceStorage" where
  "storage_add now info_hash address curr_time s =
     (let s1 = remove_expired_items curr_time s;
          item = announce_item_new now info_hash address;
          e = item_expiration item
      in case insert_contact item s1 of
           (Some True, s2) \<Rightarrow>
             (True, s2\<lparr>expires := filter (\<lambda>i. \<not> expiration_eq i e) (expires s2) @ [e]\<rparr>)
         | (Some False, s2) \<Rightarrow> (True, s2\<lparr>expires := expires s2 @ [e]\<rparr>)
         | (None, s2) \<Rightarrow> (False, s2))"

definition add_item :: "int \<Rightarrow> ShaHash \<Rightarrow> SocketAddr \<Rightarrow> AnnounceStorage \<Rightarrow> bool \<times> AnnounceStorage" where
  "add_item now info_hash address s = storage_add now info_hash address now s"

text \<open>\<open>find\<close> is the list of addresses it passes to the closure.\<close>

definition storage_find :: "ShaHash \<Rightarrow> int \<Rightarrow> AnnounceStorage \<Rightarrow> SocketAddr list \<times> AnnounceStorage" where
  "storage_find info_hash curr_time s =
     (let s1 = remove_expired_items curr_time s
      in (case storage s1 info_hash of
            Some items \<Rightarrow> map (\<lambda>item. ie_address (item_expiration item)) items
          | None \<Rightarrow> [], s1))"

definition find_items :: "int \<Rightarrow> ShaHash \<Rightarrow> AnnounceStorage \<Rightarrow> SocketAddr list \<times> AnnounceStorage" where
  "find_items now info_hash s = storage_find info_hash now s"

section \<open>The abstract store\<close>

text \<open>
  What the store promises: a map from contacts (info hash and address) to the time of their last
  announce.
\<close>

definition ekey :: "ItemExpiration \<Rightarrow> ShaHash \<times> SocketAddr" where
  "ekey e = (ie_info_hash e, ie_address e)"

definition store_abs :: "AnnounceStorage \<Rightarrow> (ShaHash \<times> SocketAddr) \<Rightarrow> int option" where
  "store_abs s = map_of (map (\<lambda>e. (ekey e, ie_inserted e)) (expires s))"

definition stored :: "(ShaHash \<Rightarrow> AnnounceItem list option) \<Rightarrow> ShaHash \<Rightarrow> (ShaHash \<times> SocketAddr) list" where
  "stored m h = (case m h of Some items \<Rightarrow> map (ekey \<circ> item_expiration) items | None \<Rightarrow> [])"

text \<open>The lists of contacts and the list of times speak of the same contacts.\<close>

definition in_step :: "(ShaHash \<Rightarrow> AnnounceItem list option) \<Rightarrow> ItemExpiration list \<Rightarrow> bool" where
  "in_step m es \<longleftrightarrow> distinct (map ekey es) \<and>
     (\<forall>h. distinct (stored m h) \<and> set (stored m h) = {k \<in> ekey ` set es. fst k = h} \<and> m h \<noteq> Some [])"

definition store_wf :: "int \<Rightarrow> AnnounceStorage \<Rightarrow> bool" where
  "store_wf now s \<longleftrightarrow> in_step (storage s) (expires s) \<and> sorted (map ie_inserted (expires s)) \<and>
     (\<forall>e\<in>set (expires s). ie_inserted e \<le> now) \<and> length (expires s) \<le> MAX_ITEMS_STORED"

lemma expiration_eq_key: "expiration_eq a b \<longleftrightarrow> ekey a = ekey b"
  by (auto simp: expiration_eq_def ekey_def)

lemma store_wf_new: "store_wf now announce_storage_new"
  by (simp add: store_wf_def in_step_def announce_storage_new_def stored_def)

lemma stored_other: "h \<noteq> ie_info_hash e \<Longrightarrow> remove_contact e m h = m h"
  by (simp add: remove_contact_def Let_def split: option.split)

lemma stored_same:
  assumes "h = ie_info_hash e"
  shows "stored (remove_contact e m) h = filter (\<lambda>k. k \<noteq> ekey e) (stored m h)"
proof (cases "m h")
  case (Some items)
  have "filter (\<lambda>k. k \<noteq> ekey e) (map (ekey \<circ> item_expiration) items) =
      map (ekey \<circ> item_expiration) (filter (\<lambda>a. \<not> expiration_eq (item_expiration a) e) items)"
    by (simp add: filter_map comp_def expiration_eq_key)
  with assms Some show ?thesis by (auto simp: stored_def remove_contact_def Let_def)
qed (use assms in \<open>simp add: stored_def remove_contact_def\<close>)

lemma in_step_remove:
  assumes "in_step m (e # es)"
  shows "in_step (remove_contact e m) es"
proof -
  have "distinct (stored (remove_contact e m) h) \<and>
      set (stored (remove_contact e m) h) = {k \<in> ekey ` set es. fst k = h} \<and> remove_contact e m h \<noteq> Some []" for h
  proof (cases "h = ie_info_hash e")
    case True
    have "remove_contact e m h \<noteq> Some []"
      using assms True by (auto simp: remove_contact_def Let_def in_step_def split: option.split)
    with assms True show ?thesis by (auto simp: stored_same in_step_def)
  next
    case False
    then have "stored (remove_contact e m) h = stored m h" "fst (ekey e) \<noteq> h"
      by (simp_all add: stored_def stored_other ekey_def)
    with assms False show ?thesis by (auto simp: in_step_def stored_other)
  qed
  with assms show ?thesis by (simp add: in_step_def)
qed

lemma in_step_remove_all: "in_step m (es @ fs) \<Longrightarrow> in_step (fold remove_contact es m) fs"
  by (induction es arbitrary: m) (simp_all add: in_step_remove)

text \<open>In a list ordered by time, the expired entries are exactly those in front.\<close>

lemma expired_in_front:
  "sorted (map ie_inserted es) \<Longrightarrow> dropWhile (is_expired now) es = filter (\<lambda>e. \<not> is_expired now e) es"
proof (induction es)
  case (Cons e es)
  show ?case
  proof (cases "is_expired now e")
    case False
    have "filter (\<lambda>e. \<not> is_expired now e) es = es"
      using Cons.prems False by (intro filter_True) (auto simp: is_expired_def)
    with False show ?thesis by simp
  qed (use Cons in simp)
qed simp

lemma drop_takeWhile: "drop (length (takeWhile p xs)) xs = dropWhile p xs"
  by (simp add: dropWhile_eq_drop)

lemma expires_remove_expired:
  "sorted (map ie_inserted (expires s)) \<Longrightarrow>
   expires (remove_expired_items now s) = filter (\<lambda>e. \<not> is_expired now e) (expires s)"
  by (simp add: remove_expired_items_def drop_takeWhile expired_in_front)

lemma remove_expired_wf:
  assumes "store_wf now s"
  shows "store_wf now (remove_expired_items now s)"
proof -
  let ?n = "length (takeWhile (is_expired now) (expires s))"
  have "in_step (storage s) (take ?n (expires s) @ drop ?n (expires s))"
    using assms by (simp add: store_wf_def)
  then have "in_step (storage (remove_expired_items now s)) (expires (remove_expired_items now s))"
    by (simp only: in_step_remove_all remove_expired_items_def Let_def AnnounceStorage.select_convs)
  moreover have "expires (remove_expired_items now s) = filter (\<lambda>e. \<not> is_expired now e) (expires s)"
    using assms by (intro expires_remove_expired) (simp add: store_wf_def)
  moreover have "length (filter p (expires s)) \<le> MAX_ITEMS_STORED" for p
    using assms order_trans [OF length_filter_le] by (auto simp: store_wf_def)
  ultimately show ?thesis using assms by (auto simp: store_wf_def sorted_filter)
qed

text \<open>The contacts that are less than a day old.\<close>

definition live :: "int \<Rightarrow> ((ShaHash \<times> SocketAddr) \<Rightarrow> int option) \<Rightarrow> (ShaHash \<times> SocketAddr) \<Rightarrow> int option" where
  "live now m k =
     (case m k of Some t \<Rightarrow> if now - t < duration_hours EXPIRATION_TIME_HOURS then Some t else None | None \<Rightarrow> None)"

lemma map_of_filter_live:
  "distinct (map ekey es) \<Longrightarrow>
   map_of (map (\<lambda>e. (ekey e, ie_inserted e)) (filter (\<lambda>e. \<not> is_expired now e) es)) =
   live now (map_of (map (\<lambda>e. (ekey e, ie_inserted e)) es))"
proof (induction es)
  case (Cons e es)
  have "map_of (map (\<lambda>e. (ekey e, ie_inserted e)) es) (ekey e) = None"
    using Cons.prems by (auto simp: map_of_eq_None_iff)
  with Cons show ?case by (auto simp: live_def is_expired_def fun_eq_iff)
qed (simp add: live_def fun_eq_iff)

lemma remove_expired_abs:
  "store_wf now s \<Longrightarrow> store_abs (remove_expired_items now s) = live now (store_abs s)"
  unfolding store_abs_def
  by (subst expires_remove_expired) (auto simp: store_wf_def in_step_def map_of_filter_live)

lemma store_abs_dom: "dom (store_abs s) = ekey ` set (expires s)"
  by (auto simp: store_abs_def dom_map_of_conv_image_fst image_image)

lemma card_store_abs: "store_wf now s \<Longrightarrow> card (dom (store_abs s)) = length (expires s)"
  using distinct_card [of "map ekey (expires s)"] by (simp add: store_abs_dom store_wf_def in_step_def)

lemma already_in_list:
  assumes "in_step m es"
  shows "(case m h of Some items \<Rightarrow> list_ex (\<lambda>a. item_eq a (announce_item_new now h a')) items | None \<Rightarrow> False)
    \<longleftrightarrow> (h, a') \<in> ekey ` set es"
proof -
  have "(case m h of Some items \<Rightarrow> list_ex (\<lambda>a. item_eq a (announce_item_new now h a')) items | None \<Rightarrow> False)
      \<longleftrightarrow> (h, a') \<in> set (stored m h)"
    by (auto simp: stored_def list_ex_iff item_eq_def expiration_eq_key announce_item_new_def
        item_expiration_new_def ekey_def image_iff split: option.split)
  also have "\<dots> \<longleftrightarrow> (h, a') \<in> ekey ` set es" using assms by (simp add: in_step_def)
  finally show ?thesis .
qed

section \<open>Adding and finding\<close>

lemma map_of_refreshed:
  "map_of (map (\<lambda>e. (ekey e, ie_inserted e)) (filter (\<lambda>i. \<not> expiration_eq i e) es @ [e])) =
   (map_of (map (\<lambda>e. (ekey e, ie_inserted e)) es))(ekey e \<mapsto> ie_inserted e)"
proof
  fix k
  show "map_of (map (\<lambda>e. (ekey e, ie_inserted e)) (filter (\<lambda>i. \<not> expiration_eq i e) es @ [e])) k =
      ((map_of (map (\<lambda>e. (ekey e, ie_inserted e)) es))(ekey e \<mapsto> ie_inserted e)) k"
    by (induction es) (auto simp: expiration_eq_key)
qed

lemma in_step_refreshed:
  assumes "in_step m es" and "ekey e \<in> ekey ` set es"
  shows "in_step m (filter (\<lambda>i. \<not> expiration_eq i e) es @ [e])"
proof -
  let ?es = "filter (\<lambda>i. \<not> expiration_eq i e) es @ [e]"
  have "ekey ` set ?es = ekey ` set es" using assms(2) by (auto simp: expiration_eq_key)
  moreover have "distinct (map ekey ?es)"
    using assms(1) by (auto simp: in_step_def expiration_eq_key distinct_map_filter)
  ultimately show ?thesis using assms(1) unfolding in_step_def by metis
qed

lemma in_step_inserted:
  assumes "in_step m es" and "ekey (item_expiration x) \<notin> ekey ` set es" and "h = ie_info_hash (item_expiration x)"
  shows "in_step (m(h \<mapsto> (case m h of Some items \<Rightarrow> items @ [x] | None \<Rightarrow> [x]))) (es @ [item_expiration x])"
proof -
  let ?m = "m(h \<mapsto> (case m h of Some items \<Rightarrow> items @ [x] | None \<Rightarrow> [x]))"
  have s: "stored ?m h = stored m h @ [ekey (item_expiration x)]" by (simp add: stored_def split: option.split)
  have o: "stored ?m h' = stored m h'" if "h' \<noteq> h" for h' using that by (simp add: stored_def)
  have k: "fst (ekey (item_expiration x)) = h" using assms(3) by (simp add: ekey_def)
  have "distinct (stored ?m h') \<and> set (stored ?m h') = {k \<in> ekey ` set (es @ [item_expiration x]). fst k = h'} \<and>
      ?m h' \<noteq> Some []" for h'
  proof (cases "h' = h")
    case True
    with s k assms show ?thesis by (auto simp: in_step_def split: option.split)
  next
    case False
    with o [OF False] k assms(1) show ?thesis by (auto simp: in_step_def)
  qed
  with assms(1,2) show ?thesis by (auto simp: in_step_def)
qed

lemma storage_add_refines:
  fixes s now h a
  defines "m \<equiv> live now (store_abs s)"
  assumes wf: "store_wf now s" and add: "add_item now h a s = (ok, s')"
  shows "store_wf now s' \<and>
    (if m (h, a) \<noteq> None \<or> card (dom m) < MAX_ITEMS_STORED
     then ok \<and> store_abs s' = m((h, a) \<mapsto> now) else \<not> ok \<and> store_abs s' = m)"
proof -
  define s1 where "s1 = remove_expired_items now s"
  let ?x = "announce_item_new now h a"
  let ?e = "item_expiration ?x"
  have e: "ekey ?e = (h, a)" "ie_inserted ?e = now" "ie_info_hash ?e = h"
    by (simp_all add: announce_item_new_def item_expiration_new_def ekey_def)
  have wf1: "store_wf now s1" and m: "store_abs s1 = m"
    using remove_expired_wf [OF wf] remove_expired_abs [OF wf] by (simp_all add: s1_def m_def)
  then have step: "in_step (storage s1) (expires s1)" and srt: "sorted (map ie_inserted (expires s1))"
    and le: "\<forall>e\<in>set (expires s1). ie_inserted e \<le> now" and len: "length (expires s1) \<le> MAX_ITEMS_STORED"
    by (auto simp: store_wf_def)
  have mem: "m (h, a) \<noteq> None \<longleftrightarrow> (h, a) \<in> ekey ` set (expires s1)"
    using store_abs_dom [of s1] m by auto
  have card: "card (dom m) = length (expires s1)" using card_store_abs [OF wf1] m by simp
  have in_list: "(case storage s1 h of Some items \<Rightarrow> list_ex (\<lambda>y. item_eq y ?x) items | None \<Rightarrow> False) \<longleftrightarrow>
      (h, a) \<in> ekey ` set (expires s1)"
    by (rule already_in_list [OF step])
  consider (old) "(h, a) \<in> ekey ` set (expires s1)"
    | (new) "(h, a) \<notin> ekey ` set (expires s1)" "length (expires s1) < MAX_ITEMS_STORED"
    | (full) "(h, a) \<notin> ekey ` set (expires s1)" "\<not> length (expires s1) < MAX_ITEMS_STORED"
    by blast
  then show ?thesis
  proof cases
    case old
    let ?es = "filter (\<lambda>i. \<not> expiration_eq i ?e) (expires s1)"
    have "insert_contact ?x s1 = (Some True, s1)"
      using old in_list e by (simp add: insert_contact_def Let_def)
    then have r: "ok" "s' = s1\<lparr>expires := ?es @ [?e]\<rparr>"
      using add by (auto simp: add_item_def storage_add_def s1_def [symmetric] Let_def)
    have "length ?es < length (expires s1)"
      using old e by (auto intro!: length_filter_less simp: expiration_eq_key)
    then have "store_wf now s'"
      using r srt le len old e in_step_refreshed [OF step, of ?e]
      by (auto simp: store_wf_def sorted_append sorted_filter)
    moreover have "store_abs s' = m((h, a) \<mapsto> now)"
      using r m e map_of_refreshed [of ?e "expires s1"] by (simp add: store_abs_def)
    ultimately show ?thesis using r mem old by simp
  next
    case new
    have "insert_contact ?x s1 = (Some False, s1\<lparr>storage := (storage s1)(h \<mapsto>
        (case storage s1 h of Some items \<Rightarrow> items @ [?x] | None \<Rightarrow> [?x]))\<rparr>)"
      using new in_list e by (simp add: insert_contact_def Let_def)
    then have r: "ok" "s' = \<lparr>storage = (storage s1)(h \<mapsto> (case storage s1 h of Some items \<Rightarrow> items @ [?x] | None \<Rightarrow> [?x])),
        expires = expires s1 @ [?e]\<rparr>"
      using add by (auto simp: add_item_def storage_add_def s1_def [symmetric] Let_def)
    have "store_wf now s'"
      using r srt le new e in_step_inserted [OF step, of ?x h] by (auto simp: store_wf_def sorted_append)
    moreover have "filter (\<lambda>i. \<not> expiration_eq i ?e) (expires s1) = expires s1"
      using new e by (intro filter_True) (metis expiration_eq_key image_eqI)
    then have "store_abs s' = m((h, a) \<mapsto> now)"
      using r m e map_of_refreshed [of ?e "expires s1"] by (simp add: store_abs_def)
    ultimately show ?thesis using r new card by simp
  next
    case full
    have "insert_contact ?x s1 = (None, s1)"
      using full in_list e by (simp add: insert_contact_def Let_def)
    then have "\<not> ok" "s' = s1"
      using add by (auto simp: add_item_def storage_add_def s1_def [symmetric] Let_def)
    with full wf1 m mem card show ?thesis by simp
  qed
qed

lemma storage_find_refines:
  assumes wf: "store_wf now s" and find: "find_items now h s = (addrs, s')"
  shows "store_wf now s' \<and> store_abs s' = live now (store_abs s) \<and> distinct addrs \<and>
    set addrs = {a. live now (store_abs s) (h, a) \<noteq> None}"
proof -
  define s1 where "s1 = remove_expired_items now s"
  have wf1: "store_wf now s1" and m: "store_abs s1 = live now (store_abs s)"
    using remove_expired_wf [OF wf] remove_expired_abs [OF wf] by (simp_all add: s1_def)
  then have step: "distinct (stored (storage s1) h)"
    "set (stored (storage s1) h) = {k \<in> ekey ` set (expires s1). fst k = h}"
    by (auto simp: store_wf_def in_step_def)
  have r: "s' = s1" "addrs = map snd (stored (storage s1) h)"
    using find by (auto simp: find_items_def storage_find_def s1_def stored_def ekey_def Let_def split: option.splits)
  have fst: "\<forall>k\<in>set (stored (storage s1) h). fst k = h" using step(2) by auto
  have "set addrs = snd ` {k \<in> dom (store_abs s1). fst k = h}"
    using r(2) step(2) by (simp add: store_abs_dom)
  then have "set addrs = {a. store_abs s1 (h, a) \<noteq> None}"
    by (auto intro: rev_image_eqI)
  moreover have "distinct addrs"
    using step(1) fst r(2) by (simp add: distinct_map inj_on_def prod_eq_iff)
  ultimately show ?thesis using wf1 m r by simp
qed

text \<open>The calls a store gets, at times that do not go back.\<close>

inductive store_reachable :: "int \<Rightarrow> AnnounceStorage \<Rightarrow> bool" where
  store_new: "store_reachable now announce_storage_new"
| store_add: "store_reachable t s \<Longrightarrow> t \<le> now \<Longrightarrow> store_reachable now (snd (add_item now h a s))"
| store_find: "store_reachable t s \<Longrightarrow> t \<le> now \<Longrightarrow> store_reachable now (snd (find_items now h s))"

lemma store_wf_later: "store_wf t s \<Longrightarrow> t \<le> now \<Longrightarrow> store_wf now s"
  by (auto simp: store_wf_def)

lemma store_reachable_wf: "store_reachable t s \<Longrightarrow> store_wf t s"
proof (induction rule: store_reachable.induct)
  case (store_add t s now h a)
  then show ?case using storage_add_refines [OF store_wf_later, of t s now h a] by (metis prod.collapse)
next
  case (store_find t s now h)
  then show ?case using storage_find_refines [OF store_wf_later, of t s now h] by (metis prod.collapse)
qed (rule store_wf_new)

section \<open>Properties\<close>

text \<open>
  C8. The announce store refines a map from contacts to the time of their last announce. After
  any calls, at times that do not go back, an announce at time \<open>now\<close> drops what is a day old or
  older and then records the contact with the new time, unless the contact is unknown and 500 are
  stored already; then it says so and records nothing. A lookup delivers, once each, exactly the
  addresses announced for the info hash during the last day.
\<close>

theorem announce_storage_refines_map:
  assumes "store_reachable t s" and "t \<le> now"
  shows "(let m = live now (store_abs s); (ok, s') = add_item now h a s
      in if m (h, a) \<noteq> None \<or> card (dom m) < MAX_ITEMS_STORED
         then ok \<and> store_abs s' = m((h, a) \<mapsto> now) else \<not> ok \<and> store_abs s' = m) \<and>
    (let (addrs, s') = find_items now h s
      in store_abs s' = live now (store_abs s) \<and> distinct addrs \<and>
         set addrs = {a. live now (store_abs s) (h, a) \<noteq> None})"
proof -
  have wf: "store_wf now s" using store_reachable_wf [OF assms(1)] assms(2) by (rule store_wf_later)
  obtain ok s1 where add: "add_item now h a s = (ok, s1)" by fastforce
  obtain addrs s2 where find: "find_items now h s = (addrs, s2)" by fastforce
  from storage_add_refines [OF wf add] storage_find_refines [OF wf find] add find show ?thesis
    by (simp add: Let_def)
qed

theorem announce_storage_refines_map_witness:
  "set (fst (find_items 100 [1] (snd (add_item 5 [1] (SockV4 \<lparr>v4_ip = Ipv4Addr 1 2 3 4, v4_port = 5\<rparr>) announce_storage_new))))
     = {SockV4 \<lparr>v4_ip = Ipv4Addr 1 2 3 4, v4_port = 5\<rparr>}"
proof -
  let ?a = "SockV4 \<lparr>v4_ip = Ipv4Addr 1 2 3 4, v4_port = 5\<rparr>"
  let ?s = "snd (add_item 5 [1] ?a announce_storage_new)"
  have "store_abs announce_storage_new = Map.empty" by (simp add: store_abs_def announce_storage_new_def)
  then have empty: "live 5 (store_abs announce_storage_new) = Map.empty" by (simp add: live_def fun_eq_iff)
  have "store_abs ?s = [([1], ?a) \<mapsto> 5]"
    using announce_storage_refines_map [OF store_new, of 5 5 "[1]" ?a]
    unfolding empty by (simp add: Let_def MAX_ITEMS_STORED_def case_prod_unfold)
  moreover have "store_reachable 5 ?s" by (rule store_add [OF store_new [of 0]]) simp
  from announce_storage_refines_map [OF this, of 100 "[1]" ?a]
  have "set (fst (find_items 100 [1] ?s)) = {a. live 100 (store_abs ?s) ([1], a) \<noteq> None}"
    by (simp add: Let_def case_prod_unfold)
  ultimately show ?thesis by (auto simp: live_def duration_hours_def EXPIRATION_TIME_HOURS_def)
qed

end
