(* ===== verification/Bencode_Build.thy ===== *)
theory Bencode_Build
  imports Bencode_Correct
begin

text \<open>
  Building bencode values with the macros \<open>ben_map!\<close>, \<open>ben_list!\<close>, \<open>ben_bytes!\<close> and \<open>ben_int!\<close> of
  \<open>btp-bencode/src/lib.rs\<close>, and reading them back: the lookups of \<open>BConvert\<close> on a decoded value
  return what was put into the map that was encoded. Messages and torrent files are written and read this way.
\<close>

section \<open>The macros\<close>

definition ben_map :: "(bytes \<times> BencodeMut) list \<Rightarrow> BencodeMut" where
  "ben_map kvs = MDict (foldl (\<lambda>map (key, val). snd (dict_insert map key val)) [] kvs)"

definition ben_list :: "BencodeMut list \<Rightarrow> BencodeMut" where
  "ben_list bs = MList (foldl list_push [] bs)"

definition ben_bytes :: "bytes \<Rightarrow> BencodeMut" where
  "ben_bytes b = new_bytes b"

definition ben_int :: "i64 \<Rightarrow> BencodeMut" where
  "ben_int n = new_int n"

section \<open>The map that is built\<close>

abbreviation put_all :: "(bytes \<times> BencodeMut) list \<Rightarrow> BencodeMut btree \<Rightarrow> BencodeMut btree" where
  "put_all kvs d \<equiv> foldl (\<lambda>map (key, val). snd (dict_insert map key val)) d kvs"

lemma put_all_wf: "bt_wf d \<Longrightarrow> bt_wf (put_all kvs d)"
  by (induction kvs arbitrary: d) (auto simp: dict_insert_def bt_wf_put)

lemma put_all_set: "set (put_all kvs d) \<subseteq> set kvs \<union> set d"
proof (induction kvs arbitrary: d)
  case (Cons kv kvs)
  have "set (bt_put (fst kv) (snd kv) d) \<subseteq> insert kv (set d)"
    using set_bt_put [of "fst kv" "snd kv" d] by auto
  then show ?case using Cons.IH [of "bt_put (fst kv) (snd kv) d"] by (auto simp: dict_insert_def split_beta)
qed simp

lemma put_all_get: "distinct (map fst kvs) \<Longrightarrow> bt_get (put_all kvs d) k = (case map_of kvs k of Some v \<Rightarrow> Some v | None \<Rightarrow> bt_get d k)"
proof (induction kvs arbitrary: d)
  case (Cons kv kvs)
  then have "map_of kvs (fst kv) = None" by (simp add: map_of_eq_None_iff)
  with Cons show ?case by (cases kv) (auto simp: dict_insert_def bt_get_put split: option.split)
qed simp

lemma foldl_list_push: "foldl list_push xs bs = xs @ bs"
  by (induction bs arbitrary: xs) (simp_all add: list_push_def)

lemma ben_list_eq [simp]: "ben_list bs = MList bs"
  by (simp add: ben_list_def foldl_list_push)

definition ben_dict :: "BencodeMut \<Rightarrow> BencodeMut btree" where
  "ben_dict v = (case mut_dict v of Some d \<Rightarrow> d | None \<Rightarrow> [])"

lemma put_all_subset: "kv \<in> set (put_all kvs []) \<Longrightarrow> kv \<in> set kvs"
  using put_all_set [where d = "[]" and kvs = kvs] by auto

lemma ben_map_wf:
  assumes "\<And>kv. kv \<in> set kvs \<Longrightarrow> length (fst kv) < 2 ^ 63 \<and> mut_wf (snd kv)"
  shows "mut_wf (ben_map kvs)"
  unfolding ben_map_def mut_wf_MDict
proof (intro conjI ballI)
  fix kv assume "kv \<in> set (put_all kvs [])"
  from assms [OF put_all_subset [OF this]] show "length (fst kv) < 2 ^ 63" "mut_wf (snd kv)" by simp_all
qed (simp add: put_all_wf)

lemma ben_map_nesting:
  assumes "\<And>kv. kv \<in> set kvs \<Longrightarrow> nesting (snd kv) \<le> n"
  shows "nesting (ben_map kvs) \<le> Suc n"
  unfolding ben_map_def nesting_MDict_le by (rule ballI, rule assms, rule put_all_subset)

lemma put_all_map_of: "distinct (map fst kvs) \<Longrightarrow> bt_get (put_all kvs []) = map_of kvs"
  using put_all_get [of kvs "[]"] by (fastforce split: option.split)

section \<open>Reading back what was built\<close>

text \<open>A decoded dictionary \<open>d\<close> holds the entries \<open>m\<close> when its lookups give the values of \<open>m\<close>, up to their buffers.\<close>

definition holds :: "BencodeRef btree \<Rightarrow> (bytes \<Rightarrow> BencodeMut option) \<Rightarrow> bool" where
  "holds d m \<longleftrightarrow> (\<forall>k. map_option erase (dict_lookup d k) = m k)"

lemma holds_lookup: "holds d m \<Longrightarrow> map_option erase (dict_lookup d k) = m k"
  by (simp add: holds_def)

lemma holds_None: "holds d m \<Longrightarrow> dict_lookup d k = None \<longleftrightarrow> m k = None"
  using holds_lookup [of d m k] by (metis map_option_is_None)

lemma holds_Some: "holds d m \<Longrightarrow> m k = Some v \<Longrightarrow> \<exists>r. dict_lookup d k = Some r \<and> erase r = v"
  using holds_lookup [of d m k] by auto

lemma erase_accessors:
  "ref_int r = mut_int (erase r)" "ref_bytes r = mut_bytes (erase r)" "ref_str r = mut_str (erase r)"
  by (cases r; simp add: ref_bytes_def ref_str_def ref_str_ext_def mut_str_def)+

text \<open>Lookups of scalars can be computed in the map itself.\<close>

lemma holds_scalar:
  assumes "holds d m"
  shows "lookup_and_convert_bytes h dict_lookup ref_bytes d k =
      (case m k of None \<Rightarrow> Err (h (MissingKey k)) | Some v \<Rightarrow> ok_or (h (WrongType k ''Bytes'')) (mut_bytes v))"
    and "lookup_and_convert_str h dict_lookup ref_str d k =
      (case m k of None \<Rightarrow> Err (h (MissingKey k)) | Some v \<Rightarrow> ok_or (h (WrongType k ''UTF-8 Bytes'')) (mut_str v))"
    and "lookup_and_convert_int h dict_lookup ref_int d k =
      (case m k of None \<Rightarrow> Err (h (MissingKey k)) | Some v \<Rightarrow> ok_or (h (WrongType k ''Integer'')) (mut_int v))"
  using holds_lookup [OF assms, of k]
  by (auto simp: lookup_and_convert_defs convert_defs erase_accessors split: option.splits)

lemma mut_accessors_ben [simp]:
  "ok_or e (mut_bytes (ben_bytes b)) = Ok b" "ok_or e (mut_int (ben_int n)) = Ok n"
  "utf8_valid b \<Longrightarrow> ok_or e (mut_str (ben_bytes b)) = Ok b"
  by (simp_all add: ok_or_def ben_bytes_def ben_int_def mut_str_def)

lemma erase_MList: "erase r = MList vs \<Longrightarrow> \<exists>rs. ref_list r = Some rs \<and> map erase rs = vs"
  by (cases r) auto

lemma erase_MDict: "erase r = MDict es \<Longrightarrow> \<exists>d. ref_dict r = Some d \<and> holds d (bt_get es)"
proof (cases r)
  case (RDict d b)
  moreover have "map_option erase (map_of d k) = map_of (map (map_prod (\<lambda>k. k) erase) d) k" for k
    by (induction d) auto
  ultimately show "erase r = MDict es \<Longrightarrow> ?thesis" by (auto simp: holds_def dict_lookup_def bt_get_def)
qed auto

lemma holds_list:
  assumes "holds d m" and "m k = Some (MList vs)"
  shows "\<exists>rs. lookup_and_convert_list h dict_lookup ref_list d k = Ok rs \<and> map erase rs = vs"
  using holds_Some [OF assms] erase_MList
  by (fastforce simp: lookup_and_convert_list_def convert_lookup_def convert_list_def ok_or_def)

lemma holds_no_list:
  assumes "holds d m" and "m k = None"
  shows "lookup_and_convert_list h dict_lookup ref_list d k = Err (h (MissingKey k))"
  using holds_None [OF assms(1), of k] assms(2) by (simp add: lookup_and_convert_list_def convert_lookup_def)

lemma holds_dict:
  assumes "holds d m" and "m k = Some (MDict es)"
  shows "\<exists>d'. lookup_and_convert_dict h dict_lookup ref_dict d k = Ok d' \<and> holds d' (bt_get es)"
  using holds_Some [OF assms] erase_MDict
  by (fastforce simp: lookup_and_convert_dict_def convert_lookup_def convert_dict_def ok_or_def)

lemma holds_ben_map:
  assumes "holds d m" and "m k = Some (ben_map kvs)" and "distinct (map fst kvs)"
  shows "\<exists>d'. lookup_and_convert_dict h dict_lookup ref_dict d k = Ok d' \<and> holds d' (map_of kvs)"
  using holds_dict [OF assms(1)] assms(2) put_all_map_of [OF assms(3)] unfolding ben_map_def by metis

text \<open>A map that is encoded is decoded to a dictionary that holds its entries.\<close>

lemma decode_ben_map:
  assumes "mut_wf (ben_map kvs)" and "nesting (ben_map kvs) \<le> max_recursion opts" and "distinct (map fst kvs)"
  shows "\<exists>r d. decode_top (encode_top (ben_map kvs)) opts = Ok r \<and> ref_dict r = Some d \<and> holds d (map_of kvs)"
proof -
  obtain r where "decode_top (encode_top (ben_map kvs)) opts = Ok r" "erase r = ben_map kvs"
    using decode_top_encode_top [OF assms(1,2)] by blast
  then show ?thesis using erase_MDict [of r "put_all kvs []"] put_all_map_of [OF assms(3)] unfolding ben_map_def by metis
qed

section \<open>Values that survive encoding\<close>

definition fits :: "bytes \<Rightarrow> bool" where
  "fits b \<longleftrightarrow> length b < 2 ^ 63"

definition value_ok :: "nat \<Rightarrow> BencodeMut \<Rightarrow> bool" where
  "value_ok n v \<longleftrightarrow> mut_wf v \<and> nesting v \<le> n"

lemma value_ok_int [simp]: "value_ok (Suc n) (ben_int i)"
  by (simp add: value_ok_def ben_int_def)

lemma value_ok_bytes [simp]: "value_ok (Suc n) (ben_bytes b) \<longleftrightarrow> fits b"
  by (simp add: value_ok_def ben_bytes_def fits_def)

lemma value_ok_list [simp]: "value_ok (Suc n) (MList vs) \<longleftrightarrow> list_all (value_ok n) vs"
  by (auto simp: value_ok_def mut_wf_MList nesting_MList_le list_all_iff)

lemma value_ok_map:
  assumes "list_all (\<lambda>kv. fits (fst kv) \<and> value_ok n (snd kv)) kvs"
  shows "value_ok (Suc n) (ben_map kvs)"
  unfolding value_ok_def
proof
  show "mut_wf (ben_map kvs)" by (rule ben_map_wf) (use assms in \<open>auto simp: list_all_iff value_ok_def fits_def\<close>)
  show "nesting (ben_map kvs) \<le> Suc n" by (rule ben_map_nesting) (use assms in \<open>auto simp: list_all_iff value_ok_def\<close>)
qed

lemma decode_built:
  assumes "value_ok n (ben_map kvs)" and "n \<le> 50" and "distinct (map fst kvs)"
  shows "\<exists>r d. decode_top (encode_top (ben_map kvs)) default_opt = Ok r \<and> ref_dict r = Some d \<and> holds d (map_of kvs)"
  by (rule decode_ben_map) (use assms in \<open>simp_all add: value_ok_def default_opt_def\<close>)

end
