(* ===== verification/Dht_Message.thy ===== *)
theory Dht_Message
  imports Bencode_Build Util_Sha
begin

text \<open>
  The messages of the DHT, \<open>btp-dht/src/message/*.rs\<close>: requests, responses and errors as bencoded
  dictionaries, their construction, encoding and parsing, and the compact forms of node and peer lists.
  The validators \<open>MessageValidate\<close>, \<open>RequestValidate\<close>, \<open>ResponseValidate\<close> and \<open>ErrorValidate\<close> all turn a
  conversion error into the same \<open>DhtError\<close>; what they hold of the transaction id is an argument. Error texts
  are byte sequences, formatted as the source formats them.
\<close>

section \<open>Keys\<close>

definition TRANSACTION_ID_KEY :: bytes where "TRANSACTION_ID_KEY = ascii ''t''"
definition MESSAGE_TYPE_KEY :: bytes where "MESSAGE_TYPE_KEY = ascii ''y''"
definition REQUEST_TYPE_KEY :: bytes where "REQUEST_TYPE_KEY = ascii ''q''"
definition RESPONSE_TYPE_KEY :: bytes where "RESPONSE_TYPE_KEY = ascii ''r''"
definition ERROR_TYPE_KEY :: bytes where "ERROR_TYPE_KEY = ascii ''e''"
definition ROOT_ID_KEY :: bytes where "ROOT_ID_KEY = ascii ''root''"
definition NODE_ID_KEY :: bytes where "NODE_ID_KEY = ascii ''id''"
definition NODES_KEY :: bytes where "NODES_KEY = ascii ''nodes''"
definition VALUES_KEY :: bytes where "VALUES_KEY = ascii ''values''"
definition TARGET_ID_KEY :: bytes where "TARGET_ID_KEY = ascii ''target''"
definition INFO_HASH_KEY :: bytes where "INFO_HASH_KEY = ascii ''info_hash''"
definition TOKEN_KEY :: bytes where "TOKEN_KEY = ascii ''token''"
definition REQUEST_ARGS_KEY :: bytes where "REQUEST_ARGS_KEY = ascii ''a''"
definition PING_TYPE_KEY :: bytes where "PING_TYPE_KEY = ascii ''ping''"
definition FIND_NODE_TYPE_KEY :: bytes where "FIND_NODE_TYPE_KEY = ascii ''find_node''"
definition GET_PEERS_TYPE_KEY :: bytes where "GET_PEERS_TYPE_KEY = ascii ''get_peers''"
definition ANNOUNCE_PEER_TYPE_KEY :: bytes where "ANNOUNCE_PEER_TYPE_KEY = ascii ''announce_peer''"
definition RESPONSE_ARGS_KEY :: bytes where "RESPONSE_ARGS_KEY = ascii ''r''"
definition ERROR_ARGS_KEY :: bytes where "ERROR_ARGS_KEY = ascii ''e''"
definition PORT_KEY :: bytes where "PORT_KEY = ascii ''port''"
definition IMPLIED_PORT_KEY :: bytes where "IMPLIED_PORT_KEY = ascii ''implied_port''"

lemmas key_defs = TRANSACTION_ID_KEY_def MESSAGE_TYPE_KEY_def REQUEST_TYPE_KEY_def RESPONSE_TYPE_KEY_def
  ERROR_TYPE_KEY_def ROOT_ID_KEY_def NODE_ID_KEY_def NODES_KEY_def VALUES_KEY_def TARGET_ID_KEY_def
  INFO_HASH_KEY_def TOKEN_KEY_def REQUEST_ARGS_KEY_def PING_TYPE_KEY_def FIND_NODE_TYPE_KEY_def
  GET_PEERS_TYPE_KEY_def ANNOUNCE_PEER_TYPE_KEY_def RESPONSE_ARGS_KEY_def ERROR_ARGS_KEY_def PORT_KEY_def
  IMPLIED_PORT_KEY_def

section \<open>Errors\<close>

datatype ErrorCode = GenericError | ServerError | ProtocolError | MethodUnknown

record ErrorMessage =
  err_trans_id :: bytes
  err_code :: ErrorCode
  err_message :: bytes

datatype DhtError =
    DhtBencode BencodeConvertError
  | DhtIo string
  | InvalidMessage bytes
  | InvalidResponse bytes
  | UnsolicitedResponse
  | InvalidRequest ErrorMessage

definition NUM_ERROR_ARGS :: nat where "NUM_ERROR_ARGS = 2"
definition GENERIC_ERROR_CODE :: byte where "GENERIC_ERROR_CODE = 201"
definition SERVER_ERROR_CODE :: byte where "SERVER_ERROR_CODE = 202"
definition PROTOCOL_ERROR_CODE :: byte where "PROTOCOL_ERROR_CODE = 203"
definition METHOD_UNKNOWN_CODE :: byte where "METHOD_UNKNOWN_CODE = 204"

lemmas error_code_defs = GENERIC_ERROR_CODE_def SERVER_ERROR_CODE_def PROTOCOL_ERROR_CODE_def METHOD_UNKNOWN_CODE_def

definition error_code_new :: "byte \<Rightarrow> (DhtError, ErrorCode) outcome" where
  "error_code_new code =
     (if code = GENERIC_ERROR_CODE then Ok GenericError
      else if code = SERVER_ERROR_CODE then Ok ServerError
      else if code = PROTOCOL_ERROR_CODE then Ok ProtocolError
      else if code = METHOD_UNKNOWN_CODE then Ok MethodUnknown
      else Err (InvalidResponse (ascii ''Error Message Invalid Error Code '' @ nat_to_string (unat code))))"

fun error_code_into :: "ErrorCode \<Rightarrow> byte" where
  "error_code_into GenericError = GENERIC_ERROR_CODE"
| "error_code_into ServerError = SERVER_ERROR_CODE"
| "error_code_into ProtocolError = PROTOCOL_ERROR_CODE"
| "error_code_into MethodUnknown = METHOD_UNKNOWN_CODE"

definition error_message_new :: "bytes \<Rightarrow> ErrorCode \<Rightarrow> bytes \<Rightarrow> ErrorMessage" where
  "error_message_new trans_id code message = \<lparr>err_trans_id = trans_id, err_code = code, err_message = message\<rparr>"

fun map_err :: "('e \<Rightarrow> 'f) \<Rightarrow> ('e, 'a) outcome \<Rightarrow> ('f, 'a) outcome" where
  "map_err f (Ok a) = Ok a"
| "map_err f (Err e) = Err (f e)"
| "map_err f Panic = Panic"

section \<open>Conversions\<close>

definition handle_error :: "BencodeConvertError \<Rightarrow> DhtError" where
  "handle_error error = DhtBencode error"

type_synonym ref_map = "BencodeRef btree"

abbreviation get_bytes :: "ref_map \<Rightarrow> bytes \<Rightarrow> (DhtError, bytes) outcome" where
  "get_bytes \<equiv> lookup_and_convert_bytes handle_error dict_lookup ref_bytes"

abbreviation get_str :: "ref_map \<Rightarrow> bytes \<Rightarrow> (DhtError, bytes) outcome" where
  "get_str \<equiv> lookup_and_convert_str handle_error dict_lookup ref_str"

abbreviation get_int :: "ref_map \<Rightarrow> bytes \<Rightarrow> (DhtError, i64) outcome" where
  "get_int \<equiv> lookup_and_convert_int handle_error dict_lookup ref_int"

abbreviation get_list :: "ref_map \<Rightarrow> bytes \<Rightarrow> (DhtError, BencodeRef list) outcome" where
  "get_list \<equiv> lookup_and_convert_list handle_error dict_lookup ref_list"

abbreviation get_dict :: "ref_map \<Rightarrow> bytes \<Rightarrow> (DhtError, ref_map) outcome" where
  "get_dict \<equiv> lookup_and_convert_dict handle_error dict_lookup ref_dict"

text \<open>The output of \<open>{:?}\<close> for a byte slice.\<close>

fun debug_items :: "bytes \<Rightarrow> bytes" where
  "debug_items [] = []"
| "debug_items [b] = nat_to_string (unat b)"
| "debug_items (b # bs) = nat_to_string (unat b) @ ascii '', '' @ debug_items bs"

definition debug_slice :: "bytes \<Rightarrow> bytes" where
  "debug_slice bs = ascii ''['' @ debug_items bs @ ascii '']''"

section \<open>Compact node and peer lists\<close>

definition BYTES_PER_COMPACT_IP :: nat where "BYTES_PER_COMPACT_IP = 6"
definition BYTES_PER_COMPACT_NODE_INFO :: nat where "BYTES_PER_COMPACT_NODE_INFO = 26"
definition NODE_ID_LEN :: nat where "NODE_ID_LEN = SHA_HASH_LEN"

record CompactNodeInfo =
  cni_nodes :: bytes

definition compact_node_info_new :: "bytes \<Rightarrow> (LengthError, CompactNodeInfo) outcome" where
  "compact_node_info_new nodes =
     (if length nodes mod BYTES_PER_COMPACT_NODE_INFO \<noteq> 0
      then Err (length_error LengthMultipleExpected BYTES_PER_COMPACT_NODE_INFO)
      else Ok \<lparr>cni_nodes = nodes\<rparr>)"

definition socket_v4_from_bytes_be :: "bytes \<Rightarrow> (LengthError, SocketAddrV4) outcome" where
  "socket_v4_from_bytes_be bs =
     (if length bs \<noteq> BYTES_PER_COMPACT_IP then Err (length_error LengthExpected BYTES_PER_COMPACT_IP)
      else let port = 0 OR ucast (bs ! 4);
               port = push_bit 8 port;
               port = port OR ucast (bs ! 5)
           in Ok \<lparr>v4_ip = Ipv4Addr (bs ! 0) (bs ! 1) (bs ! 2) (bs ! 3), v4_port = port\<rparr>)"

definition parts_from_compact_info :: "bytes \<Rightarrow> (unit, ShaHash \<times> SocketAddrV4) outcome" where
  "parts_from_compact_info compact_info =
     (if length compact_info < NODE_ID_LEN then Panic
      else try_bind (unwrap (sha_from_hash (slice compact_info 0 NODE_ID_LEN))) (\<lambda>node_id.
        let compact_ip_offset = NODE_ID_LEN + BYTES_PER_COMPACT_IP
        in if length compact_info < compact_ip_offset then Panic
           else try_bind (unwrap (socket_v4_from_bytes_be (slice compact_info NODE_ID_LEN compact_ip_offset))) (\<lambda>socket.
             Ok (node_id, socket))))"

text \<open>The iterators, run to their end.\<close>

record CompactNodeInfoIter =
  cnii_nodes :: bytes
  cnii_pos :: nat

definition compact_node_next ::
    "CompactNodeInfoIter \<Rightarrow> (unit, (ShaHash \<times> SocketAddrV4) option \<times> CompactNodeInfoIter) outcome" where
  "compact_node_next it =
     (if cnii_pos it = length (cnii_nodes it) then Ok (None, it)
      else let compact_info_offset = cnii_pos it + BYTES_PER_COMPACT_NODE_INFO
           in if length (cnii_nodes it) < compact_info_offset then Panic
              else try_bind (parts_from_compact_info (slice (cnii_nodes it) (cnii_pos it) compact_info_offset))
                (\<lambda>parts. Ok (Some parts, it\<lparr>cnii_pos := compact_info_offset\<rparr>)))"

function collect_compact_nodes :: "CompactNodeInfoIter \<Rightarrow> (unit, (ShaHash \<times> SocketAddrV4) list) outcome" where
  "collect_compact_nodes it =
     (case compact_node_next it of
        Ok (Some parts, it') \<Rightarrow> try_bind (collect_compact_nodes it') (\<lambda>rest. Ok (parts # rest))
      | Ok (None, _) \<Rightarrow> Ok []
      | Err e \<Rightarrow> Err e
      | Panic \<Rightarrow> Panic)"
  by pat_completeness auto
termination
  by (relation "measure (\<lambda>it. length (cnii_nodes it) - cnii_pos it)")
    (auto simp: compact_node_next_def Let_def outcome_simps BYTES_PER_COMPACT_NODE_INFO_def split: if_splits)

declare collect_compact_nodes.simps [simp del]

definition compact_nodes_list :: "CompactNodeInfo \<Rightarrow> (unit, (ShaHash \<times> SocketAddrV4) list) outcome" where
  "compact_nodes_list info = collect_compact_nodes \<lparr>cnii_nodes = cni_nodes info, cnii_pos = 0\<rparr>"

record CompactValueInfo =
  cvi_values :: "bytes list"

fun check_values :: "nat \<Rightarrow> bytes list \<Rightarrow> (LengthError, unit) outcome" where
  "check_values i [] = Ok ()"
| "check_values i (node # rest) =
     (if length node \<noteq> BYTES_PER_COMPACT_IP
      then Err (length_error_with_index LengthExpected BYTES_PER_COMPACT_IP i)
      else check_values (i + 1) rest)"

definition compact_value_info_new :: "bytes list \<Rightarrow> (LengthError, CompactValueInfo) outcome" where
  "compact_value_info_new values = try_bind (check_values 0 values) (\<lambda>_. Ok \<lparr>cvi_values = values\<rparr>)"

primrec collect_compact_values :: "bytes list \<Rightarrow> (unit, SocketAddrV4 list) outcome" where
  "collect_compact_values [] = Ok []"
| "collect_compact_values (compact_info # rest) =
     try_bind (unwrap (socket_v4_from_bytes_be compact_info)) (\<lambda>socket.
     try_bind (collect_compact_values rest) (\<lambda>sockets. Ok (socket # sockets)))"

definition compact_values_list :: "CompactValueInfo \<Rightarrow> (unit, SocketAddrV4 list) outcome" where
  "compact_values_list info = collect_compact_values (cvi_values info)"

section \<open>Validation\<close>

definition request_node_id :: "bytes \<Rightarrow> bytes \<Rightarrow> (DhtError, ShaHash) outcome" where
  "request_node_id trans_id node_id =
     map_err (\<lambda>_. InvalidRequest (error_message_new trans_id ProtocolError
         (ascii ''Node ID With Length '' @ nat_to_string (length node_id) @ ascii '' Is Not Valid'')))
       (sha_from_hash node_id)"

definition request_info_hash :: "bytes \<Rightarrow> bytes \<Rightarrow> (DhtError, ShaHash) outcome" where
  "request_info_hash trans_id info_hash =
     map_err (\<lambda>_. InvalidRequest (error_message_new trans_id ProtocolError
         (ascii ''InfoHash With Length '' @ nat_to_string (length info_hash) @ ascii '' Is Not Valid'')))
       (sha_from_hash info_hash)"

definition response_node_id :: "bytes \<Rightarrow> bytes \<Rightarrow> (DhtError, ShaHash) outcome" where
  "response_node_id trans_id node_id =
     map_err (\<lambda>_. InvalidResponse (ascii ''TID '' @ debug_slice trans_id @ ascii '' Found Node ID With Invalid Length ''
         @ nat_to_string (length node_id)))
       (sha_from_hash node_id)"

definition validate_nodes :: "bytes \<Rightarrow> bytes \<Rightarrow> (DhtError, CompactNodeInfo) outcome" where
  "validate_nodes trans_id nodes =
     map_err (\<lambda>_. InvalidResponse (ascii ''TID '' @ debug_slice trans_id @ ascii '' Found Nodes Structure With ''
         @ nat_to_string (length nodes) @ ascii '' Number Of Bytes Instead Of Correct Multiple''))
       (compact_node_info_new nodes)"

fun collect_peers :: "bytes \<Rightarrow> BencodeRef list \<Rightarrow> (DhtError, bytes list) outcome" where
  "collect_peers trans_id [] = Ok []"
| "collect_peers trans_id (bencode # rest) =
     (case ref_bytes bencode of
        Some peer \<Rightarrow> try_bind (collect_peers trans_id rest) (\<lambda>peers. Ok (peer # peers))
      | None \<Rightarrow> Err (InvalidResponse (ascii ''TID '' @ debug_slice trans_id @ ascii '' Found Values Structure As Non Bytes Type'')))"

definition validate_values :: "bytes \<Rightarrow> BencodeRef list \<Rightarrow> (DhtError, CompactValueInfo) outcome" where
  "validate_values trans_id values =
     try_bind (collect_peers trans_id values) (\<lambda>peers.
       map_err (\<lambda>_. InvalidResponse (ascii ''TID '' @ debug_slice trans_id
           @ ascii '' Found Values Structrue With Wrong Number Of Bytes''))
         (compact_value_info_new peers))"

section \<open>Requests\<close>

record PingRequest =
  ping_trans_id :: bytes
  ping_node_id :: ShaHash

definition ping_from_parts :: "ref_map \<Rightarrow> bytes \<Rightarrow> (DhtError, PingRequest) outcome" where
  "ping_from_parts rqst_root trans_id =
     try_bind (get_bytes rqst_root NODE_ID_KEY) (\<lambda>node_id_bytes.
     try_bind (request_node_id trans_id node_id_bytes) (\<lambda>node_id.
     Ok \<lparr>ping_trans_id = trans_id, ping_node_id = node_id\<rparr>))"

definition ping_encode :: "PingRequest \<Rightarrow> bytes" where
  "ping_encode p = encode_top (ben_map [
     (TRANSACTION_ID_KEY, ben_bytes (ping_trans_id p)),
     (MESSAGE_TYPE_KEY, ben_bytes REQUEST_TYPE_KEY),
     (REQUEST_TYPE_KEY, ben_bytes PING_TYPE_KEY),
     (REQUEST_ARGS_KEY, ben_map [(NODE_ID_KEY, ben_bytes (ping_node_id p))])])"

record FindNodeRequest =
  fn_trans_id :: bytes
  fn_node_id :: ShaHash
  fn_target_id :: ShaHash

definition find_node_from_parts :: "ref_map \<Rightarrow> bytes \<Rightarrow> bytes \<Rightarrow> (DhtError, FindNodeRequest) outcome" where
  "find_node_from_parts rqst_root trans_id target_key =
     try_bind (get_bytes rqst_root NODE_ID_KEY) (\<lambda>node_id_bytes.
     try_bind (request_node_id trans_id node_id_bytes) (\<lambda>node_id.
     try_bind (get_bytes rqst_root target_key) (\<lambda>target_id_bytes.
     try_bind (request_node_id trans_id target_id_bytes) (\<lambda>target_id.
     Ok \<lparr>fn_trans_id = trans_id, fn_node_id = node_id, fn_target_id = target_id\<rparr>))))"

definition find_node_encode :: "FindNodeRequest \<Rightarrow> bytes" where
  "find_node_encode f = encode_top (ben_map [
     (TRANSACTION_ID_KEY, ben_bytes (fn_trans_id f)),
     (MESSAGE_TYPE_KEY, ben_bytes REQUEST_TYPE_KEY),
     (REQUEST_TYPE_KEY, ben_bytes FIND_NODE_TYPE_KEY),
     (REQUEST_ARGS_KEY, ben_map [
        (NODE_ID_KEY, ben_bytes (fn_node_id f)),
        (TARGET_ID_KEY, ben_bytes (fn_target_id f))])])"

record GetPeersRequest =
  gp_trans_id :: bytes
  gp_node_id :: ShaHash
  gp_info_hash :: ShaHash

definition get_peers_from_parts :: "ref_map \<Rightarrow> bytes \<Rightarrow> (DhtError, GetPeersRequest) outcome" where
  "get_peers_from_parts rqst_root trans_id =
     try_bind (get_bytes rqst_root NODE_ID_KEY) (\<lambda>node_id_bytes.
     try_bind (request_node_id trans_id node_id_bytes) (\<lambda>node_id.
     try_bind (get_bytes rqst_root INFO_HASH_KEY) (\<lambda>info_hash_bytes.
     try_bind (request_info_hash trans_id info_hash_bytes) (\<lambda>info_hash.
     Ok \<lparr>gp_trans_id = trans_id, gp_node_id = node_id, gp_info_hash = info_hash\<rparr>))))"

definition get_peers_encode :: "GetPeersRequest \<Rightarrow> bytes" where
  "get_peers_encode g = encode_top (ben_map [
     (TRANSACTION_ID_KEY, ben_bytes (gp_trans_id g)),
     (MESSAGE_TYPE_KEY, ben_bytes REQUEST_TYPE_KEY),
     (REQUEST_TYPE_KEY, ben_bytes GET_PEERS_TYPE_KEY),
     (REQUEST_ARGS_KEY, ben_map [
        (NODE_ID_KEY, ben_bytes (gp_node_id g)),
        (INFO_HASH_KEY, ben_bytes (gp_info_hash g))])])"

datatype ConnectPort = Implied | Explicit u16

record AnnouncePeerRequest =
  ap_trans_id :: bytes
  ap_node_id :: ShaHash
  ap_info_hash :: ShaHash
  ap_token :: bytes
  ap_port :: ConnectPort

definition announce_peer_from_parts :: "ref_map \<Rightarrow> bytes \<Rightarrow> (DhtError, AnnouncePeerRequest) outcome" where
  "announce_peer_from_parts rqst_root trans_id =
     try_bind (get_bytes rqst_root NODE_ID_KEY) (\<lambda>node_id_bytes.
     try_bind (request_node_id trans_id node_id_bytes) (\<lambda>node_id.
     try_bind (get_bytes rqst_root INFO_HASH_KEY) (\<lambda>info_hash_bytes.
     try_bind (request_info_hash trans_id info_hash_bytes) (\<lambda>info_hash.
     try_bind (get_bytes rqst_root TOKEN_KEY) (\<lambda>token.
     let port = get_int rqst_root PORT_KEY;
         implied = (case dict_lookup rqst_root IMPLIED_PORT_KEY of
                      Some b \<Rightarrow> (case ref_int b of Some n \<Rightarrow> n \<noteq> 0 | None \<Rightarrow> False)
                    | None \<Rightarrow> False)
     in try_bind (if implied then Ok Implied
                  else try_bind port (\<lambda>port_number. Ok (Explicit (ucast port_number)))) (\<lambda>response_port.
        Ok \<lparr>ap_trans_id = trans_id, ap_node_id = node_id, ap_info_hash = info_hash, ap_token = token,
            ap_port = response_port\<rparr>))))))"

definition announce_peer_encode :: "AnnouncePeerRequest \<Rightarrow> bytes" where
  "announce_peer_encode a =
     (let (displayed_port, implied_value) = (case ap_port a of Implied \<Rightarrow> (0, 1) | Explicit n \<Rightarrow> (n, 0))
      in encode_top (ben_map [
        (TRANSACTION_ID_KEY, ben_bytes (ap_trans_id a)),
        (MESSAGE_TYPE_KEY, ben_bytes REQUEST_TYPE_KEY),
        (REQUEST_TYPE_KEY, ben_bytes ANNOUNCE_PEER_TYPE_KEY),
        (REQUEST_ARGS_KEY, ben_map [
           (NODE_ID_KEY, ben_bytes (ap_node_id a)),
           (IMPLIED_PORT_KEY, ben_int implied_value),
           (INFO_HASH_KEY, ben_bytes (ap_info_hash a)),
           (PORT_KEY, ben_int (ucast displayed_port)),
           (TOKEN_KEY, ben_bytes (ap_token a))])]))"

datatype RequestType =
    RqPing PingRequest
  | RqFindNode FindNodeRequest
  | RqGetPeers GetPeersRequest
  | RqAnnouncePeer AnnouncePeerRequest

definition forward_compatible_find_node :: "ref_map \<Rightarrow> bytes option" where
  "forward_compatible_find_node rqst_root =
     (case (dict_lookup rqst_root TARGET_ID_KEY, dict_lookup rqst_root INFO_HASH_KEY) of
        (Some _, _) \<Rightarrow> Some TARGET_ID_KEY
      | (None, Some _) \<Rightarrow> Some INFO_HASH_KEY
      | (None, None) \<Rightarrow> None)"

definition request_from_parts :: "ref_map \<Rightarrow> bytes \<Rightarrow> bytes \<Rightarrow> (DhtError, RequestType) outcome" where
  "request_from_parts root trans_id rqst_type =
     try_bind (get_dict root REQUEST_ARGS_KEY) (\<lambda>rqst_root.
       if rqst_type = PING_TYPE_KEY then
         try_bind (ping_from_parts rqst_root trans_id) (\<lambda>r. Ok (RqPing r))
       else if rqst_type = FIND_NODE_TYPE_KEY then
         try_bind (find_node_from_parts rqst_root trans_id TARGET_ID_KEY) (\<lambda>r. Ok (RqFindNode r))
       else if rqst_type = GET_PEERS_TYPE_KEY then
         try_bind (get_peers_from_parts rqst_root trans_id) (\<lambda>r. Ok (RqGetPeers r))
       else if rqst_type = ANNOUNCE_PEER_TYPE_KEY then
         try_bind (announce_peer_from_parts rqst_root trans_id) (\<lambda>r. Ok (RqAnnouncePeer r))
       else
         case forward_compatible_find_node rqst_root of
           Some target_key \<Rightarrow> try_bind (find_node_from_parts rqst_root trans_id target_key) (\<lambda>r. Ok (RqFindNode r))
         | None \<Rightarrow> Err (InvalidRequest (error_message_new trans_id MethodUnknown
             (ascii ''Received Unknown Request Method: '' @ rqst_type))))"

section \<open>Responses\<close>

record ActingResponse =
  act_trans_id :: bytes
  act_node_id :: ShaHash

definition acting_from_parts :: "ref_map \<Rightarrow> bytes \<Rightarrow> (DhtError, ActingResponse) outcome" where
  "acting_from_parts rqst_root trans_id =
     try_bind (get_bytes rqst_root NODE_ID_KEY) (\<lambda>node_id_bytes.
     try_bind (request_node_id trans_id node_id_bytes) (\<lambda>node_id.
     Ok \<lparr>act_trans_id = trans_id, act_node_id = node_id\<rparr>))"

definition acting_encode :: "ActingResponse \<Rightarrow> bytes" where
  "acting_encode a = encode_top (ben_map [
     (TRANSACTION_ID_KEY, ben_bytes (act_trans_id a)),
     (MESSAGE_TYPE_KEY, ben_bytes RESPONSE_TYPE_KEY),
     (RESPONSE_TYPE_KEY, ben_map [(NODE_ID_KEY, ben_bytes (act_node_id a))])])"

record FindNodeResponse =
  fnr_trans_id :: bytes
  fnr_node_id :: ShaHash
  fnr_nodes :: CompactNodeInfo

definition find_node_response_new :: "bytes \<Rightarrow> ShaHash \<Rightarrow> bytes \<Rightarrow> (DhtError, FindNodeResponse) outcome" where
  "find_node_response_new trans_id node_id nodes =
     try_bind (validate_nodes trans_id nodes) (\<lambda>compact_nodes.
     Ok \<lparr>fnr_trans_id = trans_id, fnr_node_id = node_id, fnr_nodes = compact_nodes\<rparr>)"

definition find_node_response_from_parts :: "ref_map \<Rightarrow> bytes \<Rightarrow> (DhtError, FindNodeResponse) outcome" where
  "find_node_response_from_parts rsp_root trans_id =
     try_bind (get_bytes rsp_root NODE_ID_KEY) (\<lambda>node_id_bytes.
     try_bind (response_node_id trans_id node_id_bytes) (\<lambda>node_id.
     try_bind (get_bytes rsp_root NODES_KEY) (\<lambda>nodes.
     find_node_response_new trans_id node_id nodes)))"

definition find_node_response_encode :: "FindNodeResponse \<Rightarrow> bytes" where
  "find_node_response_encode f = encode_top (ben_map [
     (TRANSACTION_ID_KEY, ben_bytes (fnr_trans_id f)),
     (MESSAGE_TYPE_KEY, ben_bytes RESPONSE_TYPE_KEY),
     (RESPONSE_TYPE_KEY, ben_map [
        (NODE_ID_KEY, ben_bytes (fnr_node_id f)),
        (NODES_KEY, ben_bytes (cni_nodes (fnr_nodes f)))])])"

datatype CompactInfoType =
    InfoNodes CompactNodeInfo
  | InfoValues CompactValueInfo
  | InfoBoth CompactNodeInfo CompactValueInfo

record GetPeersResponse =
  gpr_trans_id :: bytes
  gpr_node_id :: ShaHash
  gpr_token :: "bytes option"
  gpr_info_type :: CompactInfoType

definition get_peers_response_from_parts :: "ref_map \<Rightarrow> bytes \<Rightarrow> (DhtError, GetPeersResponse) outcome" where
  "get_peers_response_from_parts rsp_root trans_id =
     try_bind (get_bytes rsp_root NODE_ID_KEY) (\<lambda>node_id_bytes.
     try_bind (response_node_id trans_id node_id_bytes) (\<lambda>node_id.
     let token = (case get_bytes rsp_root TOKEN_KEY of Ok t \<Rightarrow> Some t | _ \<Rightarrow> None)
     in try_bind
          (case (get_bytes rsp_root NODES_KEY, get_list rsp_root VALUES_KEY) of
             (Ok nodes, Ok values) \<Rightarrow>
               try_bind (validate_nodes trans_id nodes) (\<lambda>nodes_info.
               try_bind (validate_values trans_id values) (\<lambda>values_info.
               Ok (InfoBoth nodes_info values_info)))
           | (Ok nodes, _) \<Rightarrow> try_bind (validate_nodes trans_id nodes) (\<lambda>nodes_info. Ok (InfoNodes nodes_info))
           | (_, Ok values) \<Rightarrow> try_bind (validate_values trans_id values) (\<lambda>values_info. Ok (InfoValues values_info))
           | (_, _) \<Rightarrow> Err (InvalidResponse (ascii ''Failed To Find nodes Or values In Node Response'')))
          (\<lambda>info_type.
             Ok \<lparr>gpr_trans_id = trans_id, gpr_node_id = node_id, gpr_token = token, gpr_info_type = info_type\<rparr>)))"

definition values_list :: "CompactValueInfo \<Rightarrow> BencodeMut" where
  "values_list values = MList (foldl list_push [] (map ben_bytes (cvi_values values)))"

definition get_peers_response_args :: "GetPeersResponse \<Rightarrow> BencodeMut btree" where
  "get_peers_response_args g =
     (let args = snd (dict_insert [] NODE_ID_KEY (ben_bytes (gpr_node_id g)));
          args = (case gpr_token g of Some token \<Rightarrow> snd (dict_insert args TOKEN_KEY (ben_bytes token)) | None \<Rightarrow> args)
      in case gpr_info_type g of
           InfoNodes nodes \<Rightarrow> snd (dict_insert args NODES_KEY (ben_bytes (cni_nodes nodes)))
         | InfoValues values \<Rightarrow> snd (dict_insert args VALUES_KEY (values_list values))
         | InfoBoth nodes values \<Rightarrow>
             snd (dict_insert (snd (dict_insert args NODES_KEY (ben_bytes (cni_nodes nodes)))) VALUES_KEY (values_list values)))"

definition get_peers_response_encode :: "GetPeersResponse \<Rightarrow> bytes" where
  "get_peers_response_encode g = encode_top (ben_map [
     (TRANSACTION_ID_KEY, ben_bytes (gpr_trans_id g)),
     (MESSAGE_TYPE_KEY, ben_bytes RESPONSE_TYPE_KEY),
     (RESPONSE_ARGS_KEY, MDict (get_peers_response_args g))])"

datatype ExpectedResponse = ExFindNode | ExGetPeers | ExActing | ExGetData | ExPutData | ExNone

datatype ResponseType =
    RsPing ActingResponse
  | RsFindNode FindNodeResponse
  | RsGetPeers GetPeersResponse
  | RsAnnouncePeer ActingResponse
  | RsActing ActingResponse

definition response_from_parts :: "ref_map \<Rightarrow> bytes \<Rightarrow> (DhtError, ResponseType) outcome" where
  "response_from_parts root trans_id =
     try_bind (get_dict root RESPONSE_ARGS_KEY) (\<lambda>rqst_root.
       let rsp_type = (if dict_lookup rqst_root TOKEN_KEY \<noteq> None then ExGetPeers
                       else if dict_lookup rqst_root NODES_KEY \<noteq> None then ExFindNode
                       else ExActing)
       in case rsp_type of
            ExFindNode \<Rightarrow> try_bind (find_node_response_from_parts rqst_root trans_id) (\<lambda>r. Ok (RsFindNode r))
          | ExGetPeers \<Rightarrow> try_bind (get_peers_response_from_parts rqst_root trans_id) (\<lambda>r. Ok (RsGetPeers r))
          | ExActing \<Rightarrow> try_bind (acting_from_parts rqst_root trans_id) (\<lambda>r. Ok (RsActing r))
          | ExGetData \<Rightarrow> Panic
          | ExPutData \<Rightarrow> Panic
          | ExNone \<Rightarrow> Err UnsolicitedResponse)"

section \<open>Error messages\<close>

definition extract_error_args :: "BencodeRef list \<Rightarrow> (DhtError, byte \<times> bytes) outcome" where
  "extract_error_args args =
     (if length args \<noteq> NUM_ERROR_ARGS
      then Err (InvalidResponse (ascii ''Error Message Invalid Number Of Error Args: '' @ nat_to_string (length args)))
      else
        try_bind (convert_int handle_error ref_int (args ! 0) (ERROR_ARGS_KEY @ ascii ''[0]'')) (\<lambda>code.
        try_bind (convert_str handle_error ref_str (args ! 1) (ERROR_ARGS_KEY @ ascii ''[1]'')) (\<lambda>message.
        Ok (ucast code, message))))"

definition error_from_parts :: "ref_map \<Rightarrow> bytes \<Rightarrow> (DhtError, ErrorMessage) outcome" where
  "error_from_parts root trans_id =
     try_bind (get_list root ERROR_ARGS_KEY) (\<lambda>error_args.
     try_bind (extract_error_args error_args) (\<lambda>(code, message).
     try_bind (error_code_new code) (\<lambda>error_code.
     Ok \<lparr>err_trans_id = trans_id, err_code = error_code, err_message = message\<rparr>)))"

definition error_encode :: "ErrorMessage \<Rightarrow> bytes" where
  "error_encode e =
     (let error_code = ucast (error_code_into (err_code e))
      in encode_top (ben_map [
        (TRANSACTION_ID_KEY, ben_bytes (err_trans_id e)),
        (MESSAGE_TYPE_KEY, ben_bytes ERROR_TYPE_KEY),
        (ERROR_TYPE_KEY, ben_list [ben_int error_code, ben_bytes (err_message e)])]))"

section \<open>Messages\<close>

datatype MessageType = MtRequest RequestType | MtResponse ResponseType | MtError ErrorMessage

definition message_new :: "BencodeRef \<Rightarrow> (DhtError, MessageType) outcome" where
  "message_new message =
     try_bind (convert_dict handle_error ref_dict message ROOT_ID_KEY) (\<lambda>msg_root.
     try_bind (get_bytes msg_root TRANSACTION_ID_KEY) (\<lambda>trans_id.
     try_bind (get_str msg_root MESSAGE_TYPE_KEY) (\<lambda>msg_type.
       if msg_type = REQUEST_TYPE_KEY then
         try_bind (get_str msg_root REQUEST_TYPE_KEY) (\<lambda>rqst_type.
         try_bind (request_from_parts msg_root trans_id rqst_type) (\<lambda>m. Ok (MtRequest m)))
       else if msg_type = RESPONSE_TYPE_KEY then
         try_bind (response_from_parts msg_root trans_id) (\<lambda>m. Ok (MtResponse m))
       else if msg_type = ERROR_TYPE_KEY then
         try_bind (error_from_parts msg_root trans_id) (\<lambda>m. Ok (MtError m))
       else Err (InvalidMessage msg_type))))"

end
