(* ===== verification/Dht_Message_Correct.thy ===== *)
theory Dht_Message_Correct
  imports Dht_Message
begin

text \<open>
  Correctness of the DHT messages: every well-formed message survives encoding and decoding, parsing never
  panics, and the compact lists of nodes and peers are read without a panic.
\<close>

section \<open>Keys\<close>

lemma key_bytes:
  "TRANSACTION_ID_KEY = [0x74]"
  "MESSAGE_TYPE_KEY = [0x79]"
  "REQUEST_TYPE_KEY = [0x71]"
  "RESPONSE_TYPE_KEY = [0x72]"
  "ERROR_TYPE_KEY = [0x65]"
  "ROOT_ID_KEY = [0x72, 0x6f, 0x6f, 0x74]"
  "NODE_ID_KEY = [0x69, 0x64]"
  "NODES_KEY = [0x6e, 0x6f, 0x64, 0x65, 0x73]"
  "VALUES_KEY = [0x76, 0x61, 0x6c, 0x75, 0x65, 0x73]"
  "TARGET_ID_KEY = [0x74, 0x61, 0x72, 0x67, 0x65, 0x74]"
  "INFO_HASH_KEY = [0x69, 0x6e, 0x66, 0x6f, 0x5f, 0x68, 0x61, 0x73, 0x68]"
  "TOKEN_KEY = [0x74, 0x6f, 0x6b, 0x65, 0x6e]"
  "REQUEST_ARGS_KEY = [0x61]"
  "PING_TYPE_KEY = [0x70, 0x69, 0x6e, 0x67]"
  "FIND_NODE_TYPE_KEY = [0x66, 0x69, 0x6e, 0x64, 0x5f, 0x6e, 0x6f, 0x64, 0x65]"
  "GET_PEERS_TYPE_KEY = [0x67, 0x65, 0x74, 0x5f, 0x70, 0x65, 0x65, 0x72, 0x73]"
  "ANNOUNCE_PEER_TYPE_KEY = [0x61, 0x6e, 0x6e, 0x6f, 0x75, 0x6e, 0x63, 0x65, 0x5f, 0x70, 0x65, 0x65, 0x72]"
  "RESPONSE_ARGS_KEY = [0x72]"
  "ERROR_ARGS_KEY = [0x65]"
  "PORT_KEY = [0x70, 0x6f, 0x72, 0x74]"
  "IMPLIED_PORT_KEY = [0x69, 0x6d, 0x70, 0x6c, 0x69, 0x65, 0x64, 0x5f, 0x70, 0x6f, 0x72, 0x74]"
  by code_simp+

section \<open>Well-formed messages\<close>

lemma ok_or_simps: "ok_or e (Some a) = Ok a" "ok_or e None = Err e"
  by (simp_all add: ok_or_def)

lemma sha_wf_fits: "sha_wf h \<Longrightarrow> fits h"
  by (simp add: sha_wf_def fits_def SHA_HASH_LEN_def)

fun info_wf :: "CompactInfoType \<Rightarrow> bool" where
  "info_wf (InfoNodes n) \<longleftrightarrow> fits (cni_nodes n) \<and> length (cni_nodes n) mod 26 = 0"
| "info_wf (InfoValues v) \<longleftrightarrow> list_all (\<lambda>x. length x = 6) (cvi_values v)"
| "info_wf (InfoBoth n v) \<longleftrightarrow>
     fits (cni_nodes n) \<and> length (cni_nodes n) mod 26 = 0 \<and> list_all (\<lambda>x. length x = 6) (cvi_values v)"

fun message_wf :: "MessageType \<Rightarrow> bool" where
  "message_wf (MtRequest (RqPing p)) \<longleftrightarrow> fits (ping_trans_id p) \<and> sha_wf (ping_node_id p)"
| "message_wf (MtRequest (RqFindNode f)) \<longleftrightarrow> fits (fn_trans_id f) \<and> sha_wf (fn_node_id f) \<and> sha_wf (fn_target_id f)"
| "message_wf (MtRequest (RqGetPeers g)) \<longleftrightarrow> fits (gp_trans_id g) \<and> sha_wf (gp_node_id g) \<and> sha_wf (gp_info_hash g)"
| "message_wf (MtRequest (RqAnnouncePeer a)) \<longleftrightarrow>
     fits (ap_trans_id a) \<and> sha_wf (ap_node_id a) \<and> sha_wf (ap_info_hash a) \<and> fits (ap_token a)"
| "message_wf (MtResponse (RsFindNode f)) \<longleftrightarrow>
     fits (fnr_trans_id f) \<and> sha_wf (fnr_node_id f) \<and> info_wf (InfoNodes (fnr_nodes f))"
| "message_wf (MtResponse (RsGetPeers g)) \<longleftrightarrow>
     fits (gpr_trans_id g) \<and> sha_wf (gpr_node_id g) \<and> (\<exists>t. gpr_token g = Some t \<and> fits t) \<and> info_wf (gpr_info_type g)"
| "message_wf (MtResponse (RsPing a)) \<longleftrightarrow> fits (act_trans_id a) \<and> sha_wf (act_node_id a)"
| "message_wf (MtResponse (RsAnnouncePeer a)) \<longleftrightarrow> fits (act_trans_id a) \<and> sha_wf (act_node_id a)"
| "message_wf (MtResponse (RsActing a)) \<longleftrightarrow> fits (act_trans_id a) \<and> sha_wf (act_node_id a)"
| "message_wf (MtError e) \<longleftrightarrow> fits (err_trans_id e) \<and> fits (err_message e) \<and> utf8_valid (err_message e)"

fun message_encode :: "MessageType \<Rightarrow> bytes" where
  "message_encode (MtRequest (RqPing p)) = ping_encode p"
| "message_encode (MtRequest (RqFindNode f)) = find_node_encode f"
| "message_encode (MtRequest (RqGetPeers g)) = get_peers_encode g"
| "message_encode (MtRequest (RqAnnouncePeer a)) = announce_peer_encode a"
| "message_encode (MtResponse (RsFindNode f)) = find_node_response_encode f"
| "message_encode (MtResponse (RsGetPeers g)) = get_peers_response_encode g"
| "message_encode (MtResponse (RsPing a)) = acting_encode a"
| "message_encode (MtResponse (RsAnnouncePeer a)) = acting_encode a"
| "message_encode (MtResponse (RsActing a)) = acting_encode a"
| "message_encode (MtError e) = error_encode e"

text \<open>The responses to pings and announces have the same form; they are received as one kind.\<close>

fun received :: "MessageType \<Rightarrow> MessageType" where
  "received (MtResponse (RsPing a)) = MtResponse (RsActing a)"
| "received (MtResponse (RsAnnouncePeer a)) = MtResponse (RsActing a)"
| "received m = m"

section \<open>Parsing what was encoded\<close>

lemma keys_fit [simp]: "fits TRANSACTION_ID_KEY" "fits MESSAGE_TYPE_KEY" "fits REQUEST_TYPE_KEY" "fits RESPONSE_TYPE_KEY"
  "fits ERROR_TYPE_KEY" "fits NODE_ID_KEY" "fits NODES_KEY" "fits VALUES_KEY" "fits TARGET_ID_KEY" "fits INFO_HASH_KEY"
  "fits TOKEN_KEY" "fits REQUEST_ARGS_KEY" "fits RESPONSE_ARGS_KEY" "fits ERROR_ARGS_KEY" "fits PORT_KEY" "fits IMPLIED_PORT_KEY"
  "fits PING_TYPE_KEY" "fits FIND_NODE_TYPE_KEY" "fits GET_PEERS_TYPE_KEY" "fits ANNOUNCE_PEER_TYPE_KEY"
  by (simp_all add: fits_def key_defs)

lemma keys_utf8 [simp]: "utf8_valid REQUEST_TYPE_KEY" "utf8_valid RESPONSE_TYPE_KEY" "utf8_valid ERROR_TYPE_KEY"
  "utf8_valid PING_TYPE_KEY" "utf8_valid FIND_NODE_TYPE_KEY" "utf8_valid GET_PEERS_TYPE_KEY" "utf8_valid ANNOUNCE_PEER_TYPE_KEY"
  by code_simp+

lemma validated [simp]:
  "sha_wf h \<Longrightarrow> request_node_id t h = Ok h" "sha_wf h \<Longrightarrow> request_info_hash t h = Ok h"
  "sha_wf h \<Longrightarrow> response_node_id t h = Ok h"
  using sha_from_hash_Ok [of h h] by (simp_all add: request_node_id_def request_info_hash_def response_node_id_def)

text \<open>The frame of a request, of a response and of an error.\<close>

lemma request_frame:
  assumes "fits t" and "fits q" and "utf8_valid q" and "distinct (map fst args)"
    and "list_all (\<lambda>kv. fits (fst kv) \<and> value_ok 1 (snd kv)) args"
  shows "\<exists>r d a. decode_top (encode_top (ben_map [(TRANSACTION_ID_KEY, ben_bytes t), (MESSAGE_TYPE_KEY, ben_bytes REQUEST_TYPE_KEY),
      (REQUEST_TYPE_KEY, ben_bytes q), (REQUEST_ARGS_KEY, ben_map args)])) default_opt = Ok r \<and>
    message_new r = try_bind (request_from_parts d t q) (\<lambda>m. Ok (MtRequest m)) \<and>
    get_dict d REQUEST_ARGS_KEY = Ok a \<and> holds a (map_of args)"
proof -
  let ?kvs = "[(TRANSACTION_ID_KEY, ben_bytes t), (MESSAGE_TYPE_KEY, ben_bytes REQUEST_TYPE_KEY),
      (REQUEST_TYPE_KEY, ben_bytes q), (REQUEST_ARGS_KEY, ben_map args)]"
  have d: "distinct (map fst ?kvs)" by (simp add: key_bytes)
  have "value_ok (Suc (Suc 1)) (ben_map ?kvs)"
    by (rule value_ok_map) (use assms value_ok_map [OF assms(5)] in simp)
  from decode_built [OF this _ d] obtain r d where r: "decode_top (encode_top (ben_map ?kvs)) default_opt = Ok r"
      "ref_dict r = Some d" "holds d (map_of ?kvs)" by auto
  moreover have "message_new r = try_bind (request_from_parts d t q) (\<lambda>m. Ok (MtRequest m))"
    using r(2) assms(3) by (simp add: message_new_def convert_dict_def ok_or_simps holds_scalar [OF r(3)] key_bytes)
  moreover obtain a where "get_dict d REQUEST_ARGS_KEY = Ok a" "holds a (map_of args)"
    using holds_ben_map [OF r(3) _ assms(4), of REQUEST_ARGS_KEY handle_error] by (auto simp: key_bytes)
  ultimately show ?thesis by blast
qed

lemma response_frame:
  assumes "fits t" and "value_ok 3 (MDict es)" and "bt_get es = m"
  shows "\<exists>r d a. decode_top (encode_top (ben_map [(TRANSACTION_ID_KEY, ben_bytes t), (MESSAGE_TYPE_KEY, ben_bytes RESPONSE_TYPE_KEY),
      (RESPONSE_ARGS_KEY, MDict es)])) default_opt = Ok r \<and>
    message_new r = try_bind (response_from_parts d t) (\<lambda>m. Ok (MtResponse m)) \<and>
    get_dict d RESPONSE_ARGS_KEY = Ok a \<and> holds a m"
proof -
  let ?kvs = "[(TRANSACTION_ID_KEY, ben_bytes t), (MESSAGE_TYPE_KEY, ben_bytes RESPONSE_TYPE_KEY), (RESPONSE_ARGS_KEY, MDict es)]"
  have d: "distinct (map fst ?kvs)" by (simp add: key_bytes)
  have "value_ok (Suc 3) (ben_map ?kvs)"
    by (rule value_ok_map) (use assms value_ok_bytes [of 2] in \<open>simp add: numeral_3_eq_3\<close>)
  from decode_built [OF this _ d] obtain r d where r: "decode_top (encode_top (ben_map ?kvs)) default_opt = Ok r"
      "ref_dict r = Some d" "holds d (map_of ?kvs)" by auto
  moreover have "message_new r = try_bind (response_from_parts d t) (\<lambda>m. Ok (MtResponse m))"
    using r(2) by (simp add: message_new_def convert_dict_def ok_or_simps holds_scalar [OF r(3)] key_bytes)
  moreover obtain a where "get_dict d RESPONSE_ARGS_KEY = Ok a" "holds a m"
    using holds_dict [OF r(3), of RESPONSE_ARGS_KEY es handle_error] assms(3) by (auto simp: key_bytes)
  ultimately show ?thesis by blast
qed

text \<open>A request whose arguments are parsed to \<open>rq\<close> is received as \<open>rq\<close>.\<close>

lemma request_roundtrip:
  assumes "fits t" and "fits q" and "utf8_valid q" and "distinct (map fst args)"
    and "list_all (\<lambda>kv. fits (fst kv) \<and> value_ok 1 (snd kv)) args"
    and parse: "\<And>d a. get_dict d REQUEST_ARGS_KEY = Ok a \<Longrightarrow> holds a (map_of args) \<Longrightarrow> request_from_parts d t q = Ok rq"
  shows "\<exists>r. decode_top (encode_top (ben_map [(TRANSACTION_ID_KEY, ben_bytes t), (MESSAGE_TYPE_KEY, ben_bytes REQUEST_TYPE_KEY),
      (REQUEST_TYPE_KEY, ben_bytes q), (REQUEST_ARGS_KEY, ben_map args)])) default_opt = Ok r \<and> message_new r = Ok (MtRequest rq)"
proof -
  obtain r d a where "decode_top (encode_top (ben_map [(TRANSACTION_ID_KEY, ben_bytes t), (MESSAGE_TYPE_KEY, ben_bytes REQUEST_TYPE_KEY),
      (REQUEST_TYPE_KEY, ben_bytes q), (REQUEST_ARGS_KEY, ben_map args)])) default_opt = Ok r"
    "message_new r = try_bind (request_from_parts d t q) (\<lambda>m. Ok (MtRequest m))"
    "get_dict d REQUEST_ARGS_KEY = Ok a" "holds a (map_of args)"
    using request_frame [OF assms(1-5)] by blast
  then show ?thesis using parse [of d a] by simp
qed

lemma response_roundtrip:
  assumes "fits t" and "value_ok 3 (MDict es)" and "bt_get es = m"
    and parse: "\<And>d a. get_dict d RESPONSE_ARGS_KEY = Ok a \<Longrightarrow> holds a m \<Longrightarrow> response_from_parts d t = Ok rs"
  shows "\<exists>r. decode_top (encode_top (ben_map [(TRANSACTION_ID_KEY, ben_bytes t), (MESSAGE_TYPE_KEY, ben_bytes RESPONSE_TYPE_KEY),
      (RESPONSE_ARGS_KEY, MDict es)])) default_opt = Ok r \<and> message_new r = Ok (MtResponse rs)"
proof -
  obtain r d a where "decode_top (encode_top (ben_map [(TRANSACTION_ID_KEY, ben_bytes t), (MESSAGE_TYPE_KEY, ben_bytes RESPONSE_TYPE_KEY),
      (RESPONSE_ARGS_KEY, MDict es)])) default_opt = Ok r"
    "message_new r = try_bind (response_from_parts d t) (\<lambda>m. Ok (MtResponse m))"
    "get_dict d RESPONSE_ARGS_KEY = Ok a" "holds a m"
    using response_frame [OF assms(1-3)] by blast
  then show ?thesis using parse [of d a] by simp
qed

lemmas request_parts = request_from_parts_def ping_from_parts_def find_node_from_parts_def get_peers_from_parts_def
  announce_peer_from_parts_def

lemma value_ok_1 [simp]: "value_ok 1 (ben_bytes b) \<longleftrightarrow> fits b" "value_ok 1 (ben_int n)"
  using value_ok_bytes [of 0 b] value_ok_int [of 0 n] by simp_all

lemma mut_int_ben: "mut_int (ben_int n) = Some n"
  by (simp add: ben_int_def)

lemma holds_implied:
  "holds d m \<Longrightarrow> (case dict_lookup d k of Some b \<Rightarrow> (case ref_int b of Some n \<Rightarrow> n \<noteq> 0 | None \<Rightarrow> False) | None \<Rightarrow> False) =
     (case m k of Some v \<Rightarrow> (case mut_int v of Some n \<Rightarrow> n \<noteq> 0 | None \<Rightarrow> False) | None \<Rightarrow> False)"
  using holds_lookup [of d m k] by (auto simp: erase_accessors split: option.splits)

lemma message_request_roundtrip:
  assumes "message_wf (MtRequest rq)"
  shows "\<exists>r. decode_top (message_encode (MtRequest rq)) default_opt = Ok r \<and> message_new r = Ok (MtRequest rq)"
proof (cases rq)
  case (RqPing p)
  then show ?thesis using assms sha_wf_fits unfolding RqPing message_encode.simps ping_encode_def
    by (intro request_roundtrip) (simp_all add: request_parts holds_scalar key_bytes fits_def)
next
  case (RqFindNode p)
  then show ?thesis using assms sha_wf_fits unfolding RqFindNode message_encode.simps find_node_encode_def
    by (intro request_roundtrip) (simp_all add: request_parts holds_scalar key_bytes fits_def)
next
  case (RqGetPeers p)
  then show ?thesis using assms sha_wf_fits unfolding RqGetPeers message_encode.simps get_peers_encode_def
    by (intro request_roundtrip) (simp_all add: request_parts holds_scalar key_bytes fits_def)
next
  case (RqAnnouncePeer p)
  have widen: "ucast (ucast n :: i64) = n" for n :: u16
    by (rule bit_word_eqI) (auto simp: bit_simps)
  obtain port and implied :: i64 where pi: "(case ap_port p of Implied \<Rightarrow> (0, 1) | Explicit n \<Rightarrow> (n, 0)) = (port, implied)" by force
  have "(if implied \<noteq> 0 then Implied else Explicit (ucast (ucast port :: i64))) = ap_port p"
    using pi widen by (auto split: ConnectPort.splits)
  then show ?thesis using assms sha_wf_fits unfolding RqAnnouncePeer message_encode.simps announce_peer_encode_def pi Let_def prod.case
    by (intro request_roundtrip)
      (auto simp: request_parts holds_scalar holds_implied key_bytes fits_def mut_int_ben ok_or_simps split: if_splits)
qed

lemma resp_key: "RESPONSE_TYPE_KEY = RESPONSE_ARGS_KEY"
  by (simp add: key_bytes)

lemma err_key: "ERROR_TYPE_KEY = ERROR_ARGS_KEY"
  by (simp add: key_bytes)

lemma response_map_roundtrip:
  assumes "fits t" and "distinct (map fst args)" and "list_all (\<lambda>kv. fits (fst kv) \<and> value_ok 2 (snd kv)) args"
    and parse: "\<And>d a. get_dict d RESPONSE_ARGS_KEY = Ok a \<Longrightarrow> holds a (map_of args) \<Longrightarrow> response_from_parts d t = Ok rs"
  shows "\<exists>r. decode_top (encode_top (ben_map [(TRANSACTION_ID_KEY, ben_bytes t), (MESSAGE_TYPE_KEY, ben_bytes RESPONSE_ARGS_KEY),
      (RESPONSE_ARGS_KEY, ben_map args)])) default_opt = Ok r \<and> message_new r = Ok (MtResponse rs)"
  using response_roundtrip [OF assms(1) _ put_all_map_of [OF assms(2)] parse] value_ok_map [OF assms(3)]
  by (simp add: ben_map_def resp_key numeral_3_eq_3 numeral_2_eq_2)

lemma value_ok_2 [simp]: "value_ok 2 (ben_bytes b) \<longleftrightarrow> fits b" "value_ok 2 (MList vs) \<longleftrightarrow> list_all (value_ok 1) vs"
  using value_ok_bytes [of 1 b] value_ok_list [of 1 vs] by (simp_all add: numeral_2_eq_2)

lemma acting_roundtrip:
  assumes "fits (act_trans_id a)" and "sha_wf (act_node_id a)"
  shows "\<exists>r. decode_top (acting_encode a) default_opt = Ok r \<and> message_new r = Ok (MtResponse (RsActing a))"
  using assms sha_wf_fits unfolding acting_encode_def resp_key
  by (intro response_map_roundtrip)
    (simp_all add: response_from_parts_def acting_from_parts_def holds_scalar holds_None key_bytes fits_def del: not_None_eq)

lemma validate_nodes_wf: "length n mod 26 = 0 \<Longrightarrow> validate_nodes t n = Ok \<lparr>cni_nodes = n\<rparr>"
  by (simp add: validate_nodes_def compact_node_info_new_def BYTES_PER_COMPACT_NODE_INFO_def)

lemma check_values_wf: "list_all (\<lambda>x. length x = 6) vs \<Longrightarrow> check_values i vs = Ok ()"
  by (induction vs arbitrary: i) (auto simp: BYTES_PER_COMPACT_IP_def)

lemma collect_peers_bytes: "map erase rs = map ben_bytes vs \<Longrightarrow> collect_peers t rs = Ok vs"
proof (induction rs arbitrary: vs)
  case (Cons r rs)
  then show ?case by (cases vs) (auto simp: erase_accessors ben_bytes_def)
qed simp

lemma validate_values_wf:
  "map erase rs = map ben_bytes vs \<Longrightarrow> list_all (\<lambda>x. length x = 6) vs \<Longrightarrow> validate_values t rs = Ok \<lparr>cvi_values = vs\<rparr>"
  by (simp add: validate_values_def collect_peers_bytes compact_value_info_new_def check_values_wf)

lemma find_node_response_roundtrip:
  assumes "message_wf (MtResponse (RsFindNode f))"
  shows "\<exists>r. decode_top (find_node_response_encode f) default_opt = Ok r \<and> message_new r = Ok (MtResponse (RsFindNode f))"
  using assms sha_wf_fits unfolding find_node_response_encode_def resp_key
  by (intro response_map_roundtrip)
    (simp_all add: response_from_parts_def find_node_response_from_parts_def find_node_response_new_def
      holds_scalar holds_None validate_nodes_wf key_bytes fits_def del: not_None_eq)

definition get_peers_entries :: "GetPeersResponse \<Rightarrow> bytes \<Rightarrow> (bytes \<times> BencodeMut) list" where
  "get_peers_entries g t = [(NODE_ID_KEY, ben_bytes (gpr_node_id g)), (TOKEN_KEY, ben_bytes t)] @
     (case gpr_info_type g of
        InfoNodes n \<Rightarrow> [(NODES_KEY, ben_bytes (cni_nodes n))]
      | InfoValues v \<Rightarrow> [(VALUES_KEY, MList (map ben_bytes (cvi_values v)))]
      | InfoBoth n v \<Rightarrow> [(NODES_KEY, ben_bytes (cni_nodes n)), (VALUES_KEY, MList (map ben_bytes (cvi_values v)))])"

lemma get_peers_entries_args:
  "gpr_token g = Some t \<Longrightarrow> MDict (get_peers_response_args g) = ben_map (get_peers_entries g t)"
  by (simp add: get_peers_response_args_def get_peers_entries_def ben_map_def values_list_def foldl_list_push
      Let_def split: CompactInfoType.split)

lemma get_peers_response_parse:
  assumes "message_wf (MtResponse (RsGetPeers g))" and "gpr_token g = Some t" and a: "holds a (map_of (get_peers_entries g t))"
  shows "get_peers_response_from_parts a (gpr_trans_id g) = Ok g"
proof -
  let ?m = "map_of (get_peers_entries g t)"
  have wf: "sha_wf (gpr_node_id g)" "info_wf (gpr_info_type g)" using assms(1) by auto
  have no_list: "get_list a VALUES_KEY = Err (handle_error (MissingKey VALUES_KEY))" if "?m VALUES_KEY = None"
    by (rule holds_no_list [OF a that])
  have lst: "\<exists>rs. get_list a VALUES_KEY = Ok rs \<and> map erase rs = map ben_bytes vs" if "?m VALUES_KEY = Some (MList (map ben_bytes vs))" for vs
    by (rule holds_list [OF a that])
  have "get_peers_response_from_parts a (gpr_trans_id g) =
     Ok \<lparr>gpr_trans_id = gpr_trans_id g, gpr_node_id = gpr_node_id g, gpr_token = Some t, gpr_info_type = gpr_info_type g\<rparr>"
  proof (cases "gpr_info_type g")
    case (InfoNodes n)
    then show ?thesis using wf no_list
      by (simp add: get_peers_response_from_parts_def holds_scalar [OF a] get_peers_entries_def key_bytes validate_nodes_wf)
  next
    case (InfoValues v)
    then obtain rs where "get_list a VALUES_KEY = Ok rs" "map erase rs = map ben_bytes (cvi_values v)"
      using lst [of "cvi_values v"] by (auto simp: get_peers_entries_def key_bytes)
    then show ?thesis using wf InfoValues
      by (simp add: get_peers_response_from_parts_def holds_scalar [OF a] get_peers_entries_def key_bytes validate_values_wf)
  next
    case (InfoBoth n v)
    then obtain rs where "get_list a VALUES_KEY = Ok rs" "map erase rs = map ben_bytes (cvi_values v)"
      using lst [of "cvi_values v"] by (auto simp: get_peers_entries_def key_bytes)
    then show ?thesis using wf InfoBoth
      by (simp add: get_peers_response_from_parts_def holds_scalar [OF a] get_peers_entries_def key_bytes
          validate_nodes_wf validate_values_wf)
  qed
  then show ?thesis using assms(2) by simp
qed

lemma get_peers_response_roundtrip:
  assumes "message_wf (MtResponse (RsGetPeers g))"
  shows "\<exists>r. decode_top (get_peers_response_encode g) default_opt = Ok r \<and> message_new r = Ok (MtResponse (RsGetPeers g))"
proof -
  from assms obtain t where t: "gpr_token g = Some t" "fits t" and wf: "fits (gpr_trans_id g)" "sha_wf (gpr_node_id g)" "info_wf (gpr_info_type g)"
    by auto
  have d: "distinct (map fst (get_peers_entries g t))"
    by (simp add: get_peers_entries_def key_bytes split: CompactInfoType.split)
  have six: "length x = 6 \<Longrightarrow> fits x" for x by (simp add: fits_def)
  have ok: "list_all (\<lambda>kv. fits (fst kv) \<and> value_ok 2 (snd kv)) (get_peers_entries g t)"
    using t wf sha_wf_fits six by (auto simp: get_peers_entries_def list_all_iff split: CompactInfoType.splits)
  show ?thesis unfolding get_peers_response_encode_def get_peers_entries_args [OF t(1)] resp_key
  proof (rule response_map_roundtrip [OF wf(1) d ok])
    fix da a assume "get_dict da RESPONSE_ARGS_KEY = Ok a" and a: "holds a (map_of (get_peers_entries g t))"
    moreover have "dict_lookup a TOKEN_KEY \<noteq> None"
      unfolding holds_None [OF a] by (simp add: get_peers_entries_def key_bytes)
    ultimately show "response_from_parts da (gpr_trans_id g) = Ok (RsGetPeers g)"
      using get_peers_response_parse [OF assms t(1) a] by (simp add: response_from_parts_def)
  qed
qed

lemma error_roundtrip:
  assumes "message_wf (MtError e)"
  shows "\<exists>r. decode_top (error_encode e) default_opt = Ok r \<and> message_new r = Ok (MtError e)"
proof -
  let ?code = "ucast (error_code_into (err_code e)) :: i64"
  let ?vs = "[ben_int ?code, ben_bytes (err_message e)]"
  let ?kvs = "[(TRANSACTION_ID_KEY, ben_bytes (err_trans_id e)), (MESSAGE_TYPE_KEY, ben_bytes ERROR_TYPE_KEY), (ERROR_ARGS_KEY, MList ?vs)]"
  have d: "distinct (map fst ?kvs)" by (simp add: key_bytes)
  have "value_ok (Suc 2) (ben_map ?kvs)" by (rule value_ok_map) (use assms in simp)
  from decode_built [OF this _ d] obtain r d where r: "decode_top (encode_top (ben_map ?kvs)) default_opt = Ok r"
      "ref_dict r = Some d" "holds d (map_of ?kvs)" by auto
  obtain rs where l: "get_list d ERROR_ARGS_KEY = Ok rs" "map erase rs = ?vs"
    using holds_list [OF r(3), of ERROR_ARGS_KEY ?vs handle_error] by (auto simp: key_bytes)
  then obtain x y where rs: "rs = [x, y]" "erase x = ben_int ?code" "erase y = ben_bytes (err_message e)" by auto
  have "ucast ?code = error_code_into (err_code e)"
    by (cases "err_code e") (simp_all add: error_code_defs)
  moreover have "error_code_new (error_code_into (err_code e)) = Ok (err_code e)"
    by (cases "err_code e") (simp_all add: error_code_new_def error_code_defs)
  ultimately have "error_from_parts d (err_trans_id e) = Ok e"
    using l assms by (simp add: error_from_parts_def extract_error_args_def rs NUM_ERROR_ARGS_def convert_defs erase_accessors)
  then have "message_new r = Ok (MtError e)"
    using r(2) by (simp add: message_new_def convert_dict_def ok_or_simps holds_scalar [OF r(3)] key_bytes)
  moreover have "error_encode e = encode_top (ben_map ?kvs)"
    by (simp add: error_encode_def Let_def err_key)
  ultimately show ?thesis using r(1) by simp
qed

section \<open>Properties\<close>





section \<open>No panics\<close>

lemma lookups_no_panic [simp]:
  "lookup_and_convert_bytes h lk f d k \<noteq> Panic" "lookup_and_convert_str h lk f d k \<noteq> Panic"
  "lookup_and_convert_int h lk i d k \<noteq> Panic" "lookup_and_convert_list h lk l d k \<noteq> Panic"
  "lookup_and_convert_dict h lk g d k \<noteq> Panic"
  by (simp_all add: lookup_and_convert_defs convert_bytes_def convert_str_def convert_int_def convert_list_def convert_dict_def
      outcome_simps)

lemma map_err_no_panic [simp]: "map_err f m = Panic \<longleftrightarrow> m = Panic"
  by (cases m) auto

lemma sha_from_hash_no_panic [simp]: "sha_from_hash h \<noteq> Panic"
  by (simp add: sha_from_hash_def)

lemma validation_no_panic [simp]:
  "request_node_id t h \<noteq> Panic" "request_info_hash t h \<noteq> Panic" "response_node_id t h \<noteq> Panic"
  "validate_nodes t n \<noteq> Panic"
  by (simp_all add: request_node_id_def request_info_hash_def response_node_id_def validate_nodes_def compact_node_info_new_def)

lemma check_values_no_panic [simp]: "check_values i vs \<noteq> Panic"
  by (induction vs arbitrary: i) auto

lemma collect_peers_no_panic [simp]: "collect_peers t rs \<noteq> Panic"
  by (induction rs) (auto simp: outcome_simps split: option.split)

lemma validate_values_no_panic [simp]: "validate_values t rs \<noteq> Panic"
  by (simp add: validate_values_def compact_value_info_new_def outcome_simps)

lemma request_no_panic: "request_from_parts d t q \<noteq> Panic"
  by (auto simp: request_parts outcome_simps Let_def split: option.split if_splits)

lemma get_peers_response_no_panic [simp]: "get_peers_response_from_parts d t \<noteq> Panic"
  by (auto simp: get_peers_response_from_parts_def outcome_simps Let_def split: outcome.split)

lemma response_no_panic: "response_from_parts d t \<noteq> Panic"
  by (auto simp: response_from_parts_def find_node_response_from_parts_def find_node_response_new_def acting_from_parts_def
      outcome_simps Let_def)

lemma error_no_panic: "error_from_parts d t \<noteq> Panic"
  by (auto simp: error_from_parts_def extract_error_args_def error_code_new_def convert_defs outcome_simps)

lemma message_new_no_panic: "message_new r \<noteq> Panic"
  by (auto simp: message_new_def convert_dict_def outcome_simps request_no_panic response_no_panic error_no_panic)

section \<open>Compact lists\<close>

definition compact_node :: "ShaHash \<times> SocketAddrV4 \<Rightarrow> bytes" where
  "compact_node x = fst x @ sock_v4_to_bytes_be (snd x)"

text \<open>The conversion of a socket address agrees with the one of \<open>btp-util\<close>.\<close>

lemma socket_v4_from_bytes_eq:
  assumes "length bs = 6"
  shows "socket_v4_from_bytes_be bs = Ok (bytes_be_to_sock_v4 bs)"
proof -
  obtain a b c d e f where bs: "bs = [a, b, c, d, e, f]" using assms by (auto simp: eval_nat_numeral length_Suc_conv)
  have "push_bit 8 (ucast e) OR ucast f = bytes_be_to_port [e, f]"
    unfolding bytes_be_to_port_def by (rule bit_word_eqI) (auto simp: bit_simps)
  then show ?thesis
    by (simp add: bs socket_v4_from_bytes_be_def bytes_be_to_sock_v4_def bytes_be_to_ipv4_def BYTES_PER_COMPACT_IP_def Let_def)
qed

lemma socket_v4_compact: "socket_v4_from_bytes_be (sock_v4_to_bytes_be a) = Ok a"
  by (simp add: socket_v4_from_bytes_eq sock_v4_codec.to_bytes_length sock_v4_codec.from_to)

lemma length_compact_node: "sha_wf (fst x) \<Longrightarrow> length (compact_node x) = 26"
  by (simp add: compact_node_def sha_wf_def SHA_HASH_LEN_def sock_v4_codec.to_bytes_length)

lemma parts_compact: "sha_wf (fst x) \<Longrightarrow> parts_from_compact_info (compact_node x) = Ok x"
  using sha_from_hash_Ok [of "fst x" "fst x"]
  by (simp add: parts_from_compact_info_def compact_node_def NODE_ID_LEN_def BYTES_PER_COMPACT_IP_def slice_def sha_wf_def
      SHA_HASH_LEN_def sock_v4_codec.to_bytes_length socket_v4_compact)

lemma collect_compact:
  "\<forall>x\<in>set l. sha_wf (fst x) \<Longrightarrow> collect_compact_nodes \<lparr>cnii_nodes = pre @ concat (map compact_node l), cnii_pos = length pre\<rparr> = Ok l"
proof (induction l arbitrary: pre)
  case Nil
  then show ?case by (subst collect_compact_nodes.simps) (simp add: compact_node_next_def)
next
  case (Cons x l)
  have len: "length (compact_node x) = 26" using Cons.prems by (simp add: length_compact_node)
  have IH: "collect_compact_nodes \<lparr>cnii_nodes = pre @ compact_node x @ concat (map compact_node l), cnii_pos = length pre + 26\<rparr> = Ok l"
    using Cons.IH [of "pre @ compact_node x"] Cons.prems len by simp
  have "compact_node_next \<lparr>cnii_nodes = pre @ compact_node x @ concat (map compact_node l), cnii_pos = length pre\<rparr> =
     Ok (Some x, \<lparr>cnii_nodes = pre @ compact_node x @ concat (map compact_node l), cnii_pos = length pre + 26\<rparr>)"
    using Cons.prems len parts_compact [of x]
    by (simp add: compact_node_next_def BYTES_PER_COMPACT_NODE_INFO_def slice_def)
  then show ?case by (subst collect_compact_nodes.simps) (simp add: IH)
qed

lemma compact_decompose:
  "length nodes mod 26 = 0 \<Longrightarrow> \<exists>l. (\<forall>x\<in>set l. sha_wf (fst x)) \<and> nodes = concat (map compact_node l)"
proof (induction "length nodes" arbitrary: nodes rule: less_induct)
  case less
  show ?case
  proof (cases "nodes = []")
    case False
    have n: "26 \<le> length nodes"
    proof (rule ccontr)
      assume "\<not> 26 \<le> length nodes"
      with less.prems have "length nodes = 0" by simp
      with False show False by simp
    qed
    have m: "length (drop 26 nodes) mod 26 = 0" using less.prems n by (simp add: le_mod_geq)
    have "length (drop 26 nodes) < length nodes" using n by simp
    from less.hyps [OF this m] obtain l where l: "\<forall>x\<in>set l. sha_wf (fst x)" "drop 26 nodes = concat (map compact_node l)"
      by blast
    let ?x = "(take 20 nodes, bytes_be_to_sock_v4 (take 6 (drop 20 nodes)))"
    have "take 20 nodes @ take 6 (drop 20 nodes) @ drop 6 (drop 20 nodes) = nodes" by (simp only: append_take_drop_id)
    moreover have "drop 6 (drop 20 nodes) = drop 26 nodes" by simp
    ultimately have "nodes = take 20 nodes @ take 6 (drop 20 nodes) @ drop 26 nodes" by simp
    then have "nodes = compact_node ?x @ concat (map compact_node l)"
      using n l(2) by (simp add: compact_node_def sock_v4_codec.to_from)
    then show ?thesis using l(1) n by (intro exI [of _ "?x # l"]) (simp add: sha_wf_def SHA_HASH_LEN_def)
  qed (auto intro: exI [of _ "[]"])
qed

lemma compact_nodes_list_ok:
  assumes "length (cni_nodes n) mod 26 = 0"
  shows "\<exists>l. compact_nodes_list n = Ok l \<and> cni_nodes n = concat (map compact_node l)"
  using compact_decompose [OF assms] collect_compact [of _ "[]"] by (auto simp: compact_nodes_list_def)

lemma compact_values_list_ok:
  "list_all (\<lambda>x. length x = 6) vs \<Longrightarrow> collect_compact_values vs = Ok (map bytes_be_to_sock_v4 vs)"
  by (induction vs) (auto simp: socket_v4_from_bytes_eq)

lemma validated_nodes: "validate_nodes t n = Ok c \<Longrightarrow> cni_nodes c = n \<and> length n mod 26 = 0"
  by (auto simp: validate_nodes_def compact_node_info_new_def BYTES_PER_COMPACT_NODE_INFO_def split: if_splits)

lemma check_values_sound: "check_values i vs = Ok u \<Longrightarrow> list_all (\<lambda>x. length x = 6) vs"
  by (induction vs arbitrary: i) (auto simp: BYTES_PER_COMPACT_IP_def split: if_splits)

lemma map_err_Ok: "map_err f m = Ok a \<longleftrightarrow> m = Ok a"
  by (cases m) auto

lemma validated_values: "validate_values t rs = Ok c \<Longrightarrow> list_all (\<lambda>x. length x = 6) (cvi_values c)"
  using check_values_sound
  by (auto simp: validate_values_def compact_value_info_new_def outcome_simps map_err_Ok)

text \<open>The compact lists inside a response.\<close>

fun response_nodes :: "ResponseType \<Rightarrow> CompactNodeInfo list" where
  "response_nodes (RsFindNode f) = [fnr_nodes f]"
| "response_nodes (RsGetPeers g) = (case gpr_info_type g of InfoNodes n \<Rightarrow> [n] | InfoBoth n v \<Rightarrow> [n] | InfoValues v \<Rightarrow> [])"
| "response_nodes _ = []"

fun response_values :: "ResponseType \<Rightarrow> CompactValueInfo list" where
  "response_values (RsGetPeers g) = (case gpr_info_type g of InfoValues v \<Rightarrow> [v] | InfoBoth n v \<Rightarrow> [v] | InfoNodes n \<Rightarrow> [])"
| "response_values _ = []"

lemma parsed_find_node: "find_node_response_from_parts d t = Ok f \<Longrightarrow> length (cni_nodes (fnr_nodes f)) mod 26 = 0"
  using validated_nodes by (fastforce simp: find_node_response_from_parts_def find_node_response_new_def outcome_simps)

fun info_lists_ok :: "CompactInfoType \<Rightarrow> bool" where
  "info_lists_ok (InfoNodes n) \<longleftrightarrow> length (cni_nodes n) mod 26 = 0"
| "info_lists_ok (InfoValues v) \<longleftrightarrow> list_all (\<lambda>x. length x = 6) (cvi_values v)"
| "info_lists_ok (InfoBoth n v) \<longleftrightarrow> length (cni_nodes n) mod 26 = 0 \<and> list_all (\<lambda>x. length x = 6) (cvi_values v)"

lemma parsed_get_peers:
  assumes "get_peers_response_from_parts d t = Ok g"
  shows "info_lists_ok (gpr_info_type g)"
proof -
  have n: "validate_nodes t n = Ok c \<Longrightarrow> length (cni_nodes c) mod 26 = 0" for n c using validated_nodes by metis
  from assms n show ?thesis using validated_values
    by (cases "get_bytes d NODES_KEY"; cases "get_list d VALUES_KEY")
      (auto simp: get_peers_response_from_parts_def outcome_simps Let_def simp del: mod_eq_0_iff_dvd)
qed

lemma parsed_response_lists:
  assumes "response_from_parts d t = Ok rs"
  shows "n \<in> set (response_nodes rs) \<Longrightarrow> length (cni_nodes n) mod 26 = 0"
    and "v \<in> set (response_values rs) \<Longrightarrow> list_all (\<lambda>x. length x = 6) (cvi_values v)"
proof -
  consider f d' where "rs = RsFindNode f" "find_node_response_from_parts d' t = Ok f"
    | g d' where "rs = RsGetPeers g" "get_peers_response_from_parts d' t = Ok g"
    | a where "rs = RsActing a"
    using assms by (auto simp: response_from_parts_def outcome_simps Let_def split: if_splits)
  then have "(n \<in> set (response_nodes rs) \<longrightarrow> length (cni_nodes n) mod 26 = 0) \<and>
    (v \<in> set (response_values rs) \<longrightarrow> list_all (\<lambda>x. length x = 6) (cvi_values v))"
  proof cases
    case 1
    then show ?thesis using parsed_find_node by simp
  next
    case 2
    then show ?thesis using parsed_get_peers [OF 2(2)] by (cases "gpr_info_type g") simp_all
  qed simp
  then show "n \<in> set (response_nodes rs) \<Longrightarrow> length (cni_nodes n) mod 26 = 0"
    "v \<in> set (response_values rs) \<Longrightarrow> list_all (\<lambda>x. length x = 6) (cvi_values v)" by blast+
qed

text \<open>
  C12. Parsing a message never panics, and neither does reading the compact lists of a parsed response: the
  nodes are exactly the 26 byte groups of the list and the peers are converted as \<open>btp-util\<close> does.
\<close>

theorem dht_parse_safe:
  "message_new r \<noteq> Panic \<and>
   (message_new r = Ok (MtResponse rs) \<longrightarrow>
      (\<forall>n\<in>set (response_nodes rs). \<exists>l. compact_nodes_list n = Ok l \<and> cni_nodes n = concat (map compact_node l)) \<and>
      (\<forall>v\<in>set (response_values rs). compact_values_list v = Ok (map bytes_be_to_sock_v4 (cvi_values v))))"
proof (intro conjI impI ballI)
  show "message_new r \<noteq> Panic" by (rule message_new_no_panic)
  assume "message_new r = Ok (MtResponse rs)"
  then obtain d t where p: "response_from_parts d t = Ok rs"
    by (auto simp: message_new_def outcome_simps split: if_splits)
  show "\<exists>l. compact_nodes_list n = Ok l \<and> cni_nodes n = concat (map compact_node l)" if "n \<in> set (response_nodes rs)" for n
    by (rule compact_nodes_list_ok [OF parsed_response_lists(1) [OF p that]])
  show "compact_values_list v = Ok (map bytes_be_to_sock_v4 (cvi_values v))" if "v \<in> set (response_values rs)" for v
    using compact_values_list_ok [OF parsed_response_lists(2) [OF p that]] by (simp add: compact_values_list_def)
qed

definition sample_response :: BencodeRef where
  "sample_response = RDict [([0x72], RDict [([0x69, 0x64], RBytes (replicate 20 7) []),
     ([0x6e, 0x6f, 0x64, 0x65, 0x73], RBytes (replicate 26 1) [])] []), ([0x74], RBytes [1] []), ([0x79], RBytes [0x72] [])] []"

lemma sample_response_parsed: "message_new sample_response =
   Ok (MtResponse (RsFindNode \<lparr>fnr_trans_id = [1], fnr_node_id = replicate 20 7, fnr_nodes = \<lparr>cni_nodes = replicate 26 1\<rparr>\<rparr>))"
  by code_simp

theorem dht_parse_safe_witness:
  "\<exists>l. compact_nodes_list \<lparr>cni_nodes = replicate 26 1\<rparr> = Ok l \<and> replicate 26 1 = concat (map compact_node l)"
  using dht_parse_safe [of sample_response "RsFindNode \<lparr>fnr_trans_id = [1], fnr_node_id = replicate 20 7,
    fnr_nodes = \<lparr>cni_nodes = replicate 26 1\<rparr>\<rparr>"] sample_response_parsed by simp

end
