(* ===== verification/Dht_Worker.thy ===== *)
theory Dht_Worker
  imports Dht_Closest Dht_Transaction Dht_Message Util_Timer
begin

text \<open>
  What the actions of the DHT worker share (\<open>btp-dht/src/worker\<close>): the routing table, the timer and
  the channel to the sending task are handed to every action by the event loop. They are one record,
  \<open>Worker\<close>. The outside world is the record \<open>Env\<close>: the clocks, the random numbers, whether a channel
  takes a message (a tokio channel refuses when its receiver is gone), and the resolver. Its answers
  depend on a counter, \<open>w_ticks\<close>, that every use of the outside world advances, so that time passes
  and channels close in the middle of a handler as they do between two awaits.

  The periodic refresh of the table (\<open>worker/refresh.rs\<close>) is the simplest action and comes here, too.
\<close>

section \<open>The outside world and the shared state\<close>

datatype ScheduledTask =
    CheckTableRefresh TransactionID
  | CheckBootstrapTimeout TransactionID
  | CheckLookupTimeout TransactionID
  | CheckLookupEndGame TransactionID

datatype Channel = OutChannel | EventChannel nat | StatusChannel nat | ValuesChannel nat

record Env =
  env_clock :: "nat \<Rightarrow> instant"
  env_utc :: "nat \<Rightarrow> int"
  env_rnd :: "nat \<Rightarrow> nat \<Rightarrow> nat"
  env_secret :: "nat \<Rightarrow> nat \<Rightarrow> u32"
  env_takes :: "Channel \<Rightarrow> nat \<Rightarrow> bool"
  env_resolve :: "nat \<Rightarrow> bytes \<Rightarrow> u16 \<Rightarrow> SocketAddr list option"
  env_sha1 :: "bytes \<Rightarrow> bytes"
  env_minutes :: "int \<Rightarrow> int"

record Worker =
  w_table :: RoutingTable
  w_timer :: "ScheduledTask Timer"
  w_sent :: "(bytes \<times> SocketAddr) list"
  w_peers :: "(nat \<times> SocketAddr) list"
  w_ticks :: nat

definition w_now :: "Env \<Rightarrow> Worker \<Rightarrow> instant" where
  "w_now E w = env_clock E (w_ticks w)"

definition tick :: "Worker \<Rightarrow> Worker" where
  "tick w = w\<lparr>w_ticks := w_ticks w + 1\<rparr>"

text \<open>The calls an action makes: a new transaction id, a timeout, a message, a request noted in the table.\<close>

definition w_generate :: "Env \<Rightarrow> MIDGenerator \<Rightarrow> Worker \<Rightarrow> TransactionID \<times> MIDGenerator \<times> Worker" where
  "w_generate E g w = (let (trans_id, g) = mid_generate (env_rnd E (w_ticks w)) g in (trans_id, g, tick w))"

definition w_schedule :: "Env \<Rightarrow> duration \<Rightarrow> ScheduledTask \<Rightarrow> Worker \<Rightarrow> Timeout \<times> Worker" where
  "w_schedule E dur task w =
     (let (timeout, timer) = schedule_in (w_now E w) dur task (w_timer w)
      in (timeout, tick (w\<lparr>w_timer := timer\<rparr>)))"

definition w_cancel :: "Timeout \<Rightarrow> Worker \<Rightarrow> Worker" where
  "w_cancel timeout w = w\<lparr>w_timer := snd (timer_cancel timeout (w_timer w))\<rparr>"

definition w_send :: "Env \<Rightarrow> bytes \<times> SocketAddr \<Rightarrow> Worker \<Rightarrow> bool \<times> Worker" where
  "w_send E msg w =
     (if env_takes E OutChannel (w_ticks w) then (True, tick (w\<lparr>w_sent := w_sent w @ [msg]\<rparr>)) else (False, tick w))"

definition w_local_request :: "Env \<Rightarrow> NodeHandle \<Rightarrow> Worker \<Rightarrow> Worker" where
  "w_local_request E node w =
     tick (w\<lparr>w_table := with_node_mut (w_now E w) node (local_request (w_now E w)) (w_table w)\<rparr>)"

text \<open>A \<open>HashMap\<close> whose emptiness matters, as an association list with one entry for a key.\<close>

definition hm_remove :: "'k \<Rightarrow> ('k \<times> 'v) list \<Rightarrow> ('k \<times> 'v) list" where
  "hm_remove k m = filter (\<lambda>p. fst p \<noteq> k) m"

definition hm_insert :: "'k \<Rightarrow> 'v \<Rightarrow> ('k \<times> 'v) list \<Rightarrow> ('k \<times> 'v) list" where
  "hm_insert k v m = (k, v) # hm_remove k m"

definition from_millis :: "nat \<Rightarrow> duration" where
  "from_millis ms = ms * 1000000"

section \<open>The target of a bucket\<close>

text \<open>The function is written twice, in \<open>bootstrap.rs\<close> and in \<open>refresh.rs\<close>.\<close>

definition flip_id_bit_at_index :: "ShaHash \<Rightarrow> nat \<Rightarrow> (unit, ShaHash) outcome" where
  "flip_id_bit_at_index nid i =
     (let byte_index = i div 8; bit_index = i mod 8;
          actual_bit_index = 7 - bit_index
      in if byte_index < length nid
         then Ok (nid[byte_index := nid ! byte_index XOR push_bit actual_bit_index 1])
         else Panic)"

section \<open>Refreshing the table\<close>

definition REFRESH_INTERVAL_TIMEOUT :: duration where "REFRESH_INTERVAL_TIMEOUT = from_millis 6000"
definition REFRESH_0_TIMEOUT :: duration where "REFRESH_0_TIMEOUT = from_millis 3000"
definition REFRESH_CONCURRENCY :: nat where "REFRESH_CONCURRENCY = 4"

datatype RefreshStatus = Refreshing | RefreshFailed

record TableRefresh =
  tr_id_generator :: MIDGenerator
  curr_refresh_bucket :: nat
  send_message_num :: byte

definition table_refresh_new :: "MIDGenerator \<Rightarrow> TableRefresh" where
  "table_refresh_new g = \<lparr>tr_id_generator = g, curr_refresh_bucket = 0, send_message_num = 0\<rparr>"

fun refresh_loop ::
    "Env \<Rightarrow> ShaHash \<Rightarrow> NodeHandle list \<Rightarrow> TableRefresh \<Rightarrow> Worker \<Rightarrow> RefreshStatus \<times> TableRefresh \<times> Worker" where
  "refresh_loop E target_id [] r w = (Refreshing, r, w)"
| "refresh_loop E target_id (node # rest) r w =
     (let (trans_id, g, w) = w_generate E (tr_id_generator r) w;
          r = r\<lparr>tr_id_generator := g\<rparr>;
          find_node_msg = find_node_encode
            \<lparr>fn_trans_id = trans_id_bytes trans_id, fn_node_id = rt_node_id (w_table w), fn_target_id = target_id\<rparr>;
          (sent, w) = w_send E (find_node_msg, h_addr node) w
      in if \<not> sent then (RefreshFailed, r, w)
         else refresh_loop E target_id rest (r\<lparr>send_message_num := send_message_num r + 1\<rparr>)
                (w_local_request E node w))"

definition refresh_next_bucket ::
    "Env \<Rightarrow> TableRefresh \<Rightarrow> Worker \<Rightarrow> (unit, RefreshStatus \<times> TableRefresh \<times> Worker) outcome" where
  "refresh_next_bucket E r w =
     (let r = r\<lparr>send_message_num := 0\<rparr>;
          r = (if curr_refresh_bucket r = MAX_BUCKETS then r\<lparr>curr_refresh_bucket := 0\<rparr> else r)
      in try_bind (flip_id_bit_at_index (rt_node_id (w_table w)) (curr_refresh_bucket r)) (\<lambda>target_id.
         let now = w_now E w;
             nodes = map handle (take REFRESH_CONCURRENCY
               (filter (\<lambda>n. \<not> recently_requested_from now n)
                 (filter (\<lambda>n. status now n = Questionable) (closest_nodes now (w_table w) target_id))))
         in Ok (refresh_loop E target_id nodes r (tick w))))"

definition continue_refresh ::
    "Env \<Rightarrow> TableRefresh \<Rightarrow> Worker \<Rightarrow> (unit, RefreshStatus \<times> TableRefresh \<times> Worker) outcome" where
  "continue_refresh E r w =
     try_bind (refresh_next_bucket E r w) (\<lambda>(st, r, w).
       if st = RefreshFailed then Ok (RefreshFailed, r, w)
       else let r = r\<lparr>curr_refresh_bucket := curr_refresh_bucket r + 1\<rparr>;
                (trans_id, g, w) = w_generate E (tr_id_generator r) w;
                r = r\<lparr>tr_id_generator := g\<rparr>;
                (_, w) = (if send_message_num r \<noteq> 0
                          then w_schedule E REFRESH_INTERVAL_TIMEOUT (CheckTableRefresh trans_id) w
                          else w_schedule E REFRESH_0_TIMEOUT (CheckTableRefresh trans_id) w)
            in Ok (Refreshing, r, w))"

section \<open>What the calls keep\<close>

text \<open>
  The action a task belongs to. A worker is well-formed when its table is and its timer never handed
  out an id that is still to come; the latter holds as long as fewer than \<open>2\<^sup>6\<^sup>4\<close> calls were made.
\<close>

fun task_id :: "ScheduledTask \<Rightarrow> TransactionID" where
  "task_id (CheckTableRefresh t) = t"
| "task_id (CheckBootstrapTimeout t) = t"
| "task_id (CheckLookupTimeout t) = t"
| "task_id (CheckLookupEndGame t) = t"

abbreviation task_at :: "Worker \<Rightarrow> Timeout \<Rightarrow> ScheduledTask option" where
  "task_at w \<equiv> timer_abs (w_timer w)"

definition timer_ok :: "Worker \<Rightarrow> bool" where
  "timer_ok w \<longleftrightarrow> timer_wf (w_timer w) \<and> unat (timer_next_id (w_timer w)) \<le> w_ticks w \<and>
     (\<forall>k. task_at w k \<noteq> None \<longrightarrow> unat (timeout_id k) < unat (timer_next_id (w_timer w)))"

definition worker_ok :: "Worker \<Rightarrow> bool" where
  "worker_ok w \<longleftrightarrow> rt_wf (w_table w) \<and> timer_ok w"

definition in_time :: "Worker \<Rightarrow> bool" where
  "in_time w \<longleftrightarrow> w_ticks w < 2 ^ 64"

text \<open>
  \<open>steps aid w w'\<close>: from \<open>w\<close> to \<open>w'\<close> time goes on, the worker stays well-formed with the same own id, and every
  pending task of another action than \<open>aid\<close> stays pending. \<open>grows\<close> keeps all pending tasks. In general the tasks
  with \<open>P\<close> stay pending, and only addresses in \<open>A\<close> come into the table.
\<close>

definition table_addrs :: "RoutingTable \<Rightarrow> SocketAddr set" where
  "table_addrs t = node_addr ` set (all_nodes t)"

definition keeps_tasks :: "(ScheduledTask \<Rightarrow> bool) \<Rightarrow> SocketAddr set \<Rightarrow> Worker \<Rightarrow> Worker \<Rightarrow> bool" where
  "keeps_tasks P A w w' \<longleftrightarrow> w_ticks w \<le> w_ticks w' \<and> rt_node_id (w_table w') = rt_node_id (w_table w) \<and>
     (rt_wf (w_table w) \<longrightarrow> rt_wf (w_table w')) \<and> table_addrs (w_table w') \<subseteq> table_addrs (w_table w) \<union> A \<and>
     (in_time w' \<longrightarrow> worker_ok w \<longrightarrow>
        worker_ok w' \<and> (\<forall>k v. task_at w k = Some v \<longrightarrow> P v \<longrightarrow> task_at w' k = Some v))"

abbreviation grows :: "Worker \<Rightarrow> Worker \<Rightarrow> bool" where
  "grows \<equiv> keeps_tasks (\<lambda>_. True) {}"

abbreviation steps :: "u64 \<Rightarrow> Worker \<Rightarrow> Worker \<Rightarrow> bool" where
  "steps aid \<equiv> keeps_tasks (\<lambda>v. action_id (task_id v) \<noteq> aid) {}"

lemma keeps_refl [simp]: "keeps_tasks P A w w"
  by (simp add: keeps_tasks_def)

lemma keeps_trans [trans]: "keeps_tasks P A w w1 \<Longrightarrow> keeps_tasks P A w1 w2 \<Longrightarrow> keeps_tasks P A w w2"
  by (auto simp: keeps_tasks_def in_time_def)

lemma keeps_weaken: "keeps_tasks P A w w' \<Longrightarrow> (\<And>v. Q v \<Longrightarrow> P v) \<Longrightarrow> keeps_tasks Q A w w'"
  by (auto simp: keeps_tasks_def)

lemma grows_keeps: "grows w w' \<Longrightarrow> keeps_tasks P A w w'"
  by (auto simp: keeps_tasks_def)

lemma keeps_worker_ok: "keeps_tasks P A w w' \<Longrightarrow> worker_ok w \<Longrightarrow> in_time w' \<Longrightarrow> worker_ok w'"
  by (simp add: keeps_tasks_def)

lemma keeps_pending: "keeps_tasks P A w w' \<Longrightarrow> worker_ok w \<Longrightarrow> in_time w' \<Longrightarrow> task_at w k = Some v \<Longrightarrow> P v \<Longrightarrow>
   task_at w' k = Some v"
  by (simp add: keeps_tasks_def)

lemma keeps_table: "keeps_tasks P A w w' \<Longrightarrow> rt_wf (w_table w) \<Longrightarrow> rt_wf (w_table w')"
  by (simp add: keeps_tasks_def)

lemma keeps_addrs: "keeps_tasks P A w w' \<Longrightarrow> table_addrs (w_table w') \<subseteq> table_addrs (w_table w) \<union> A"
  by (simp add: keeps_tasks_def)

lemma keeps_in_time: "keeps_tasks P A w w' \<Longrightarrow> in_time w' \<Longrightarrow> in_time w"
  by (simp add: keeps_tasks_def in_time_def)

lemma keeps_tick: "w_timer w' = w_timer w \<Longrightarrow> w_ticks w' = Suc (w_ticks w) \<Longrightarrow>
   rt_node_id (w_table w') = rt_node_id (w_table w) \<Longrightarrow> (rt_wf (w_table w) \<Longrightarrow> rt_wf (w_table w')) \<Longrightarrow>
   table_addrs (w_table w') \<subseteq> table_addrs (w_table w) \<union> A \<Longrightarrow> keeps_tasks P A w w'"
  by (auto simp: keeps_tasks_def worker_ok_def timer_ok_def)

lemma grows_tick_only: "grows w (tick w)"
  by (rule keeps_tick) (simp_all add: tick_def)

lemma grows_send: "w_send E msg w = (ok, w') \<Longrightarrow> grows w w'"
  by (rule keeps_tick) (auto simp: w_send_def tick_def split: if_splits)

lemma with_node_mut_id [simp]: "rt_node_id (with_node_mut now h f t) = rt_node_id t"
  by (simp add: with_node_mut_def Let_def split: option.split prod.split)

lemma with_node_mut_addrs:
  assumes "\<And>n. handle (f n) = handle n"
  shows "table_addrs (with_node_mut now h f t) \<subseteq> table_addrs t"
proof (cases "find_node_mut now h t")
  case (Some ij)
  then obtain i j where ij: "find_node_mut now h t = Some (i, j)" by (cases ij) simp
  note found = find_node_mut_Some [OF ij]
  let ?b = "buckets t ! i"
  have "node_addr n \<in> table_addrs t" if "n \<in> set ((nodes ?b)[j := f (nodes ?b ! j)])" for n
  proof -
    from that have "n \<in> set (nodes ?b) \<or> n = f (nodes ?b ! j)" using set_update_subset_insert by fastforce
    moreover have "nodes ?b ! j \<in> set (nodes ?b)" using found by simp
    ultimately obtain m where "m \<in> set (nodes ?b)" "node_addr n = node_addr m"
      using assms [of "nodes ?b ! j"] unfolding node_addr_def by metis
    with found show ?thesis by (force simp: table_addrs_def all_nodes_iff)
  qed
  then have "node_addr n \<in> table_addrs t"
    if "b \<in> set ((buckets t)[i := ?b\<lparr>nodes := (nodes ?b)[j := f (nodes ?b ! j)]\<rparr>])" "n \<in> set (nodes b)" for b n
    using that set_update_subset_insert [of "buckets t" i] by (fastforce simp: table_addrs_def all_nodes_def)
  with ij show ?thesis by (force simp: with_node_mut_def Let_def table_addrs_def all_nodes_def)
qed (simp add: with_node_mut_def)

text \<open>What holds of all nodes of a table, of a new bucket's and of an added node holds of all nodes afterwards.\<close>

abbreviation nodes_all :: "(Node \<Rightarrow> bool) \<Rightarrow> RoutingTable \<Rightarrow> bool" where
  "nodes_all Q t \<equiv> \<forall>b\<in>set (buckets t). \<forall>n\<in>set (nodes b). Q n"

lemma bucket_add_node_all:
  "bucket_add_node now n b = (added, b') \<Longrightarrow> Q n \<Longrightarrow> \<forall>m\<in>set (nodes b). Q m \<Longrightarrow> \<forall>m\<in>set (nodes b'). Q m"
  by (auto simp: bucket_add_node_def Let_def split: if_splits option.splits dest!: set_update_subset_insert [THEN subsetD])

lemma bucket_node_all:
  assumes "bucket_node fuel now n k t = Ok t'" and "nodes_all Q t" and "Q n" and new: "\<forall>n\<in>set (nodes bucket_new). Q n"
  shows "nodes_all Q t'"
  using assms(1-3)
proof (induction fuel arbitrary: n k t t')
  case (Suc fuel)
  let ?i = "bucket_placement k (length (buckets t))"
  obtain added b where add: "bucket_add_node now n (buckets t ! ?i) = (added, b)" by (cases "bucket_add_node now n (buckets t ! ?i)")
  let ?t = "t\<lparr>buckets := (buckets t)[?i := b]\<rparr>"
  from Suc.prems(1) have ne: "buckets t \<noteq> []" by (auto split: if_splits)
  then have "buckets t ! ?i \<in> set (buckets t)" using bucket_placement_less [of "length (buckets t)" k] by simp
  with bucket_add_node_all [OF add, of Q] Suc.prems(3) Suc.prems(2) have "\<forall>m\<in>set (nodes b). Q m" by blast
  with Suc.prems(2) have t1: "nodes_all Q ?t"
    using set_update_subset_insert [of "buckets t" ?i b] by auto
  have adds: "nodes_all Q y" if "add_all (add_node_with (bucket_node fuel now) now) ms x = Ok y" "nodes_all Q x" "\<forall>m\<in>set ms. Q m" for ms x y
    using that
  proof (induction ms arbitrary: x)
    case (Cons m ms)
    then obtain z where z: "add_node_with (bucket_node fuel now) now m x = Ok z"
        "add_all (add_node_with (bucket_node fuel now) now) ms z = Ok y"
      by (cases "add_node_with (bucket_node fuel now) now m x") auto
    have "nodes_all Q z"
      using z(1) Cons.prems Suc.IH [of m _ x z] by (auto simp: add_node_with_def Let_def split: if_splits)
    with Cons.IH [OF z(2)] Cons.prems show ?case by simp
  qed simp
  show ?case
  proof (cases added)
    case True
    with Suc.prems(1) ne add t1 show ?thesis by (auto simp: Let_def)
  next
    case False
    with Suc.prems(1) ne add obtain split t2 where
      s: "split_bucket_with (add_node_with (bucket_node fuel now) now) ?i ?t = Ok (split, t2)"
      and r: "(if split then bucket_node fuel now n k t2 else Ok t2) = Ok t'"
      by (cases "split_bucket_with (add_node_with (bucket_node fuel now) now) ?i ?t") (auto simp: Let_def)
    have "nodes_all Q t2"
    proof (cases "can_split_bucket (length (buckets ?t)) ?i")
      case False
      with s t1 show ?thesis by (auto simp: split_bucket_with_def)
    next
      case True
      let ?s = "?t\<lparr>buckets := butlast (buckets ?t) @ [bucket_new] @ [bucket_new]\<rparr>"
      from s ne True have "add_all (add_node_with (bucket_node fuel now) now) (nodes (last (buckets ?t))) ?s = Ok t2"
        by (cases "add_all (add_node_with (bucket_node fuel now) now) (nodes (last (buckets ?t))) ?s")
          (auto simp: split_bucket_with_def Let_def)
      moreover have "nodes_all Q ?s" using t1 new by (auto dest: in_set_butlastD)
      moreover have "\<forall>m\<in>set (nodes (last (buckets ?t))). Q m" using t1 ne last_in_set [of "buckets ?t"] by fastforce
      ultimately show ?thesis by (rule adds)
    qed
    with r Suc.IH [OF _ _ Suc.prems(3)] show ?thesis by (auto split: if_splits)
  qed
qed simp

definition placeholder_addr :: SocketAddr where
  "placeholder_addr = SockV4 \<lparr>v4_ip = Ipv4Addr 127 0 0 1, v4_port = 0\<rparr>"

lemma add_node_addrs:
  assumes "add_node now n t = Ok t'"
  shows "table_addrs t' \<subseteq> table_addrs t \<union> {node_addr n, placeholder_addr}"
proof -
  let ?Q = "\<lambda>m. node_addr m \<in> table_addrs t \<union> {node_addr n, placeholder_addr}"
  have new: "\<forall>m\<in>set (nodes bucket_new). ?Q m" by (auto simp: bucket_new_def Let_def as_bad_def node_addr_def placeholder_addr_def)
  have t: "nodes_all ?Q t" by (auto simp: table_addrs_def all_nodes_def)
  have "nodes_all ?Q t'"
    using assms t bucket_node_all [of _ now n _ t t' ?Q, OF _ t _ new]
    by (auto simp: add_node_def add_node_with_def Let_def split: if_splits)
  then show ?thesis by (auto simp: table_addrs_def all_nodes_def)
qed

lemma local_request_sel [simp]: "handle (local_request now n) = handle n" "last_response (local_request now n) = last_response n"
  by (simp_all add: local_request_def Let_def)

lemma grows_local_request: "grows w (w_local_request E node w)"
  by (rule keeps_tick) (simp_all add: w_local_request_def tick_def with_node_mut_wf with_node_mut_addrs)

lemma grows_generate: "w_generate E g w = (t, g', w') \<Longrightarrow> grows w w'"
  by (auto simp: w_generate_def grows_tick_only split: prod.splits)

lemma w_generate_action:
  assumes "w_generate E g w = (t, g', w')" and "mid_ok aid g" and "unat aid < 2 ^ 40"
  shows "mid_ok aid g' \<and> action_id t = aid"
proof -
  from assms(1) have "mid_generate (env_rnd E (w_ticks w)) g = (t, g')" by (auto simp: w_generate_def split: prod.splits)
  from mid_generate_ok [OF assms(2) this] assms(3) show ?thesis
    by (auto simp: action_id_def transaction_id_new_def action_of_composed)
qed

lemma unat_neg_1: "unat (- 1 :: 'a::len word) = 2 ^ LENGTH('a) - 1"
  by (simp add: unsigned_minus_1_eq_mask mask_eq_exp_minus_1)

lemma w_schedule_ok:
  assumes "w_schedule E dur task w = (timeout, w')" and "worker_ok w" and "in_time w'"
  shows "worker_ok w' \<and> task_at w' = (task_at w)(timeout \<mapsto> task) \<and> task_at w timeout = None"
proof -
  let ?dl = "w_now E w + int dur" and ?t = "w_timer w"
  from assms(1) have w': "w' = tick (w\<lparr>w_timer := snd (schedule_at ?dl task ?t)\<rparr>)"
    and timeout: "timeout = fst (schedule_at ?dl task ?t)"
    by (auto simp: w_schedule_def schedule_in_def split: prod.splits)
  from assms(2) have ok: "timer_ok w" by (simp add: worker_ok_def)
  have key: "timeout = Timeout ?dl (timer_next_id ?t)"
    by (simp add: timeout schedule_at_def next_id_def Let_def split: option.split)
  have next': "timer_next_id (snd (schedule_at ?dl task ?t)) = timer_next_id ?t + 1"
    by (simp add: schedule_at_def next_id_def Let_def split: option.split)
  from ok have none: "task_at w timeout = None" by (force simp: timer_ok_def key)
  then have fresh: "timer_fresh ?dl ?t" by (simp add: timer_fresh_def key)
  from ok have wf: "timer_wf ?t" by (simp add: timer_ok_def)
  from ok assms(3) have small: "unat (timer_next_id ?t) < 2 ^ 64 - 1" by (simp add: timer_ok_def in_time_def w' tick_def)
  then have "timer_next_id ?t \<noteq> -1" by (auto simp: unat_neg_1)
  then have suc: "unat (timer_next_id ?t + 1) = Suc (unat (timer_next_id ?t))" by (rule unat_inc)
  have abs: "task_at w' = (task_at w)(timeout \<mapsto> task)"
    using schedule_at_abs [OF wf fresh, of task] by (simp add: w' tick_def timeout)
  have "timer_ok w'"
    using ok schedule_at_wf [OF wf fresh, of task] abs
    by (auto simp: timer_ok_def w' tick_def next' suc key less_Suc_eq split: if_splits)
  with assms(2) abs none show ?thesis by (simp add: worker_ok_def w' tick_def)
qed

lemma grows_schedule:
  assumes "w_schedule E dur task w = (timeout, w')"
  shows "grows w w'"
proof -
  have "w_ticks w' = Suc (w_ticks w) \<and> w_table w' = w_table w"
    using assms by (auto simp: w_schedule_def tick_def split: prod.splits)
  with w_schedule_ok [OF assms] show ?thesis by (fastforce simp: keeps_tasks_def)
qed

lemma w_cancel_ok:
  assumes "worker_ok w"
  shows "worker_ok (w_cancel timeout w) \<and> task_at (w_cancel timeout w) = (task_at w)(timeout := None)"
proof -
  have "timer_next_id (snd (timer_cancel timeout (w_timer w))) = timer_next_id (w_timer w)"
    by (auto simp: timer_cancel_def queue_remove_def split: option.split)
  with assms timer_cancel_wf [of "w_timer w" timeout] timer_cancel_abs [of "w_timer w" timeout] show ?thesis
    by (auto simp: worker_ok_def timer_ok_def w_cancel_def)
qed

lemma keeps_cancel:
  assumes "\<And>task. task_at w timeout = Some task \<Longrightarrow> \<not> P task"
  shows "keeps_tasks P A w (w_cancel timeout w)"
  using assms w_cancel_ok [of w timeout] by (auto simp: keeps_tasks_def) (simp_all add: w_cancel_def)

lemma steps_cancel:
  assumes "\<And>task. task_at w timeout = Some task \<Longrightarrow> action_id (task_id task) = aid"
  shows "steps aid w (w_cancel timeout w)"
  using assms by (intro keeps_cancel) simp

lemmas grows_intros = grows_tick_only grows_send grows_local_request grows_generate grows_schedule

lemma hm_simps [simp]:
  "set (hm_remove k m) = {p \<in> set m. fst p \<noteq> k}"
  "set (hm_insert k v m) = insert (k, v) {p \<in> set m. fst p \<noteq> k}"
  "hm_insert k v m \<noteq> []"
  by (auto simp: hm_remove_def hm_insert_def)

section \<open>The target lies in its bucket\<close>

lemma bit_at_flip:
  assumes "flip_id_bit_at_index nid i = Ok t" and "j < length nid * 8"
  shows "bit_at t j = (bit_at nid j \<noteq> (j = i))"
proof -
  from assms(1) have t: "t = nid[i div 8 := nid ! (i div 8) XOR push_bit (7 - i mod 8) 1]" "i div 8 < length nid"
    by (auto simp: flip_id_bit_at_index_def Let_def split: if_splits)
  show ?thesis
  proof (cases "j div 8 = i div 8")
    case True
    then have "j = i \<longleftrightarrow> j mod 8 = i mod 8" by (metis mod_mult_div_eq)
    also have "\<dots> \<longleftrightarrow> 7 - j mod 8 = 7 - i mod 8" using mod_less_divisor [of 8 i] mod_less_divisor [of 8 j] by linarith
    finally have "j = i \<longleftrightarrow> 7 - j mod 8 = 7 - i mod 8" .
    with True t show ?thesis by (auto simp: bit_at_def bit_simps)
  next
    case False
    then show ?thesis using t by (auto simp: bit_at_def)
  qed
qed

lemma flip_id_bit_correct:
  assumes "sha_wf nid" and "i < MAX_BUCKETS"
  shows "\<exists>t. flip_id_bit_at_index nid i = Ok t \<and> sha_wf t \<and> leading_bit_count nid t = i"
proof -
  from assms have i: "i div 8 < length nid" "i < length nid * 8" by (auto simp: sha_wf_def MAX_BUCKETS_def)
  then obtain t where t: "flip_id_bit_at_index nid i = Ok t" by (simp add: flip_id_bit_at_index_def Let_def)
  from t have len: "length nid = length t" by (auto simp: flip_id_bit_at_index_def Let_def split: if_splits)
  note spec = leading_bit_spec [OF len]
  have "bit_at nid j \<noteq> bit_at t j \<longleftrightarrow> j = i" if "j < length nid * 8" for j using bit_at_flip [OF t that] by auto
  with spec i have "leading_bit_count nid t = i" by (metis linorder_neqE_nat order_le_less)
  with t len assms(1) show ?thesis by (auto simp: sha_wf_def)
qed

section \<open>The refresh keeps itself going\<close>

lemma grows_refresh_loop: "refresh_loop E target ns r w = (st, r', w') \<Longrightarrow> grows w w'"
proof (induction ns arbitrary: r w)
  case (Cons node ns)
  then show ?case
    by (auto simp: Let_def split: prod.splits if_splits dest!: grows_generate grows_send
        intro: keeps_trans [OF keeps_trans] grows_local_request) (metis grows_local_request keeps_trans)
qed simp

definition refresh_wf :: "u64 \<Rightarrow> TableRefresh \<Rightarrow> bool" where
  "refresh_wf aid r \<longleftrightarrow> mid_ok aid (tr_id_generator r) \<and> unat aid < 2 ^ 40 \<and> curr_refresh_bucket r \<le> MAX_BUCKETS"

lemma refresh_loop_wf:
  "refresh_loop E target ns r w = (st, r', w') \<Longrightarrow> refresh_wf aid r \<Longrightarrow>
   refresh_wf aid r' \<and> curr_refresh_bucket r' = curr_refresh_bucket r"
proof (induction ns arbitrary: r w)
  case (Cons node ns)
  obtain trans_id g w1 where gen: "w_generate E (tr_id_generator r) w = (trans_id, g, w1)"
    by (cases "w_generate E (tr_id_generator r) w")
  from Cons.prems(2) have "mid_ok aid g"
    using w_generate_action [OF gen, of aid] by (simp add: refresh_wf_def)
  with Cons show ?case by (auto simp: gen Let_def refresh_wf_def split: prod.splits if_splits)
qed simp

lemma continue_refresh_ok:
  assumes w: "rt_wf (w_table w)" and r: "refresh_wf aid r"
  shows "\<exists>st r' w'. continue_refresh E r w = Ok (st, r', w') \<and> grows w w' \<and> refresh_wf aid r' \<and>
    (st \<noteq> RefreshFailed \<longrightarrow> worker_ok w \<longrightarrow> in_time w' \<longrightarrow>
       (\<exists>k t. task_at w' k = Some (CheckTableRefresh t) \<and> action_id t = aid))"
proof -
  define r0 where "r0 = (let r = r\<lparr>send_message_num := 0\<rparr>
    in if curr_refresh_bucket r = MAX_BUCKETS then r\<lparr>curr_refresh_bucket := 0\<rparr> else r)"
  from r have r0: "refresh_wf aid r0" "curr_refresh_bucket r0 < MAX_BUCKETS"
    by (auto simp: refresh_wf_def r0_def Let_def MAX_BUCKETS_def SHA_HASH_LEN_def)
  from w have "sha_wf (rt_node_id (w_table w))" by (simp add: rt_wf_def)
  from flip_id_bit_correct [OF this r0(2)] obtain target where
    target: "flip_id_bit_at_index (rt_node_id (w_table w)) (curr_refresh_bucket r0) = Ok target" by blast
  obtain ns where run: "refresh_next_bucket E r w = Ok (refresh_loop E target ns r0 (tick w))"
    using target by (auto simp: refresh_next_bucket_def r0_def Let_def)
  obtain st r1 w1 where loop: "refresh_loop E target ns r0 (tick w) = (st, r1, w1)"
    by (cases "refresh_loop E target ns r0 (tick w)")
  from grows_tick_only grows_refresh_loop [OF loop] have g1: "grows w w1" by (rule keeps_trans)
  from refresh_loop_wf [OF loop r0(1)] r0(2) have
    r1: "refresh_wf aid r1" "curr_refresh_bucket r1 < MAX_BUCKETS" by simp_all
  show ?thesis
  proof (cases "st = RefreshFailed")
    case True
    with run loop r1 g1 show ?thesis by (simp add: continue_refresh_def)
  next
    case False
    let ?r = "r1\<lparr>curr_refresh_bucket := curr_refresh_bucket r1 + 1\<rparr>"
    let ?d = "if send_message_num r1 \<noteq> 0 then REFRESH_INTERVAL_TIMEOUT else REFRESH_0_TIMEOUT"
    obtain trans_id g w2 where gen: "w_generate E (tr_id_generator r1) w1 = (trans_id, g, w2)"
      by (cases "w_generate E (tr_id_generator r1) w1")
    obtain k w3 where sch: "w_schedule E ?d (CheckTableRefresh trans_id) w2 = (k, w3)"
      by (cases "w_schedule E ?d (CheckTableRefresh trans_id) w2")
    from r1(1) have "mid_ok aid g \<and> action_id trans_id = aid"
      using w_generate_action [OF gen, of aid] by (simp add: refresh_wf_def)
    moreover have "continue_refresh E r w = Ok (Refreshing, ?r\<lparr>tr_id_generator := g\<rparr>, w3)"
      using run loop False sch by (simp add: continue_refresh_def gen split: if_splits)
    moreover have g2: "grows w w2" using g1 grows_generate [OF gen] by (rule keeps_trans)
    moreover have "grows w2 w3" by (rule grows_schedule [OF sch])
    moreover have "task_at w3 k = Some (CheckTableRefresh trans_id)" if "worker_ok w" "in_time w3"
      using w_schedule_ok [OF sch _ that(2)] keeps_worker_ok [OF g2 that(1)] keeps_in_time [OF grows_schedule [OF sch] that(2)]
      by simp
    ultimately show ?thesis using r1
      by (intro exI [of _ Refreshing] exI [of _ "?r\<lparr>tr_id_generator := g\<rparr>"] exI [of _ w3])
        (auto simp: refresh_wf_def intro: keeps_trans)
  qed
qed

end
