(* ===== verification/Dht_Bootstrap.thy ===== *)
theory Dht_Bootstrap
  imports Dht_Worker
begin

text \<open>
  The bootstrap of the routing table, \<open>btp-dht/src/worker/bootstrap.rs\<close>: one request to all routers and known
  nodes, then for each of the 160 buckets requests to questionable nodes near it. Its invariant is
  that an unfinished bootstrap always waits for a timeout that is pending.
\<close>

section \<open>The bootstrap\<close>

definition BOOTSTRAP_INITIAL_TIMEOUT :: duration where "BOOTSTRAP_INITIAL_TIMEOUT = from_millis 2500"
definition BOOTSTRAP_NODE_TIMEOUT :: duration where "BOOTSTRAP_NODE_TIMEOUT = from_millis 500"
definition PINGS_PER_BUCKET :: nat where "PINGS_PER_BUCKET = 8"

datatype BootstrapStatus = Bootstrapping | BootstrapCompleted | BootstrapFailed

text \<open>The set of routers is a list without duplicates; in which order a \<open>HashSet\<close> iterates is not specified.\<close>

record TableBootstrap =
  tb_table_id :: ShaHash
  tb_id_generator :: MIDGenerator
  starting_nodes :: "SocketAddr list"
  starting_routers :: "SocketAddr list"
  active_messages :: "(TransactionID \<times> Timeout) list"
  messages_sent_num :: u32
  curr_bootstrap_bucket :: nat
  is_completed :: bool

definition table_bootstrap_new :: "ShaHash \<Rightarrow> MIDGenerator \<Rightarrow> SocketAddr list \<Rightarrow> SocketAddr list \<Rightarrow> TableBootstrap" where
  "table_bootstrap_new table_id g ns routers =
     \<lparr>tb_table_id = table_id, tb_id_generator = g, starting_nodes = ns, starting_routers = remdups routers,
      active_messages = [], messages_sent_num = 0, curr_bootstrap_bucket = 0, is_completed = False\<rparr>"

definition current_bootstrap_status :: "TableBootstrap \<Rightarrow> BootstrapStatus" where
  "current_bootstrap_status b = (if is_completed b \<and> active_messages b = [] then BootstrapCompleted else Bootstrapping)"

fun send_all :: "Env \<Rightarrow> bytes \<Rightarrow> SocketAddr list \<Rightarrow> Worker \<Rightarrow> bool \<times> Worker" where
  "send_all E msg [] w = (True, w)"
| "send_all E msg (addr # rest) w =
     (let (sent, w) = w_send E (msg, addr) w in if \<not> sent then (False, w) else send_all E msg rest w)"

definition start_bootstrap :: "Env \<Rightarrow> TableBootstrap \<Rightarrow> Worker \<Rightarrow> BootstrapStatus \<times> TableBootstrap \<times> Worker" where
  "start_bootstrap E b w =
     (let b = b\<lparr>active_messages := [], curr_bootstrap_bucket := 0, is_completed := False\<rparr>;
          (tid, g, w) = w_generate E (tb_id_generator b) w;
          (timeout, w) = w_schedule E BOOTSTRAP_INITIAL_TIMEOUT (CheckBootstrapTimeout tid) w;
          b = b\<lparr>tb_id_generator := g, active_messages := hm_insert tid timeout (active_messages b)\<rparr>;
          find_node_msg = find_node_encode
            \<lparr>fn_trans_id = trans_id_bytes tid, fn_node_id = tb_table_id b, fn_target_id = tb_table_id b\<rparr>;
          (ok, w) = send_all E find_node_msg (starting_routers b @ starting_nodes b) w
      in if \<not> ok then (BootstrapFailed, b, w) else (current_bootstrap_status b, b, w))"

definition is_router :: "TableBootstrap \<Rightarrow> SocketAddr \<Rightarrow> bool" where
  "is_router b addr \<longleftrightarrow> addr \<in> set (starting_routers b)"

fun bootstrap_requests ::
    "Env \<Rightarrow> ShaHash \<Rightarrow> NodeHandle list \<Rightarrow> TableBootstrap \<Rightarrow> Worker \<Rightarrow> BootstrapStatus \<times> TableBootstrap \<times> Worker" where
  "bootstrap_requests E target_id [] b w = (Bootstrapping, b, w)"
| "bootstrap_requests E target_id (node # rest) b w =
     (let (tid, g, w) = w_generate E (tb_id_generator b) w;
          b = b\<lparr>tb_id_generator := g\<rparr>;
          find_node_msg = find_node_encode
            \<lparr>fn_trans_id = trans_id_bytes tid, fn_node_id = tb_table_id b, fn_target_id = target_id\<rparr>;
          (timeout, w) = w_schedule E BOOTSTRAP_NODE_TIMEOUT (CheckBootstrapTimeout tid) w;
          (sent, w) = w_send E (find_node_msg, h_addr node) w
      in if \<not> sent then (BootstrapFailed, b, w)
         else bootstrap_requests E target_id rest
                (b\<lparr>active_messages := hm_insert tid timeout (active_messages b),
                   messages_sent_num := messages_sent_num b + 1\<rparr>)
                (w_local_request E node w))"

definition send_bootstrap_requests ::
    "Env \<Rightarrow> NodeHandle list \<Rightarrow> ShaHash \<Rightarrow> TableBootstrap \<Rightarrow> Worker \<Rightarrow> BootstrapStatus \<times> TableBootstrap \<times> Worker" where
  "send_bootstrap_requests E ns target_id b w = bootstrap_requests E target_id ns (b\<lparr>messages_sent_num := 0\<rparr>) w"

fun contents_nodes :: "BucketContents option \<Rightarrow> Node list" where
  "contents_nodes None = nodes bucket_new"
| "contents_nodes (Some EmptyBucket) = nodes bucket_new"
| "contents_nodes (Some (Sorted b)) = nodes b"
| "contents_nodes (Some (Assorted b)) = nodes b"

definition pick_questionable :: "instant \<Rightarrow> Node list \<Rightarrow> NodeHandle list" where
  "pick_questionable now ns = map handle (take PINGS_PER_BUCKET (filter (\<lambda>n. status now n = Questionable) ns))"

definition bootstrap_next_bucket ::
    "Env \<Rightarrow> TableBootstrap \<Rightarrow> Worker \<Rightarrow> (unit, BootstrapStatus \<times> TableBootstrap \<times> Worker) outcome" where
  "bootstrap_next_bucket E b w =
     try_bind (flip_id_bit_at_index (tb_table_id b) (curr_bootstrap_bucket b)) (\<lambda>target_id.
       let now = w_now E w
       in if curr_bootstrap_bucket b = 0 \<or> curr_bootstrap_bucket b = 1 then
            Ok (send_bootstrap_requests E (pick_questionable now (closest_nodes now (w_table w) target_id)) target_id b (tick w))
          else
            let it = buckets_iter_new (buckets (w_table w));
                skip = curr_bootstrap_bucket b - 2;
                percent_25_bucket = contents_nodes (buckets_skip_next skip it);
                percent_50_bucket = contents_nodes (buckets_skip_next (skip + 1) it);
                percent_100_bucket = contents_nodes (buckets_skip_next (skip + 2) it)
            in Ok (send_bootstrap_requests E (pick_questionable now (percent_25_bucket @ percent_50_bucket @ percent_100_bucket))
                     target_id b (tick w)))"

text \<open>
  The loop over the buckets that \<open>recv_response\<close> and \<open>recv_timeout\<close> share. It ends because the bucket counter
  only rises; past the last bucket \<open>flip_id_bit_at_index\<close> panics.
\<close>

lemma length_pick_questionable: "length (pick_questionable now ns) \<le> PINGS_PER_BUCKET"
  by (simp add: pick_questionable_def)

lemma bootstrap_requests_bucket:
  "bootstrap_requests E target_id ns b w = (st, b', w') \<Longrightarrow>
   curr_bootstrap_bucket b' = curr_bootstrap_bucket b \<and> tb_table_id b' = tb_table_id b \<and> is_completed b' = is_completed b"
  by (induction ns arbitrary: b w) (fastforce simp: Let_def split: prod.splits if_splits)+

lemma next_bucket_sel:
  "bootstrap_next_bucket E b w = Ok (st, b', w') \<Longrightarrow>
   curr_bootstrap_bucket b' = curr_bootstrap_bucket b \<and> tb_table_id b' = tb_table_id b \<and> is_completed b' = is_completed b \<and>
   curr_bootstrap_bucket b div 8 < length (tb_table_id b)"
  by (auto simp: bootstrap_next_bucket_def send_bootstrap_requests_def flip_id_bit_at_index_def outcome_simps Let_def
      dest!: bootstrap_requests_bucket split: if_splits)

function bucket_loop ::
    "Env \<Rightarrow> TableBootstrap \<Rightarrow> Worker \<Rightarrow> (unit, BootstrapStatus \<times> TableBootstrap \<times> Worker) outcome" where
  "bucket_loop E b w =
     (case bootstrap_next_bucket E b w of
        Ok (st, b1, w1) \<Rightarrow>
          if st = BootstrapFailed then Ok (BootstrapFailed, b1, w1)
          else let b2 = b1\<lparr>curr_bootstrap_bucket := curr_bootstrap_bucket b1 + 1\<rparr>
               in if curr_bootstrap_bucket b2 = MAX_BUCKETS then
                    let b3 = b2\<lparr>is_completed := True\<rparr> in Ok (current_bootstrap_status b3, b3, w1)
                  else if messages_sent_num b2 \<noteq> 0 then Ok (Bootstrapping, b2, w1)
                  else bucket_loop E b2 w1
      | Err e \<Rightarrow> Err e
      | Panic \<Rightarrow> Panic)"
  by pat_completeness auto
termination
  by (relation "measure (\<lambda>(E, b, w). 8 * length (tb_table_id b) - curr_bootstrap_bucket b)")
    (auto dest!: next_bucket_sel)

declare bucket_loop.simps [simp del]

definition bootstrap_go_on ::
    "Env \<Rightarrow> TableBootstrap \<Rightarrow> Worker \<Rightarrow> (unit, BootstrapStatus \<times> TableBootstrap \<times> Worker) outcome" where
  "bootstrap_go_on E b w =
     (if \<not> is_completed b \<and> active_messages b = [] then bucket_loop E b w else Ok (current_bootstrap_status b, b, w))"

definition bootstrap_recv_response ::
    "Env \<Rightarrow> TransactionID \<Rightarrow> TableBootstrap \<Rightarrow> Worker \<Rightarrow> (unit, BootstrapStatus \<times> TableBootstrap \<times> Worker) outcome" where
  "bootstrap_recv_response E tid b w =
     (case map_of (active_messages b) tid of
        None \<Rightarrow> Ok (current_bootstrap_status b, b, w)
      | Some timeout \<Rightarrow>
          let (b, w) = (if curr_bootstrap_bucket b \<noteq> 0
                        then (b\<lparr>active_messages := hm_remove tid (active_messages b)\<rparr>, w_cancel timeout w)
                        else (b, w))
          in bootstrap_go_on E b w)"

definition bootstrap_recv_timeout ::
    "Env \<Rightarrow> TransactionID \<Rightarrow> TableBootstrap \<Rightarrow> Worker \<Rightarrow> (unit, BootstrapStatus \<times> TableBootstrap \<times> Worker) outcome" where
  "bootstrap_recv_timeout E tid b w =
     (if map_of (active_messages b) tid = None then Ok (current_bootstrap_status b, b, w)
      else let b = b\<lparr>active_messages := hm_remove tid (active_messages b)\<rparr>
           in bootstrap_go_on E b w)"

section \<open>The invariant\<close>

text \<open>
  A bootstrap of action \<open>aid\<close> is well-formed when the bucket it comes to is one of the 160 unless it is completed,
  every message it waits for has its timeout pending, and it waits for one unless it is completed.
\<close>

definition bootstrap_wf :: "u64 \<Rightarrow> TableBootstrap \<Rightarrow> bool" where
  "bootstrap_wf aid b \<longleftrightarrow> mid_ok aid (tb_id_generator b) \<and> unat aid < 2 ^ 40 \<and> sha_wf (tb_table_id b) \<and>
     (\<not> is_completed b \<longrightarrow> curr_bootstrap_bucket b < MAX_BUCKETS)"

definition bootstrap_waits :: "u64 \<Rightarrow> TableBootstrap \<Rightarrow> Worker \<Rightarrow> bool" where
  "bootstrap_waits aid b w \<longleftrightarrow>
     (\<forall>(tid, timeout)\<in>set (active_messages b).
        task_at w timeout = Some (CheckBootstrapTimeout tid) \<and> action_id tid = aid)"

lemma grows_send_all: "send_all E msg as w = (ok, w') \<Longrightarrow> grows w w'"
  by (induction as arbitrary: w) (auto simp: Let_def split: prod.splits if_splits dest!: grows_send intro: keeps_trans)

lemma waits_mono:
  "bootstrap_waits aid b w \<Longrightarrow> grows w w' \<Longrightarrow> worker_ok w \<Longrightarrow> in_time w' \<Longrightarrow> bootstrap_waits aid b w'"
  by (auto simp: bootstrap_waits_def keeps_tasks_def)

lemma start_bootstrap_wf:
  assumes start: "start_bootstrap E b w = (st, b', w')" and b: "bootstrap_wf aid b"
  shows "grows w w' \<and> bootstrap_wf aid b'"
proof -
  obtain tid g w1 where gen: "w_generate E (tb_id_generator b) w = (tid, g, w1)" by (cases "w_generate E (tb_id_generator b) w")
  obtain timeout w2 where sch: "w_schedule E BOOTSTRAP_INITIAL_TIMEOUT (CheckBootstrapTimeout tid) w1 = (timeout, w2)"
    by (cases "w_schedule E BOOTSTRAP_INITIAL_TIMEOUT (CheckBootstrapTimeout tid) w1")
  from start have b': "b' = b\<lparr>active_messages := [(tid, timeout)], curr_bootstrap_bucket := 0, is_completed := False,
      tb_id_generator := g\<rparr>" and sent: "\<exists>msg as ok. send_all E msg as w2 = (ok, w')"
    by (auto simp: start_bootstrap_def gen sch Let_def hm_insert_def hm_remove_def split: prod.splits if_splits)
  from sent grows_send_all have w': "grows w2 w'" by blast
  from b have "mid_ok aid (tb_id_generator b)" "unat aid < 2 ^ 40" by (simp_all add: bootstrap_wf_def)
  note act = w_generate_action [OF gen this]
  from b act have "bootstrap_wf aid b'" by (simp add: bootstrap_wf_def b')
  with grows_generate [OF gen] grows_schedule [OF sch] w' show ?thesis by (auto intro: keeps_trans)
qed

lemma start_bootstrap_ok:
  assumes start: "start_bootstrap E b w = (st, b', w')" and b: "bootstrap_wf aid b" and w: "worker_ok w" "in_time w'"
  shows "grows w w' \<and> bootstrap_wf aid b' \<and> bootstrap_waits aid b' w' \<and> active_messages b' \<noteq> [] \<and> \<not> is_completed b'"
proof -
  obtain tid g w1 where gen: "w_generate E (tb_id_generator b) w = (tid, g, w1)" by (cases "w_generate E (tb_id_generator b) w")
  obtain timeout w2 where sch: "w_schedule E BOOTSTRAP_INITIAL_TIMEOUT (CheckBootstrapTimeout tid) w1 = (timeout, w2)"
    by (cases "w_schedule E BOOTSTRAP_INITIAL_TIMEOUT (CheckBootstrapTimeout tid) w1")
  from start have b': "b' = b\<lparr>active_messages := [(tid, timeout)], curr_bootstrap_bucket := 0, is_completed := False,
      tb_id_generator := g\<rparr>" and sent: "\<exists>msg as ok. send_all E msg as w2 = (ok, w')"
    by (auto simp: start_bootstrap_def gen sch Let_def hm_insert_def hm_remove_def split: prod.splits if_splits)
  from sent grows_send_all have w': "grows w2 w'" by blast
  note g1 = grows_generate [OF gen] and g2 = grows_schedule [OF sch]
  from w w' g2 have t2: "in_time w2" and t1: "in_time w1" by (metis keeps_in_time)+
  from w g1 t1 have w1: "worker_ok w1" by (metis keeps_worker_ok)
  from w_schedule_ok [OF sch w1 t2] have w2: "worker_ok w2" "task_at w2 timeout = Some (CheckBootstrapTimeout tid)" by auto
  from b have "mid_ok aid (tb_id_generator b)" "unat aid < 2 ^ 40" by (simp_all add: bootstrap_wf_def)
  note act = w_generate_action [OF gen this]
  from b act have "bootstrap_wf aid b'" by (simp add: bootstrap_wf_def b')
  moreover have "bootstrap_waits aid b' w'"
    using keeps_pending [OF w' w2(1) w(2) w2(2)] act by (simp add: bootstrap_waits_def b')
  ultimately show ?thesis using g1 g2 w' by (auto simp: b' intro: keeps_trans)
qed

lemma grows_bootstrap_requests: "bootstrap_requests E target_id ns b w = (st, b', w') \<Longrightarrow> grows w w'"
proof (induction ns arbitrary: b w)
  case (Cons node ns)
  then show ?case
    by (auto simp: Let_def split: prod.splits if_splits dest!: grows_generate grows_send grows_schedule
        intro: keeps_trans [OF keeps_trans]) (metis grows_local_request keeps_trans)
qed simp

lemma bootstrap_requests_wf:
  "bootstrap_requests E target_id ns b w = (st, b', w') \<Longrightarrow> bootstrap_wf aid b \<Longrightarrow> bootstrap_wf aid b'"
proof (induction ns arbitrary: b w)
  case (Cons node ns)
  obtain tid g w1 where gen: "w_generate E (tb_id_generator b) w = (tid, g, w1)" by (cases "w_generate E (tb_id_generator b) w")
  from Cons.prems(2) have "mid_ok aid g" using w_generate_action [OF gen, of aid] by (simp add: bootstrap_wf_def)
  with Cons show ?case by (auto simp: gen Let_def bootstrap_wf_def split: prod.splits if_splits)
qed simp

lemma bootstrap_requests_ok:
  assumes "bootstrap_requests E target_id ns b w = (st, b', w')" and "bootstrap_wf aid b" and "worker_ok w" and "in_time w'"
    and "bootstrap_waits aid b w" and "length ns + unat (messages_sent_num b) < 2 ^ 32"
  shows "bootstrap_waits aid b' w' \<and>
    (st \<noteq> BootstrapFailed \<longrightarrow> (active_messages b \<noteq> [] \<or> ns \<noteq> [] \<longrightarrow> active_messages b' \<noteq> []) \<and>
       unat (messages_sent_num b') = unat (messages_sent_num b) + length ns)"
  using assms
proof (induction ns arbitrary: b w)
  case Nil
  then show ?case by simp
next
  case (Cons node ns)
  obtain tid g w1 where gen: "w_generate E (tb_id_generator b) w = (tid, g, w1)" by (cases "w_generate E (tb_id_generator b) w")
  obtain timeout w2 where sch: "w_schedule E BOOTSTRAP_NODE_TIMEOUT (CheckBootstrapTimeout tid) w1 = (timeout, w2)"
    by (cases "w_schedule E BOOTSTRAP_NODE_TIMEOUT (CheckBootstrapTimeout tid) w1")
  let ?m = "find_node_encode \<lparr>fn_trans_id = trans_id_bytes tid, fn_node_id = tb_table_id b, fn_target_id = target_id\<rparr>"
  obtain sent w3 where snd: "w_send E (?m, h_addr node) w2 = (sent, w3)" by (cases "w_send E (?m, h_addr node) w2")
  let ?b = "b\<lparr>tb_id_generator := g, active_messages := hm_insert tid timeout (active_messages b),
              messages_sent_num := messages_sent_num b + 1\<rparr>" and ?w = "w_local_request E node w3"
  note g1 = grows_generate [OF gen] and g2 = grows_schedule [OF sch] and g3 = grows_send [OF snd]
  from Cons.prems(2) have "mid_ok aid (tb_id_generator b)" "unat aid < 2 ^ 40" by (simp_all add: bootstrap_wf_def)
  note act = w_generate_action [OF gen this]
  from act Cons.prems(2) have wf: "bootstrap_wf aid ?b" "bootstrap_wf aid (b\<lparr>tb_id_generator := g\<rparr>)" by (simp_all add: bootstrap_wf_def)
  have g12: "grows w w2" using g1 g2 by (rule keeps_trans)
  have g13: "grows w w3" using g12 g3 by (rule keeps_trans)
  have g14: "grows w ?w" using g13 grows_local_request by (rule keeps_trans)
  have g24: "grows w2 ?w" using g3 grows_local_request by (rule keeps_trans)
  show ?case
  proof (cases sent)
    case False
    with Cons.prems(1) have eq: "st = BootstrapFailed" "b' = b\<lparr>tb_id_generator := g\<rparr>" "w' = w3"
      by (simp_all add: gen sch snd)
    from waits_mono [OF Cons.prems(5) g13 Cons.prems(3)] Cons.prems(4) wf show ?thesis
      by (simp add: eq bootstrap_waits_def)
  next
    case True
    have run: "bootstrap_requests E target_id ns ?b ?w = (st, b', w')"
      using Cons.prems(1) True by (simp add: gen sch snd)
    have t: "in_time ?w" by (rule keeps_in_time [OF grows_bootstrap_requests [OF run] Cons.prems(4)])
    then have t2: "in_time w2" by (rule keeps_in_time [OF g24])
    have w1: "worker_ok w1" by (rule keeps_worker_ok [OF g1 Cons.prems(3) keeps_in_time [OF g2 t2]])
    from w_schedule_ok [OF sch w1 t2] have w2: "worker_ok w2" "task_at w2 timeout = Some (CheckBootstrapTimeout tid)" by auto
    have "bootstrap_waits aid b ?w" by (rule waits_mono [OF Cons.prems(5) g14 Cons.prems(3) t])
    with keeps_pending [OF g24 w2(1) t w2(2)] act have waits: "bootstrap_waits aid ?b ?w" by (auto simp: bootstrap_waits_def)
    have ok: "worker_ok ?w" by (rule keeps_worker_ok [OF g14 Cons.prems(3) t])
    have num: "unat (messages_sent_num b + 1) = Suc (unat (messages_sent_num b))"
      using Cons.prems(6) by (intro unat_inc) (auto simp: unat_neg_1)
    from Cons.IH [OF run wf(1) ok Cons.prems(4) waits] Cons.prems(6) num show ?thesis by simp
  qed
qed

lemma next_bucket_ok:
  assumes b: "bootstrap_wf aid b" "\<not> is_completed b" and w: "rt_wf (w_table w)"
  shows "\<exists>st b' w'. bootstrap_next_bucket E b w = Ok (st, b', w') \<and> grows w w' \<and> is_completed b' = is_completed b \<and>
    curr_bootstrap_bucket b' = curr_bootstrap_bucket b \<and> bootstrap_wf aid b' \<and>
    (worker_ok w \<longrightarrow> in_time w' \<longrightarrow> bootstrap_waits aid b w \<longrightarrow> bootstrap_waits aid b' w' \<and>
       (st \<noteq> BootstrapFailed \<longrightarrow> messages_sent_num b' \<noteq> 0 \<longrightarrow> active_messages b' \<noteq> []))"
proof -
  from b have "sha_wf (tb_table_id b)" "curr_bootstrap_bucket b < MAX_BUCKETS" by (simp_all add: bootstrap_wf_def)
  from flip_id_bit_correct [OF this] obtain target where
    target: "flip_id_bit_at_index (tb_table_id b) (curr_bootstrap_bucket b) = Ok target" by blast
  obtain ns where run: "bootstrap_next_bucket E b w = Ok (bootstrap_requests E target ns (b\<lparr>messages_sent_num := 0\<rparr>) (tick w))"
    and ns: "length ns \<le> PINGS_PER_BUCKET"
  proof -
    have "\<exists>ns. bootstrap_next_bucket E b w = Ok (bootstrap_requests E target (pick_questionable (w_now E w) ns)
        (b\<lparr>messages_sent_num := 0\<rparr>) (tick w))"
      unfolding bootstrap_next_bucket_def send_bootstrap_requests_def Let_def target try_bind.simps
      by (cases "curr_bootstrap_bucket b = 0 \<or> curr_bootstrap_bucket b = 1") (simp_all only: if_True if_False outcome.inject, blast+)
    with that length_pick_questionable show thesis by blast
  qed
  obtain st b' w' where loop: "bootstrap_requests E target ns (b\<lparr>messages_sent_num := 0\<rparr>) (tick w) = (st, b', w')"
    by (cases "bootstrap_requests E target ns (b\<lparr>messages_sent_num := 0\<rparr>) (tick w)")
  note g = grows_bootstrap_requests [OF loop]
  have gw: "grows w w'" using grows_tick_only g by (rule keeps_trans)
  from b(1) have "bootstrap_wf aid (b\<lparr>messages_sent_num := 0\<rparr>)" by (simp add: bootstrap_wf_def)
  note wf = bootstrap_requests_wf [OF loop this]
  have "bootstrap_waits aid b' w' \<and>
     (st \<noteq> BootstrapFailed \<longrightarrow> messages_sent_num b' \<noteq> 0 \<longrightarrow> active_messages b' \<noteq> [])"
    if "worker_ok w" "in_time w'" "bootstrap_waits aid b w"
  proof -
    have t: "in_time (tick w)" by (rule keeps_in_time [OF g that(2)])
    have "bootstrap_waits aid (b\<lparr>messages_sent_num := 0\<rparr>) (tick w)"
      using waits_mono [OF that(3) grows_tick_only that(1) t] by (simp add: bootstrap_waits_def)
    from bootstrap_requests_ok [OF loop _ keeps_worker_ok [OF grows_tick_only that(1) t] that(2) this, of] b(1) ns show ?thesis
      by (cases ns) (auto simp: bootstrap_wf_def PINGS_PER_BUCKET_def unat_eq_zero)
  qed
  with run loop gw wf bootstrap_requests_bucket [OF loop] show ?thesis by simp
qed

text \<open>The loop over the buckets returns, without a panic, and leaves the bootstrap waiting or completed.\<close>

lemma bucket_loop_ok:
  assumes "bootstrap_wf aid b" and "\<not> is_completed b" and "rt_wf (w_table w)"
  shows "\<exists>st b' w'. bucket_loop E b w = Ok (st, b', w') \<and> grows w w' \<and> bootstrap_wf aid b' \<and>
    (st \<noteq> BootstrapFailed \<longrightarrow> st = current_bootstrap_status b') \<and>
    (worker_ok w \<longrightarrow> in_time w' \<longrightarrow> bootstrap_waits aid b w \<longrightarrow> bootstrap_waits aid b' w' \<and>
       (st = Bootstrapping \<longrightarrow> active_messages b' \<noteq> []))"
  using assms
proof (induction E b w rule: bucket_loop.induct)
  case (1 E b w)
  from next_bucket_ok [OF 1(2-4)] obtain st b1 w1 where
    nb: "bootstrap_next_bucket E b w = Ok (st, b1, w1)" and g: "grows w w1" and b1: "\<not> is_completed b1"
      "curr_bootstrap_bucket b1 = curr_bootstrap_bucket b" "bootstrap_wf aid b1"
    and waits: "worker_ok w \<Longrightarrow> in_time w1 \<Longrightarrow> bootstrap_waits aid b w \<Longrightarrow> bootstrap_waits aid b1 w1 \<and>
       (st \<noteq> BootstrapFailed \<longrightarrow> messages_sent_num b1 \<noteq> 0 \<longrightarrow> active_messages b1 \<noteq> [])"
    using 1(3) by blast
  define b2 where "b2 = b1\<lparr>curr_bootstrap_bucket := curr_bootstrap_bucket b1 + 1\<rparr>"
  have same: "bootstrap_waits aid b2 = bootstrap_waits aid b1" "active_messages b2 = active_messages b1"
    "messages_sent_num b2 = messages_sent_num b1" "\<not> is_completed b2"
    using b1(1) by (simp_all add: b2_def bootstrap_waits_def fun_eq_iff)
  note step = bucket_loop.simps [of E b w, unfolded nb outcome.case prod.case, folded b2_def]
  have less: "curr_bootstrap_bucket b1 < MAX_BUCKETS" using b1 by (simp add: bootstrap_wf_def)
  consider (failed) "st = BootstrapFailed" | (last) "st \<noteq> BootstrapFailed" "curr_bootstrap_bucket b2 = MAX_BUCKETS"
    | (sent) "st \<noteq> BootstrapFailed" "curr_bootstrap_bucket b2 \<noteq> MAX_BUCKETS" "messages_sent_num b2 \<noteq> 0"
    | (again) "st \<noteq> BootstrapFailed" "curr_bootstrap_bucket b2 \<noteq> MAX_BUCKETS" "messages_sent_num b2 = 0" by blast
  then show ?case
  proof cases
    case failed
    with step g b1 waits show ?thesis by simp
  next
    case last
    let ?b3 = "b2\<lparr>is_completed := True\<rparr>"
    have "bucket_loop E b w = Ok (current_bootstrap_status ?b3, ?b3, w1)" using step last by (simp add: Let_def)
    moreover have "bootstrap_wf aid ?b3" using b1 by (simp add: bootstrap_wf_def b2_def)
    ultimately show ?thesis using g waits same
      by (auto simp: bootstrap_waits_def current_bootstrap_status_def split: if_splits)
  next
    case sent
    have "bucket_loop E b w = Ok (Bootstrapping, b2, w1)" using step sent by (simp add: Let_def)
    moreover have "bootstrap_wf aid b2" using b1 less sent(2) by (simp add: bootstrap_wf_def b2_def)
    ultimately show ?thesis using g waits same sent by (simp add: current_bootstrap_status_def)
  next
    case again
    have run: "bucket_loop E b w = bucket_loop E b2 w1" using step again by (simp add: Let_def)
    have wf: "bootstrap_wf aid b2" using b1 less again(2) by (simp add: bootstrap_wf_def b2_def)
    from 1(1) [OF nb refl refl again(1) b2_def again(2) _ wf same(4) keeps_table [OF g 1(4)]] again(3)
    obtain st' b' w' where ih: "bucket_loop E b2 w1 = Ok (st', b', w')" "grows w1 w'" "bootstrap_wf aid b'"
      "st' \<noteq> BootstrapFailed \<longrightarrow> st' = current_bootstrap_status b'"
      "worker_ok w1 \<longrightarrow> in_time w' \<longrightarrow> bootstrap_waits aid b2 w1 \<longrightarrow> bootstrap_waits aid b' w' \<and>
         (st' = Bootstrapping \<longrightarrow> active_messages b' \<noteq> [])" by blast
    have "bootstrap_waits aid b' w' \<and> (st' = Bootstrapping \<longrightarrow> active_messages b' \<noteq> [])"
      if w: "worker_ok w" "in_time w'" "bootstrap_waits aid b w"
    proof -
      have t: "in_time w1" by (rule keeps_in_time [OF ih(2) w(2)])
      with ih(5) keeps_worker_ok [OF g w(1) t] waits [OF w(1) t w(3)] w(2) same show ?thesis by simp
    qed
    moreover have "grows w w'" using g ih(2) by (rule keeps_trans)
    ultimately show ?thesis using ih run by simp
  qed
qed

text \<open>
  A bootstrap in \<open>table_actions\<close>: well-formed and waiting. Answers and timeouts keep it that way until it reports that
  it is completed, and never panic.
\<close>

definition bootstrap_ok :: "u64 \<Rightarrow> TableBootstrap \<Rightarrow> Worker \<Rightarrow> bool" where
  "bootstrap_ok aid b w \<longleftrightarrow> bootstrap_wf aid b \<and> bootstrap_waits aid b w \<and> active_messages b \<noteq> []"

lemma waits_remove: "bootstrap_waits aid b w \<Longrightarrow> bootstrap_waits aid (b\<lparr>active_messages := hm_remove tid (active_messages b)\<rparr>) w"
  by (auto simp: bootstrap_waits_def)

lemma go_on_ok:
  assumes "bootstrap_wf aid b" and "rt_wf (w_table w)"
  shows "\<exists>st b' w'. bootstrap_go_on E b w = Ok (st, b', w') \<and> grows w w' \<and> bootstrap_wf aid b' \<and>
    (worker_ok w \<longrightarrow> in_time w' \<longrightarrow> bootstrap_waits aid b w \<longrightarrow> st = Bootstrapping \<longrightarrow> bootstrap_ok aid b' w')"
proof (cases "\<not> is_completed b \<and> active_messages b = []")
  case True
  with bucket_loop_ok [OF assms(1) _ assms(2), of E] show ?thesis by (fastforce simp: bootstrap_ok_def bootstrap_go_on_def)
next
  case False
  with assms show ?thesis by (auto simp: bootstrap_go_on_def bootstrap_ok_def current_bootstrap_status_def)
qed

lemma bootstrap_recv_timeout_ok:
  assumes "bootstrap_wf aid b" and "rt_wf (w_table w)"
  shows "\<exists>st b' w'. bootstrap_recv_timeout E tid b w = Ok (st, b', w') \<and> grows w w' \<and> bootstrap_wf aid b' \<and>
    (worker_ok w \<longrightarrow> in_time w' \<longrightarrow> bootstrap_waits aid (b\<lparr>active_messages := hm_remove tid (active_messages b)\<rparr>) w \<longrightarrow>
       st = Bootstrapping \<longrightarrow> active_messages b \<noteq> [] \<longrightarrow> bootstrap_ok aid b' w')"
proof (cases "map_of (active_messages b) tid")
  case None
  then have "hm_remove tid (active_messages b) = active_messages b"
    by (force simp: hm_remove_def map_of_eq_None_iff filter_id_conv)
  with None assms show ?thesis by (simp add: bootstrap_recv_timeout_def bootstrap_ok_def bootstrap_waits_def)
next
  case (Some timeout)
  let ?b = "b\<lparr>active_messages := hm_remove tid (active_messages b)\<rparr>"
  from assms(1) have "bootstrap_wf aid ?b" by (simp add: bootstrap_wf_def)
  from go_on_ok [OF this assms(2), of E] Some show ?thesis by (auto simp: bootstrap_recv_timeout_def Let_def)
qed

lemma bootstrap_recv_response_ok:
  assumes b: "bootstrap_ok aid b w" and w: "worker_ok w" "rt_wf (w_table w)"
  shows "\<exists>st b' w'. bootstrap_recv_response E tid b w = Ok (st, b', w') \<and> steps aid w w' \<and> bootstrap_wf aid b' \<and>
    (in_time w' \<longrightarrow> st = Bootstrapping \<longrightarrow> bootstrap_ok aid b' w')"
proof (cases "map_of (active_messages b) tid")
  case None
  with assms show ?thesis by (simp add: bootstrap_recv_response_def bootstrap_ok_def)
next
  case (Some timeout)
  from b have wf: "bootstrap_wf aid b" and waits: "bootstrap_waits aid b w" by (simp_all add: bootstrap_ok_def)
  show ?thesis
  proof (cases "curr_bootstrap_bucket b = 0")
    case True
    with go_on_ok [OF wf w(2), of E] Some w waits show ?thesis
      by (fastforce simp: bootstrap_recv_response_def intro: grows_keeps)
  next
    case False
    let ?b = "b\<lparr>active_messages := hm_remove tid (active_messages b)\<rparr>" and ?w = "w_cancel timeout w"
    have key: "task_at w timeout = Some (CheckBootstrapTimeout tid)" "action_id tid = aid"
      using waits Some by (auto simp: bootstrap_waits_def dest: map_of_SomeD)
    have s: "steps aid w ?w" by (rule steps_cancel) (simp add: key)
    have wf': "bootstrap_wf aid ?b" using wf by (simp add: bootstrap_wf_def)
    have "bootstrap_waits aid ?b ?w"
      using waits key w_cancel_ok [OF w(1), of timeout] by (auto simp: bootstrap_waits_def)
    moreover from go_on_ok [OF wf' keeps_table [OF s w(2)], of E] obtain st b' w' where
      go: "bootstrap_go_on E ?b ?w = Ok (st, b', w')" "grows ?w w'" "bootstrap_wf aid b'"
      "worker_ok ?w \<longrightarrow> in_time w' \<longrightarrow> bootstrap_waits aid ?b ?w \<longrightarrow> st = Bootstrapping \<longrightarrow> bootstrap_ok aid b' w'" by blast
    moreover have "worker_ok ?w" using w_cancel_ok [OF w(1)] by blast
    moreover have "steps aid w w'" using s grows_keeps [OF go(2)] by (rule keeps_trans)
    ultimately show ?thesis using Some False by (simp add: bootstrap_recv_response_def Let_def)
  qed
qed

text \<open>The shape of a bootstrap is kept whether or not the timer is in order.\<close>

lemma bootstrap_recv_response_wf:
  assumes b: "bootstrap_wf aid b" and w: "rt_wf (w_table w)"
  shows "\<exists>st b' w'. bootstrap_recv_response E tid b w = Ok (st, b', w') \<and> keeps_tasks (\<lambda>_. False) {} w w' \<and> bootstrap_wf aid b' \<and>
    (bootstrap_ok aid b w \<longrightarrow> worker_ok w \<longrightarrow> steps aid w w' \<and> (in_time w' \<longrightarrow> st = Bootstrapping \<longrightarrow> bootstrap_ok aid b' w'))"
proof -
  have "\<exists>r. bootstrap_recv_response E tid b w = Ok r \<and> keeps_tasks (\<lambda>_. False) {} w (snd (snd r)) \<and> bootstrap_wf aid (fst (snd r))"
  proof (cases "map_of (active_messages b) tid")
    case None
    with b show ?thesis by (simp add: bootstrap_recv_response_def)
  next
    case (Some timeout)
    define b1 where "b1 = (if curr_bootstrap_bucket b \<noteq> 0 then b\<lparr>active_messages := hm_remove tid (active_messages b)\<rparr> else b)"
    define w1 where "w1 = (if curr_bootstrap_bucket b \<noteq> 0 then w_cancel timeout w else w)"
    have k: "keeps_tasks (\<lambda>_. False) {} w w1" by (auto simp: w1_def intro: keeps_cancel)
    have b1: "bootstrap_wf aid b1" using b by (simp add: b1_def bootstrap_wf_def)
    have run: "bootstrap_recv_response E tid b w = bootstrap_go_on E b1 w1"
      by (simp add: bootstrap_recv_response_def Some b1_def w1_def)
    from go_on_ok [OF b1 keeps_table [OF k w], of E] obtain st b' w' where
      "bootstrap_go_on E b1 w1 = Ok (st, b', w')" "grows w1 w'" "bootstrap_wf aid b'" by blast
    with run keeps_trans [OF k grows_keeps] show ?thesis by simp
  qed
  then obtain st b' w' where r: "bootstrap_recv_response E tid b w = Ok (st, b', w')" "keeps_tasks (\<lambda>_. False) {} w w'" "bootstrap_wf aid b'"
    by auto
  moreover have "steps aid w w' \<and> (in_time w' \<longrightarrow> st = Bootstrapping \<longrightarrow> bootstrap_ok aid b' w')"
    if "bootstrap_ok aid b w" "worker_ok w"
    using bootstrap_recv_response_ok [OF that w, of E tid] r(1) by auto
  ultimately show ?thesis by blast
qed

end
