(* ===== verification/Dht_Lookup.thy ===== *)
theory Dht_Lookup
  imports Dht_Worker
begin

text \<open>
  The lookup of the peers of a torrent, \<open>btp-dht/src/worker/lookup.rs\<close>: rounds of \<open>get_peers\<close> requests to
  nodes ever closer to the target, an endgame that asks every node not asked yet, and the announce.
\<close>

section \<open>Sorted lists of nodes\<close>

text \<open>
  The binary search of the standard library: \<open>Ok\<close> with the position of an equal element, or \<open>Err\<close> with the
  position where one could be inserted.
\<close>

datatype Ordering = OrdLess | OrdEqual | OrdGreater

definition ord_cmp :: "'a::linorder \<Rightarrow> 'a \<Rightarrow> Ordering" where
  "ord_cmp a b = (if a < b then OrdLess else if a = b then OrdEqual else OrdGreater)"

function binary_search_loop :: "('a \<Rightarrow> Ordering) \<Rightarrow> 'a list \<Rightarrow> nat \<Rightarrow> nat \<Rightarrow> (nat, nat) outcome" where
  "binary_search_loop f xs left right =
     (if left < right then
        let mid = left + (right - left) div 2
        in case f (xs ! mid) of
             OrdLess \<Rightarrow> binary_search_loop f xs (mid + 1) right
           | OrdGreater \<Rightarrow> binary_search_loop f xs left mid
           | OrdEqual \<Rightarrow> Ok mid
      else Err left)"
  by pat_completeness auto
termination
  by (relation "measure (\<lambda>(f, xs, left, right). right - left)") auto

declare binary_search_loop.simps [simp del]

definition binary_search_by :: "('a \<Rightarrow> Ordering) \<Rightarrow> 'a list \<Rightarrow> (nat, nat) outcome" where
  "binary_search_by f xs = binary_search_loop f xs 0 (length xs)"

definition vec_insert_at :: "nat \<Rightarrow> 'a \<Rightarrow> 'a list \<Rightarrow> 'a list" where
  "vec_insert_at i x xs = take i xs @ x # drop i xs"

type_synonym sorted_nodes = "(ShaHash \<times> NodeHandle \<times> bool) list"

definition insert_sorted_node :: "sorted_nodes \<Rightarrow> ShaHash \<Rightarrow> NodeHandle \<Rightarrow> bool \<Rightarrow> sorted_nodes" where
  "insert_sorted_node ns target node pinged =
     (let node_dist = sha_bitxor target (h_id node)
      in case binary_search_by (\<lambda>(dist, _, _). ord_cmp dist node_dist) ns of
           Ok dup_index \<Rightarrow>
             if fst (snd (ns ! dup_index)) \<noteq> node then vec_insert_at dup_index (node_dist, node, pinged) ns else ns
         | Err ins_index \<Rightarrow> vec_insert_at ins_index (node_dist, node, pinged) ns
         | Panic \<Rightarrow> ns)"

section \<open>Picking nodes\<close>

definition INITIAL_PICK_NUM :: nat where "INITIAL_PICK_NUM = 4"
definition ITERATIVE_PICK_NUM :: nat where "ITERATIVE_PICK_NUM = 3"
definition ANNOUNCE_PICK_NUM :: nat where "ANNOUNCE_PICK_NUM = 8"

definition default_pick :: "NodeHandle \<times> bool" where
  "default_pick =
     (\<lparr>h_id = replicate NODE_ID_LEN 0, h_addr = SockV4 \<lparr>v4_ip = Ipv4Addr 0 0 0 0, v4_port = 0\<rparr>\<rparr>, False)"

fun pick_loop :: "sorted_nodes \<Rightarrow> (NodeHandle \<times> bool) list \<Rightarrow> sorted_nodes \<times> (NodeHandle \<times> bool) list" where
  "pick_loop ((dist, node, req) # srcs) (dst # dsts) =
     (let (srcs, dsts) = pick_loop srcs dsts in ((dist, node, True) # srcs, (node, True) # dsts))"
| "pick_loop srcs dsts = (srcs, dsts)"

definition pick_initial_nodes :: "sorted_nodes \<Rightarrow> sorted_nodes \<times> (NodeHandle \<times> bool) list" where
  "pick_initial_nodes ns = pick_loop ns (replicate INITIAL_PICK_NUM default_pick)"

fun insert_closest_nodes :: "(NodeHandle \<times> bool) list \<Rightarrow> ShaHash \<Rightarrow> NodeHandle \<Rightarrow> (NodeHandle \<times> bool) list" where
  "insert_closest_nodes [] target_id new_node = []"
| "insert_closest_nodes ((old_node, used) # rest) target_id new_node =
     (if \<not> used then (new_node, True) # rest
      else if sha_bitxor target_id (h_id new_node) < sha_bitxor target_id (h_id old_node) then (new_node, used) # rest
      else (old_node, used) # insert_closest_nodes rest target_id new_node)"

definition pick_iterate_nodes :: "NodeHandle list \<Rightarrow> ShaHash \<Rightarrow> (NodeHandle \<times> bool) list" where
  "pick_iterate_nodes unsorted_nodes target_id =
     foldl (\<lambda>picks node. insert_closest_nodes picks target_id node) (replicate ITERATIVE_PICK_NUM default_pick)
       unsorted_nodes"

section \<open>The lookup\<close>

definition LOOKUP_TIMEOUT_MS :: duration where "LOOKUP_TIMEOUT_MS = from_millis 1500"
definition ENDGAME_TIMEOUT_MS :: duration where "ENDGAME_TIMEOUT_MS = from_millis 1500"

datatype LookupStatus = Searching | LookupCompleted | LookupFailed | AnnounceFailed

record TableLookup =
  tl_table_id :: ShaHash
  target_id :: ShaHash
  in_endgame :: bool
  recv_values :: bool
  tl_id_generator :: MIDGenerator
  will_announce :: bool
  active_lookups :: "(TransactionID \<times> ShaHash \<times> Timeout) list"
  announce_tokens :: "NodeHandle \<Rightarrow> bytes option"
  requested_nodes :: "NodeHandle set"
  all_sorted_nodes :: sorted_nodes
  tl_tx :: "nat option"

definition current_lookup_status :: "TableLookup \<Rightarrow> LookupStatus" where
  "current_lookup_status l = (if in_endgame l \<or> active_lookups l \<noteq> [] then Searching else LookupCompleted)"

definition get_peers_msg :: "TransactionID \<Rightarrow> TableLookup \<Rightarrow> bytes" where
  "get_peers_msg tid l = get_peers_encode
     \<lparr>gp_trans_id = trans_id_bytes tid, gp_node_id = tl_table_id l, gp_info_hash = target_id l\<rparr>"

text \<open>The loop of \<open>start_request_round\<close>: the number of messages sent, or \<open>None\<close> when the channel is closed.\<close>

fun request_loop ::
    "Env \<Rightarrow> (NodeHandle \<times> ShaHash) list \<Rightarrow> nat \<Rightarrow> TableLookup \<Rightarrow> Worker \<Rightarrow> nat option \<times> TableLookup \<times> Worker" where
  "request_loop E [] messages_sent l w = (Some messages_sent, l, w)"
| "request_loop E ((node, dist_to_beat) # rest) messages_sent l w =
     (let (tid, g, w) = w_generate E (tl_id_generator l) w;
          (timeout, w) = w_schedule E LOOKUP_TIMEOUT_MS (CheckLookupTimeout tid) w;
          l = l\<lparr>tl_id_generator := g, active_lookups := hm_insert tid (dist_to_beat, timeout) (active_lookups l)\<rparr>;
          (sent, w) = w_send E (get_peers_msg tid l, h_addr node) w
      in if \<not> sent then (None, l, w)
         else request_loop E rest (messages_sent + 1)
                (l\<lparr>requested_nodes := insert node (requested_nodes l)\<rparr>) (w_local_request E node w))"

definition start_request_round ::
    "Env \<Rightarrow> (NodeHandle \<times> ShaHash) list \<Rightarrow> TableLookup \<Rightarrow> Worker \<Rightarrow> LookupStatus \<times> TableLookup \<times> Worker" where
  "start_request_round E ns l w =
     (case request_loop E ns 0 l w of
        (None, l, w) \<Rightarrow> (LookupFailed, l, w)
      | (Some messages_sent, l, w) \<Rightarrow>
          if messages_sent = 0 then (LookupCompleted, l\<lparr>active_lookups := []\<rparr>, w) else (Searching, l, w))"

text \<open>The loop of \<open>start_endgame_round\<close> over \<open>all_sorted_nodes\<close>, which marks the nodes it asks.\<close>

fun endgame_loop ::
    "Env \<Rightarrow> Timeout \<Rightarrow> sorted_nodes \<Rightarrow> TableLookup \<Rightarrow> Worker \<Rightarrow> bool \<times> sorted_nodes \<times> TableLookup \<times> Worker" where
  "endgame_loop E timeout [] l w = (True, [], l, w)"
| "endgame_loop E timeout ((node_dist, node, req) # rest) l w =
     (if req then
        let (ok, ns, l, w) = endgame_loop E timeout rest l w in (ok, (node_dist, node, req) # ns, l, w)
      else
        let (tid, g, w) = w_generate E (tl_id_generator l) w;
            l = l\<lparr>tl_id_generator := g, active_lookups := hm_insert tid (node_dist, timeout) (active_lookups l)\<rparr>;
            (sent, w) = w_send E (get_peers_msg tid l, h_addr node) w
        in if \<not> sent then (False, (node_dist, node, req) # rest, l, w)
           else let (ok, ns, l, w) = endgame_loop E timeout rest l (w_local_request E node w)
                in (ok, (node_dist, node, True) # ns, l, w))"

definition start_endgame_round :: "Env \<Rightarrow> TableLookup \<Rightarrow> Worker \<Rightarrow> LookupStatus \<times> TableLookup \<times> Worker" where
  "start_endgame_round E l w =
     (let l = l\<lparr>in_endgame := True\<rparr>;
          (tid, g, w) = w_generate E (tl_id_generator l) w;
          l = l\<lparr>tl_id_generator := g\<rparr>;
          (timeout, w) = w_schedule E ENDGAME_TIMEOUT_MS (CheckLookupEndGame tid) w
      in if \<not> recv_values l then
           let (ok, ns, l, w) = endgame_loop E timeout (all_sorted_nodes l) l w;
               l = l\<lparr>all_sorted_nodes := ns\<rparr>
           in if \<not> ok then (LookupFailed, l, w) else (Searching, l, w)
         else (LookupCompleted, l, w))"

definition table_lookup_new ::
    "Env \<Rightarrow> ShaHash \<Rightarrow> ShaHash \<Rightarrow> MIDGenerator \<Rightarrow> bool \<Rightarrow> nat option \<Rightarrow> Worker \<Rightarrow> TableLookup option \<times> Worker" where
  "table_lookup_new E table_id target g announce tx w =
     (let now = w_now E w;
          closest = take MAX_BUCKET_SIZE (filter (\<lambda>n. status now n = Good) (closest_nodes now (w_table w) target));
          sorted = foldl (\<lambda>ns node. insert_sorted_node ns target (handle node) False) [] closest;
          (sorted, picks) = pick_initial_nodes sorted;
          filtered = map (\<lambda>(node, _). (node, sha_bitxor (h_id node) target)) (filter (\<lambda>(_, good). good) picks);
          l = \<lparr>tl_table_id = table_id, target_id = target, in_endgame = False, recv_values = False,
               tl_id_generator = g, will_announce = announce, active_lookups = [], announce_tokens = (\<lambda>_. None),
               requested_nodes = {}, all_sorted_nodes = sorted, tl_tx = tx\<rparr>
      in case start_request_round E filtered l (tick w) of
           (Searching, l, w) \<Rightarrow> (Some l, w)
         | (_, l, w) \<Rightarrow> (None, w))"

text \<open>The nodes of a response that were not asked yet, and the distance the closest of them sets.\<close>

definition closest_distance :: "ShaHash \<Rightarrow> ShaHash \<Rightarrow> NodeHandle list \<Rightarrow> ShaHash" where
  "closest_distance target dist_to_beat nodehandles =
     foldl (\<lambda>closest node. let distance = sha_bitxor target (h_id node) in if distance < closest then distance else closest)
       dist_to_beat nodehandles"

text \<open>
  The part of \<open>recv_response\<close> that takes in the nodes of a response: the new state, the picked nodes when the
  response came closer, and the next distance to beat.
\<close>

definition take_in_nodes ::
    "(ShaHash \<times> SocketAddrV4) list \<Rightarrow> ShaHash \<Rightarrow> TableLookup \<Rightarrow>
     TableLookup \<times> (NodeHandle \<times> bool) list option \<times> ShaHash" where
  "take_in_nodes ns dist_to_beat l =
     (let nodehandles = filter (\<lambda>h. h \<notin> requested_nodes l) (map (\<lambda>(i, addr). \<lparr>h_id = i, h_addr = SockV4 addr\<rparr>) ns)
      in if nodehandles = [] then (l, None, dist_to_beat)
         else let node_dist_to_beat = closest_distance (target_id l) dist_to_beat nodehandles
              in if node_dist_to_beat \<ge> dist_to_beat then
                   (l\<lparr>all_sorted_nodes := foldl (\<lambda>s h. insert_sorted_node s (target_id l) h False)
                        (all_sorted_nodes l) nodehandles\<rparr>, None, dist_to_beat)
                 else
                   let iterate_nodes = pick_iterate_nodes nodehandles (target_id l)
                   in (l\<lparr>all_sorted_nodes := foldl (\<lambda>s h. insert_sorted_node s (target_id l) h
                          (list_ex (\<lambda>(n, _). n = h) iterate_nodes)) (all_sorted_nodes l) nodehandles\<rparr>,
                       Some iterate_nodes, node_dist_to_beat))"

text \<open>The part of \<open>recv_response\<close> that goes on with the search.\<close>

definition iterate_search ::
    "Env \<Rightarrow> (NodeHandle \<times> bool) list option \<Rightarrow> ShaHash \<Rightarrow> TableLookup \<Rightarrow> Worker \<Rightarrow> bool \<times> TableLookup \<times> Worker" where
  "iterate_search E send_iterate_nodes next_dist_to_beat l w =
     (if in_endgame l then (True, l, w)
      else let (st, l, w) = (case send_iterate_nodes of
                 Some ns \<Rightarrow> start_request_round E
                   (map (\<lambda>(n, _). (n, next_dist_to_beat)) (filter (\<lambda>(_, good). good) ns)) l w
               | None \<Rightarrow> (Searching, l, w))
           in if st = LookupFailed then (False, l, w)
              else if active_lookups l = [] then
                let (st, l, w) = start_endgame_round E l w in (st \<noteq> LookupFailed, l, w)
              else (True, l, w))"

definition send_peers :: "nat option \<Rightarrow> SocketAddrV4 list \<Rightarrow> Worker \<Rightarrow> Worker" where
  "send_peers tx values w =
     (case tx of
        Some send \<Rightarrow> w\<lparr>w_peers := w_peers w @ map (\<lambda>v4_addr. (send, SockV4 v4_addr)) values\<rparr>
      | None \<Rightarrow> w)"

definition lookup_take_response ::
    "Env \<Rightarrow> CompactInfoType \<Rightarrow> ShaHash \<Rightarrow> TableLookup \<Rightarrow> Worker \<Rightarrow> (unit, LookupStatus \<times> TableLookup \<times> Worker) outcome" where
  "lookup_take_response E info_type dist_to_beat l w =
     try_bind (case info_type of
         InfoNodes n \<Rightarrow> Ok (l, None, Some n)
       | InfoValues v \<Rightarrow> try_bind (compact_values_list v) (\<lambda>vs. Ok (l\<lparr>recv_values := True\<rparr>, Some vs, None))
       | InfoBoth n v \<Rightarrow> try_bind (compact_values_list v) (\<lambda>vs. Ok (l, Some vs, Some n)))
     (\<lambda>(l, opt_values, opt_nodes).
     try_bind (case opt_nodes of
         Some info \<Rightarrow> try_bind (compact_nodes_list info) (\<lambda>ns. Ok (take_in_nodes ns dist_to_beat l))
       | None \<Rightarrow> Ok (l, None, dist_to_beat))
     (\<lambda>(l, send_iterate_nodes, next_dist_to_beat).
     let (ok, l, w) = iterate_search E send_iterate_nodes next_dist_to_beat l w
     in if \<not> ok then Ok (LookupFailed, l, w)
        else let w = (case opt_values of Some values \<Rightarrow> send_peers (tl_tx l) values w | None \<Rightarrow> w)
             in Ok (current_lookup_status l, l, w)))"

definition lookup_recv_response ::
    "Env \<Rightarrow> Node \<Rightarrow> TransactionID \<Rightarrow> GetPeersResponse \<Rightarrow> TableLookup \<Rightarrow> Worker \<Rightarrow>
     (unit, LookupStatus \<times> TableLookup \<times> Worker) outcome" where
  "lookup_recv_response E node tid msg l w =
     (case map_of (active_lookups l) tid of
        None \<Rightarrow> Ok (current_lookup_status l, l, w)
      | Some (dist_to_beat, timeout) \<Rightarrow>
          let l = l\<lparr>active_lookups := hm_remove tid (active_lookups l)\<rparr>;
              w = (if \<not> in_endgame l then w_cancel timeout w else w);
              l = (case gpr_token msg of
                     Some token \<Rightarrow> l\<lparr>announce_tokens := (announce_tokens l)(handle node \<mapsto> token)\<rparr>
                   | None \<Rightarrow> l)
          in lookup_take_response E (gpr_info_type msg) dist_to_beat l w)"

definition lookup_recv_timeout ::
    "Env \<Rightarrow> TransactionID \<Rightarrow> TableLookup \<Rightarrow> Worker \<Rightarrow> LookupStatus \<times> TableLookup \<times> Worker" where
  "lookup_recv_timeout E tid l w =
     (if map_of (active_lookups l) tid = None then (current_lookup_status l, l, w)
      else let l = l\<lparr>active_lookups := hm_remove tid (active_lookups l)\<rparr>
           in if \<not> in_endgame l \<and> active_lookups l = [] then
                let (st, l, w) = start_endgame_round E l w
                in if st = LookupFailed then (LookupFailed, l, w) else (current_lookup_status l, l, w)
              else (current_lookup_status l, l, w))"

text \<open>The announces of \<open>recv_finished\<close>, to nodes with their tokens.\<close>

fun announce_loop ::
    "Env \<Rightarrow> u16 \<Rightarrow> (NodeHandle \<times> bytes) list \<Rightarrow> TableLookup \<Rightarrow> Worker \<Rightarrow> bool \<times> TableLookup \<times> Worker" where
  "announce_loop E port [] l w = (False, l, w)"
| "announce_loop E port ((node, token) # rest) l w =
     (let (tid, g, w) = w_generate E (tl_id_generator l) w;
          l = l\<lparr>tl_id_generator := g\<rparr>;
          announce_peer_msg = announce_peer_encode
            \<lparr>ap_trans_id = trans_id_bytes tid, ap_node_id = tl_table_id l, ap_info_hash = target_id l,
             ap_token = token, ap_port = Explicit port\<rparr>;
          (sent, w) = w_send E (announce_peer_msg, h_addr node) w
      in if \<not> sent then (True, l, w) else announce_loop E port rest l (w_local_request E node w))"

definition announce_targets :: "TableLookup \<Rightarrow> (NodeHandle \<times> bytes) list" where
  "announce_targets l =
     map (\<lambda>(_, node, _). (node, the (announce_tokens l node)))
       (take ANNOUNCE_PICK_NUM (filter (\<lambda>(_, node, _). announce_tokens l node \<noteq> None) (all_sorted_nodes l)))"

definition lookup_recv_finished ::
    "Env \<Rightarrow> u16 option \<Rightarrow> TableLookup \<Rightarrow> Worker \<Rightarrow> LookupStatus \<times> TableLookup \<times> Worker" where
  "lookup_recv_finished E announce_port l w =
     (let (fatal_error, l, w) = (case announce_port of
            Some port \<Rightarrow> if will_announce l then announce_loop E port (announce_targets l) l w else (False, l, w)
          | None \<Rightarrow> (False, l, w))
      in if fatal_error then (AnnounceFailed, l, w) else (LookupCompleted, l, w))"

section \<open>The list of nodes stays sorted\<close>

lemma ord_cmp_cases: "a < b \<Longrightarrow> ord_cmp a b = OrdLess" "ord_cmp b b = OrdEqual" "b < a \<Longrightarrow> ord_cmp a b = OrdGreater"
  by (auto simp: ord_cmp_def)

lemma binary_search_loop_spec:
  fixes d :: "'k::linorder"
  assumes "sorted (map key xs)" and "right \<le> length xs" and "left \<le> right"
    and "\<forall>i<left. key (xs ! i) < d" and "\<forall>i. right \<le> i \<longrightarrow> i < length xs \<longrightarrow> d < key (xs ! i)"
  shows "case binary_search_loop (\<lambda>x. ord_cmp (key x) d) xs left right of
      Ok i \<Rightarrow> i < length xs \<and> key (xs ! i) = d
    | Err i \<Rightarrow> i \<le> length xs \<and> (\<forall>j<i. key (xs ! j) < d) \<and> (\<forall>j. i \<le> j \<longrightarrow> j < length xs \<longrightarrow> d < key (xs ! j))
    | Panic \<Rightarrow> False"
  using assms(2-)
proof (induction "right - left" arbitrary: left right rule: less_induct)
  case less
  show ?case
  proof (cases "left < right")
    case False
    with less.prems show ?thesis by (simp add: binary_search_loop.simps)
  next
    case True
    define mid where "mid = left + (right - left) div 2"
    have mid: "left \<le> mid" "mid < right" using True by (auto simp: mid_def)
    with less.prems(1) have len: "mid < length xs" by simp
    have mono: "key (xs ! i) \<le> key (xs ! j)" if "i \<le> j" "j < length xs" for i j
      using assms(1) that by (auto simp: sorted_iff_nth_mono)
    note step = binary_search_loop.simps [of "\<lambda>x. ord_cmp (key x) d" xs left right, folded mid_def]
    consider (lt) "key (xs ! mid) < d" | (eq) "key (xs ! mid) = d" | (gt) "d < key (xs ! mid)" by (rule linorder_cases)
    then show ?thesis
    proof cases
      case lt
      then have "\<forall>i<mid + 1. key (xs ! i) < d" using mono len by (metis less_Suc_eq_le Suc_eq_plus1 order_le_less_trans)
      moreover have "binary_search_loop (\<lambda>x. ord_cmp (key x) d) xs left right =
        binary_search_loop (\<lambda>x. ord_cmp (key x) d) xs (mid + 1) right"
        using True ord_cmp_cases(1) [OF lt] by (subst step) (simp add: Let_def)
      ultimately show ?thesis using less.hyps [of right "mid + 1"] less.prems mid by simp
    next
      case eq
      then have "binary_search_loop (\<lambda>x. ord_cmp (key x) d) xs left right = Ok mid"
        using True ord_cmp_cases(2) [of d] by (subst step) (simp add: Let_def)
      with eq len show ?thesis by simp
    next
      case gt
      then have "\<forall>i. mid \<le> i \<longrightarrow> i < length xs \<longrightarrow> d < key (xs ! i)" using mono by (meson order_less_le_trans)
      moreover have "binary_search_loop (\<lambda>x. ord_cmp (key x) d) xs left right =
        binary_search_loop (\<lambda>x. ord_cmp (key x) d) xs left mid"
        using True ord_cmp_cases(3) [OF gt] by (subst step) (simp add: Let_def)
      ultimately show ?thesis using less.hyps [of mid left] less.prems mid len by simp
    qed
  qed
qed

definition nodes_sorted :: "ShaHash \<Rightarrow> sorted_nodes \<Rightarrow> bool" where
  "nodes_sorted target ns \<longleftrightarrow> sorted (map fst ns) \<and> (\<forall>(dist, node, req)\<in>set ns. dist = sha_bitxor target (h_id node))"

lemma sorted_insert_at:
  assumes "sorted xs" and "i \<le> length xs" and "\<forall>j<i. xs ! j \<le> x" and "\<forall>j. i \<le> j \<longrightarrow> j < length xs \<longrightarrow> x \<le> xs ! j"
  shows "sorted (take i xs @ x # drop i xs)"
proof -
  have "\<forall>y\<in>set (take i xs). y \<le> x" using assms(2,3) by (auto simp: in_set_conv_nth)
  moreover have "\<forall>y\<in>set (drop i xs). x \<le> y" using assms(2,4) by (auto simp: in_set_conv_nth)
  moreover have "sorted (take i xs @ drop i xs)" using assms(1) by simp
  ultimately show ?thesis using assms(1) by (fastforce simp: sorted_append simp del: append_take_drop_id)
qed

lemma insert_sorted_node_ok:
  assumes "nodes_sorted target ns"
  shows "nodes_sorted target (insert_sorted_node ns target node pinged) \<and>
    (fst \<circ> snd) ` set (insert_sorted_node ns target node pinged) = insert node ((fst \<circ> snd) ` set ns)"
proof -
  let ?d = "sha_bitxor target (h_id node)"
  have f: "(\<lambda>(dist, _, _). ord_cmp dist ?d) = (\<lambda>x. ord_cmp (fst x) ?d)" for ns :: sorted_nodes by auto
  have s: "sorted (map fst ns)" using assms by (simp add: nodes_sorted_def)
  note spec = binary_search_loop_spec [where key = fst and d = ?d, OF s order_refl le0, simplified]
  have ins: "set (vec_insert_at i x ns) = insert x (set ns)" for i x
    using append_take_drop_id [of i ns] by (metis Un_insert_right list.simps(15) set_append vec_insert_at_def)
  have "nodes_sorted target (vec_insert_at i (?d, node, pinged) ns)"
    if "i \<le> length ns" "\<forall>j<i. fst (ns ! j) \<le> ?d" "\<forall>j. i \<le> j \<longrightarrow> j < length ns \<longrightarrow> ?d \<le> fst (ns ! j)" for i
    using assms ins [of i "(?d, node, pinged)"] sorted_insert_at [OF s, of i ?d] that
    by (auto simp: nodes_sorted_def vec_insert_at_def take_map drop_map)
  note sorted_insert = this
  show ?thesis
  proof (cases "binary_search_by (\<lambda>(dist, _, _). ord_cmp dist ?d) ns")
    case (Ok i)
    with spec have i: "i < length ns" "fst (ns ! i) = ?d" by (auto simp: binary_search_by_def f)
    show ?thesis
    proof (cases "fst (snd (ns ! i)) = node")
      case True
      with i have "node \<in> (fst \<circ> snd) ` set ns" by force
      with True Ok assms show ?thesis by (auto simp: insert_sorted_node_def)
    next
      case False
      have mono: "\<forall>j<i. fst (ns ! j) \<le> ?d" "\<forall>j. i \<le> j \<longrightarrow> j < length ns \<longrightarrow> ?d \<le> fst (ns ! j)"
        unfolding i(2) [symmetric] using s i(1) by (auto simp: sorted_iff_nth_mono)
      with False Ok i sorted_insert [of i] ins show ?thesis by (simp add: insert_sorted_node_def)
    qed
  next
    case (Err i)
    with spec have "i \<le> length ns" "\<forall>j<i. fst (ns ! j) < ?d" "\<forall>j. i \<le> j \<longrightarrow> j < length ns \<longrightarrow> ?d < fst (ns ! j)"
      by (auto simp: binary_search_by_def f)
    with Err sorted_insert [of i] ins show ?thesis by (simp add: insert_sorted_node_def less_imp_le)
  next
    case Panic
    with spec show ?thesis by (simp add: binary_search_by_def f)
  qed
qed

lemma insert_all_sorted:
  "nodes_sorted target ns \<Longrightarrow> nodes_sorted target (foldl (\<lambda>s h. insert_sorted_node s target (f h) (p h)) ns hs)"
  by (induction hs arbitrary: ns) (simp_all add: insert_sorted_node_ok)

lemma pick_loop_sorted:
  "pick_loop ns slots = (ns', slots') \<Longrightarrow> map fst ns' = map fst ns \<and> map (fst \<circ> snd) ns' = map (fst \<circ> snd) ns"
  by (induction ns slots arbitrary: ns' slots' rule: pick_loop.induct) (auto simp: Let_def split: prod.splits)

lemma nodes_sorted_cong:
  assumes "map fst ns' = map fst ns" and "map (fst \<circ> snd) ns' = map (fst \<circ> snd) ns" and "nodes_sorted target ns"
  shows "nodes_sorted target ns'"
proof -
  have len: "length ns' = length ns" using assms(1) by (metis length_map)
  have "fst (ns' ! i) = fst (ns ! i)" "fst (snd (ns' ! i)) = fst (snd (ns ! i))" if "i < length ns" for i
    using assms(1,2) len that by (metis nth_map, metis comp_apply nth_map)
  with assms len show ?thesis by (force simp: nodes_sorted_def in_set_conv_nth case_prod_beta)
qed

end
