(* ===== verification/Dht_Handler.thy ===== *)
theory Dht_Handler
  imports Dht_Bootstrap Dht_Lookup Dht_Token Dht_Storage
begin

text \<open>
  The event loop of the DHT, \<open>btp-dht/src/worker/handler.rs\<close> with the types of \<open>worker/mod.rs\<close> and the routers of
  \<open>router.rs\<close>. A handler is one function from the state to the state or a panic. The channels to clients
  are numbers; what was sent on them is recorded in the state.
\<close>

section \<open>Commands, events and routers\<close>

datatype ShutdownCause = BootstrapFailedCause | ClientInitiated | Unspecified

datatype DhtEvent =
    EvBootstrapCompleted
  | EvLookupCompleted ShaHash
  | EvLookupAnFail ShaHash
  | EvShuttingDown ShutdownCause

datatype DhtStatus = DhtInit | DhtBootstrapping | DhtFail | DhtCompleted

record DhtValues =
  dht_id :: ShaHash
  dht_address :: SocketAddr
  dht_status :: DhtStatus
  good_node_count :: nat
  questionable_node_count :: nat
  bucket_count :: nat

datatype Router = UTorrent | BitTorrent | BitComet | Transmission | Custom SocketAddr

definition UTORRENT_DHT :: "bytes \<times> u16" where "UTORRENT_DHT = (ascii ''router.utorrent.com'', 6881)"
definition BITTORRENT_DHT :: "bytes \<times> u16" where "BITTORRENT_DHT = (ascii ''router.bittorrent.com'', 6881)"
definition BITCOMET_DHT :: "bytes \<times> u16" where "BITCOMET_DHT = (ascii ''router.bitcomet.com'', 6881)"
definition TRANSMISSION_DHT :: "bytes \<times> u16" where "TRANSMISSION_DHT = (ascii ''dht.transmissionbt.com'', 6881)"

fun socket_addrs :: "Env \<Rightarrow> nat \<Rightarrow> Router \<Rightarrow> SocketAddr list option" where
  "socket_addrs E t UTorrent = env_resolve E t (fst UTORRENT_DHT) (snd UTORRENT_DHT)"
| "socket_addrs E t BitTorrent = env_resolve E t (fst BITTORRENT_DHT) (snd BITTORRENT_DHT)"
| "socket_addrs E t BitComet = env_resolve E t (fst BITCOMET_DHT) (snd BITCOMET_DHT)"
| "socket_addrs E t Transmission = env_resolve E t (fst TRANSMISSION_DHT) (snd TRANSMISSION_DHT)"
| "socket_addrs E t (Custom addr) = Some [addr]"

fun map_ipv4 :: "SocketAddr \<Rightarrow> SocketAddrV4 option" where
  "map_ipv4 (SockV4 n) = Some n"
| "map_ipv4 (SockV6 _) = None"

definition router_ipv4_addr :: "Env \<Rightarrow> nat \<Rightarrow> Router \<Rightarrow> SocketAddrV4 option" where
  "router_ipv4_addr E t r =
     Option.bind (socket_addrs E t r) (\<lambda>addrs.
       case List.map_filter map_ipv4 addrs of [] \<Rightarrow> None | a # _ \<Rightarrow> Some a)"

datatype OneshotTask =
    RegisterSender nat
  | GetBootstrapStatus nat
  | GetDhtValues nat
  | StartBootstrap "Router list" "SocketAddr list"
  | StartLookup ShaHash bool "nat option"
  | SelfLookup
  | Shutdown ShutdownCause

section \<open>The state\<close>

definition MAX_BOOTSTRAP_ATTEMPTS :: nat where "MAX_BOOTSTRAP_ATTEMPTS = 3"
definition BOOTSTRAP_GOOD_NODE_THRESHOLD :: nat where "BOOTSTRAP_GOOD_NODE_THRESHOLD = 10"

datatype TableAction = ActLookup TableLookup | ActRefresh TableRefresh | ActBootstrap TableBootstrap nat

datatype PostBootstrapAction = PostLookup ShaHash bool "nat option" | PostRefresh TableRefresh TransactionID

record DhtHandler =
  dh_status :: DhtStatus
  status_tx :: "nat list"
  table_actions :: "u64 \<Rightarrow> TableAction option"
  dh_worker :: Worker
  read_only :: bool
  dh_local_addr :: SocketAddr
  announce_port :: "u16 option"
  token_store :: TokenStore
  aid_generator :: AIDGenerator
  active_stores :: AnnounceStorage
  future_actions :: "PostBootstrapAction list"
  event_notifiers :: "nat list"
  dh_events :: "(nat \<times> DhtEvent) list"
  dh_statuses :: "(nat \<times> bool) list"
  dh_values :: "(nat \<times> DhtValues) list"

abbreviation dh_ticks :: "DhtHandler \<Rightarrow> nat" where
  "dh_ticks h \<equiv> w_ticks (dh_worker h)"

abbreviation dh_table :: "DhtHandler \<Rightarrow> RoutingTable" where
  "dh_table h \<equiv> w_table (dh_worker h)"

definition dh_tick :: "DhtHandler \<Rightarrow> DhtHandler" where
  "dh_tick h = h\<lparr>dh_worker := tick (dh_worker h)\<rparr>"

definition dh_now :: "Env \<Rightarrow> DhtHandler \<Rightarrow> instant" where
  "dh_now E h = w_now E (dh_worker h)"

definition set_action :: "u64 \<Rightarrow> TableAction option \<Rightarrow> DhtHandler \<Rightarrow> DhtHandler" where
  "set_action aid act h = h\<lparr>table_actions := (table_actions h)(aid := act)\<rparr>"

type_synonym handled = "(unit, DhtHandler) outcome"

text \<open>\<open>DhtHandler::new\<close> before the event loop starts; the timer is empty.\<close>

definition dht_handler_new :: "Env \<Rightarrow> RoutingTable \<Rightarrow> SocketAddr \<Rightarrow> bool \<Rightarrow> u16 option \<Rightarrow> DhtHandler" where
  "dht_handler_new E table addr ro port =
     (let aid_gen = aid_generator_new (env_rnd E 0);
          (mid_gen, aid_gen) = aid_generate (env_rnd E 1) aid_gen;
          (refresh_trans_id, mid_gen) = mid_generate (env_rnd E 2) mid_gen;
          table_refresh = table_refresh_new mid_gen
      in \<lparr>dh_status = DhtInit, status_tx = [], table_actions = (\<lambda>_. None),
          dh_worker = \<lparr>w_table = table, w_timer = timer_new, w_sent = [], w_peers = [], w_ticks = 5\<rparr>,
          read_only = ro, dh_local_addr = addr, announce_port = port,
          token_store = token_store_new (env_utc E 3) (env_secret E 4), aid_generator = aid_gen,
          active_stores = announce_storage_new,
          future_actions = [PostLookup (rt_node_id table) False None, PostRefresh table_refresh refresh_trans_id],
          event_notifiers = [], dh_events = [], dh_statuses = [], dh_values = []\<rparr>)"

section \<open>Notifications and shutdown\<close>

fun notify_loop :: "Env \<Rightarrow> DhtEvent \<Rightarrow> nat list \<Rightarrow> DhtHandler \<Rightarrow> nat list \<times> DhtHandler" where
  "notify_loop E event [] h = ([], h)"
| "notify_loop E event (send # rest) h =
     (if env_takes E (EventChannel send) (dh_ticks h) then
        let (kept, h) = notify_loop E event rest (dh_tick (h\<lparr>dh_events := dh_events h @ [(send, event)]\<rparr>))
        in (send # kept, h)
      else notify_loop E event rest (dh_tick h))"

definition broadcast_dht_event :: "Env \<Rightarrow> DhtEvent \<Rightarrow> DhtHandler \<Rightarrow> DhtHandler" where
  "broadcast_dht_event E event h =
     (let (kept, h) = notify_loop E event (event_notifiers h) h in h\<lparr>event_notifiers := kept\<rparr>)"

definition send_status :: "Env \<Rightarrow> bool \<Rightarrow> nat \<Rightarrow> DhtHandler \<Rightarrow> handled" where
  "send_status E v tx h =
     (if env_takes E (StatusChannel tx) (dh_ticks h)
      then Ok (dh_tick (h\<lparr>dh_statuses := dh_statuses h @ [(tx, v)]\<rparr>)) else Panic)"

fun status_loop :: "Env \<Rightarrow> bool \<Rightarrow> nat list \<Rightarrow> DhtHandler \<Rightarrow> handled" where
  "status_loop E v [] h = Ok (h\<lparr>status_tx := []\<rparr>)"
| "status_loop E v (tx # rest) h = try_bind (send_status E v tx h) (\<lambda>h. status_loop E v rest h)"

definition shutdown :: "DhtHandler \<Rightarrow> DhtHandler" where
  "shutdown h = h\<lparr>dh_status := DhtFail\<rparr>"

definition handle_command_shutdown :: "Env \<Rightarrow> ShutdownCause \<Rightarrow> DhtHandler \<Rightarrow> handled" where
  "handle_command_shutdown E cause h =
     try_bind (status_loop E False (status_tx h) h) (\<lambda>h.
       Ok (shutdown (broadcast_dht_event E (EvShuttingDown cause) h)))"

definition handle_register_sender :: "nat \<Rightarrow> DhtHandler \<Rightarrow> DhtHandler" where
  "handle_register_sender sender h = h\<lparr>event_notifiers := event_notifiers h @ [sender]\<rparr>"

definition handle_get_bootstarpped :: "Env \<Rightarrow> nat \<Rightarrow> DhtHandler \<Rightarrow> handled" where
  "handle_get_bootstarpped E tx h =
     (case dh_status h of
        DhtFail \<Rightarrow> send_status E False tx h
      | DhtCompleted \<Rightarrow> send_status E True tx h
      | _ \<Rightarrow> Ok (h\<lparr>status_tx := status_tx h @ [tx]\<rparr>))"

definition handle_get_dht_values :: "Env \<Rightarrow> nat \<Rightarrow> DhtHandler \<Rightarrow> handled" where
  "handle_get_dht_values E tx h =
     (let vs = \<lparr>dht_id = rt_node_id (dh_table h), dht_address = dh_local_addr h, dht_status = dh_status h,
                good_node_count = num_good_nodes (dh_now E h) (dh_table h),
                questionable_node_count = num_questionable_nodes (dh_now E h) (dh_table h),
                bucket_count = length (buckets (dh_table h))\<rparr>
      in if env_takes E (ValuesChannel tx) (dh_ticks h)
         then Ok (dh_tick (h\<lparr>dh_values := dh_values h @ [(tx, vs)]\<rparr>)) else Panic)"

section \<open>Starting lookups and refreshes\<close>

definition dh_generate :: "Env \<Rightarrow> DhtHandler \<Rightarrow> MIDGenerator \<times> DhtHandler" where
  "dh_generate E h =
     (let (mid_gen, aid_gen) = aid_generate (env_rnd E (dh_ticks h)) (aid_generator h)
      in (mid_gen, dh_tick (h\<lparr>aid_generator := aid_gen\<rparr>)))"

definition handle_start_lookup :: "Env \<Rightarrow> ShaHash \<Rightarrow> bool \<Rightarrow> nat option \<Rightarrow> DhtHandler \<Rightarrow> handled" where
  "handle_start_lookup E info_hash should_announce tx h =
     (let (mid_gen, h) = dh_generate E h;
          aid = mid_generator_action_id mid_gen
      in if dh_status h \<noteq> DhtCompleted then
           Ok (h\<lparr>future_actions := future_actions h @ [PostLookup info_hash should_announce tx]\<rparr>)
         else
           case table_lookup_new E (rt_node_id (dh_table h)) info_hash mid_gen should_announce tx (dh_worker h) of
             (Some lookup, w) \<Rightarrow> Ok (set_action aid (Some (ActLookup lookup)) (h\<lparr>dh_worker := w\<rparr>))
           | (None, w) \<Rightarrow> handle_command_shutdown E Unspecified (h\<lparr>dh_worker := w\<rparr>))"

definition handle_check_table_refresh :: "Env \<Rightarrow> TransactionID \<Rightarrow> DhtHandler \<Rightarrow> handled" where
  "handle_check_table_refresh E tid h =
     (case table_actions h (action_id tid) of
        Some (ActRefresh refresh) \<Rightarrow>
          try_bind (continue_refresh E refresh (dh_worker h)) (\<lambda>(st, refresh, w).
            let h = set_action (action_id tid) (Some (ActRefresh refresh)) (h\<lparr>dh_worker := w\<rparr>)
            in if st = RefreshFailed then handle_command_shutdown E Unspecified h else Ok h)
      | _ \<Rightarrow> Ok h)"

section \<open>Bootstrapping\<close>

definition handle_start_bootstrap :: "Env \<Rightarrow> Router list \<Rightarrow> SocketAddr list \<Rightarrow> DhtHandler \<Rightarrow> handled" where
  "handle_start_bootstrap E routers ns h =
     (let (mid_gen, h) = dh_generate E h;
          aid = mid_generator_action_id mid_gen;
          router_addrs = map SockV4 (List.map_filter (router_ipv4_addr E (dh_ticks h)) routers);
          h = dh_tick h;
          b = table_bootstrap_new (rt_node_id (dh_table h)) mid_gen ns router_addrs;
          h = (if dh_status h \<noteq> DhtCompleted then h\<lparr>dh_status := DhtBootstrapping\<rparr> else h);
          (st, b, w) = start_bootstrap E b (dh_worker h);
          h = h\<lparr>dh_worker := w\<rparr>
      in if st = BootstrapFailed then handle_command_shutdown E Unspecified h
         else Ok (set_action aid (Some (ActBootstrap b 0)) h))"

text \<open>The handler counts the good nodes with the iterator over the closest nodes.\<close>

definition dh_num_good_nodes :: "Env \<Rightarrow> DhtHandler \<Rightarrow> nat" where
  "dh_num_good_nodes E h =
     (let now = dh_now E h; table = dh_table h
      in length (filter (\<lambda>n. status now n = Good) (closest_nodes now table (rt_node_id table))))"

definition nood_to_less :: "Env \<Rightarrow> DhtHandler \<Rightarrow> bool" where
  "nood_to_less E h \<longleftrightarrow> dh_num_good_nodes E h \<le> BOOTSTRAP_GOOD_NODE_THRESHOLD"

text \<open>\<open>None\<close> when the DHT shuts down, \<open>Some True\<close> when the bootstrap counts as completed, \<open>Some False\<close> when it was restarted.\<close>

definition attempt_rebootstrap ::
    "Env \<Rightarrow> TableBootstrap \<Rightarrow> nat \<Rightarrow> TransactionID \<Rightarrow> DhtHandler \<Rightarrow> (unit, bool option \<times> DhtHandler) outcome" where
  "attempt_rebootstrap E b attempts tid h =
     (let attempts = attempts + 1
      in if attempts \<ge> MAX_BOOTSTRAP_ATTEMPTS then
           if dh_num_good_nodes E h = 0 then
             try_bind (handle_command_shutdown E BootstrapFailedCause (dh_tick h)) (\<lambda>h. Ok (None, h))
           else Ok (Some True, dh_tick h)
         else
           let (st, b, w) = start_bootstrap E b (dh_worker h);
               h = set_action (action_id tid) (Some (ActBootstrap b attempts)) (h\<lparr>dh_worker := w\<rparr>)
           in if st = BootstrapFailed
              then try_bind (handle_command_shutdown E Unspecified h) (\<lambda>h. Ok (None, h))
              else Ok (Some False, h))"

fun post_loop :: "Env \<Rightarrow> PostBootstrapAction list \<Rightarrow> DhtHandler \<Rightarrow> handled" where
  "post_loop E [] h = Ok h"
| "post_loop E (PostLookup info_hash should_announce tx # rest) h =
     try_bind (handle_start_lookup E info_hash should_announce tx h) (\<lambda>h. post_loop E rest h)"
| "post_loop E (PostRefresh refresh tid # rest) h =
     try_bind (handle_check_table_refresh E tid (set_action (action_id tid) (Some (ActRefresh refresh)) h))
       (\<lambda>h. post_loop E rest h)"

definition broadcast_bootstrap_completed :: "Env \<Rightarrow> u64 \<Rightarrow> DhtHandler \<Rightarrow> handled" where
  "broadcast_bootstrap_completed E aid h =
     (let h = h\<lparr>dh_status := DhtCompleted\<rparr>
      in try_bind (status_loop E True (status_tx h) h) (\<lambda>h.
         let h = broadcast_dht_event E EvBootstrapCompleted h;
             h = set_action aid None h;
             actions = future_actions h
         in post_loop E actions (h\<lparr>future_actions := []\<rparr>)))"

text \<open>What both callers of the bootstrap do with the status it reports.\<close>

definition bootstrap_report :: "Env \<Rightarrow> BootstrapStatus \<Rightarrow> TransactionID \<Rightarrow> DhtHandler \<Rightarrow> handled" where
  "bootstrap_report E st tid h =
     (case st of
        Bootstrapping \<Rightarrow> Ok h
      | BootstrapFailed \<Rightarrow> handle_command_shutdown E Unspecified h
      | BootstrapCompleted \<Rightarrow>
          let less = nood_to_less E h;
              h = dh_tick h
          in if \<not> less then broadcast_bootstrap_completed E (action_id tid) h
             else
               let act = table_actions h (action_id tid);
                   h = set_action (action_id tid) None h
               in case act of
                    Some (ActBootstrap b attempts) \<Rightarrow>
                      try_bind (attempt_rebootstrap E b attempts tid h) (\<lambda>(r, h).
                        if r = Some True then broadcast_bootstrap_completed E (action_id tid) h else Ok h)
                  | _ \<Rightarrow> Ok h)"

section \<open>Commands\<close>

definition handle_command :: "Env \<Rightarrow> OneshotTask \<Rightarrow> DhtHandler \<Rightarrow> handled" where
  "handle_command E command h =
     (case command of
        Shutdown cause \<Rightarrow> handle_command_shutdown E cause h
      | RegisterSender send \<Rightarrow> Ok (handle_register_sender send h)
      | GetBootstrapStatus tx \<Rightarrow> handle_get_bootstarpped E tx h
      | GetDhtValues tx \<Rightarrow> handle_get_dht_values E tx h
      | StartBootstrap routers ns \<Rightarrow> handle_start_bootstrap E routers ns h
      | StartLookup info_hash should_announce tx \<Rightarrow> handle_start_lookup E info_hash should_announce tx h
      | SelfLookup \<Rightarrow> handle_start_lookup E (rt_node_id (dh_table h)) False None h)"

section \<open>Requests\<close>

definition dh_remote_request :: "Env \<Rightarrow> ShaHash \<Rightarrow> SocketAddr \<Rightarrow> DhtHandler \<Rightarrow> DhtHandler" where
  "dh_remote_request E nid addr h =
     (let now = dh_now E h; node = as_good now nid addr
      in dh_tick (h\<lparr>dh_worker := (dh_worker h)\<lparr>w_table :=
           with_node_mut now (handle node) (remote_request now) (dh_table h)\<rparr>\<rparr>))"

text \<open>Every request ends with a response on the out channel; a closed channel shuts the DHT down.\<close>

definition respond :: "Env \<Rightarrow> bytes \<Rightarrow> SocketAddr \<Rightarrow> DhtHandler \<Rightarrow> handled" where
  "respond E msg addr h =
     (let (sent, w) = w_send E (msg, addr) (dh_worker h);
          h = h\<lparr>dh_worker := w\<rparr>
      in if \<not> sent then handle_command_shutdown E Unspecified h else Ok h)"

fun encode_nodes :: "Node list \<Rightarrow> (unit, bytes) outcome" where
  "encode_nodes [] = Ok []"
| "encode_nodes (n # ns) = try_bind (node_encode n) (\<lambda>bs. try_bind (encode_nodes ns) (\<lambda>rest. Ok (bs @ rest)))"

definition closest_nodes_bytes :: "Env \<Rightarrow> ShaHash \<Rightarrow> DhtHandler \<Rightarrow> (unit, bytes) outcome" where
  "closest_nodes_bytes E target h = encode_nodes (take 8 (closest_nodes (dh_now E h) (dh_table h) target))"

definition handle_ping :: "Env \<Rightarrow> PingRequest \<Rightarrow> SocketAddr \<Rightarrow> DhtHandler \<Rightarrow> handled" where
  "handle_ping E p addr h =
     (let h = dh_remote_request E (ping_node_id p) addr h
      in respond E (acting_encode \<lparr>act_trans_id = ping_trans_id p, act_node_id = rt_node_id (dh_table h)\<rparr>) addr h)"

definition handle_find_node :: "Env \<Rightarrow> FindNodeRequest \<Rightarrow> SocketAddr \<Rightarrow> DhtHandler \<Rightarrow> handled" where
  "handle_find_node E f addr h =
     (let h = dh_remote_request E (fn_node_id f) addr h
      in try_bind (closest_nodes_bytes E (fn_target_id f) h) (\<lambda>bs.
         try_bind (unwrap (find_node_response_new (fn_trans_id f) (rt_node_id (dh_table h)) bs)) (\<lambda>find_node_rsp.
         respond E (find_node_response_encode find_node_rsp) addr (dh_tick h))))"

text \<open>The six bytes of a contact; IPv6 contacts are left out.\<close>

fun contact_bytes :: "SocketAddr \<Rightarrow> bytes" where
  "contact_bytes (SockV4 v4_addr) =
     ipv4_to_bytes_be (v4_ip v4_addr) @ [ucast (drop_bit 8 (v4_port v4_addr)), ucast (v4_port v4_addr AND 0x00FF)]"
| "contact_bytes (SockV6 _) = []"

definition contact_chunks :: "bytes \<Rightarrow> bytes list" where
  "contact_chunks bs = map (\<lambda>i. slice bs (i * 6) (i * 6 + 6)) [0..<length bs div 6]"

fun ip_of_socket_addr :: "SocketAddr \<Rightarrow> IpAddr" where
  "ip_of_socket_addr (SockV4 a) = IpV4 (v4_ip a)"
| "ip_of_socket_addr (SockV6 a) = IpV6 (v6_ip a)"

definition handle_get_peers :: "Env \<Rightarrow> GetPeersRequest \<Rightarrow> SocketAddr \<Rightarrow> DhtHandler \<Rightarrow> handled" where
  "handle_get_peers E g addr h =
     (let h = dh_remote_request E (gp_node_id g) addr h;
          (items, store) = find_items (env_utc E (dh_ticks h)) (gp_info_hash g) (active_stores h);
          h = dh_tick (h\<lparr>active_stores := store\<rparr>);
          contact_info = contact_chunks (concat (map contact_bytes items))
      in try_bind (closest_nodes_bytes E (gp_info_hash g) h) (\<lambda>bs.
         let h = dh_tick h;
             (token, ts) = checkout (env_minutes E) (env_sha1 E) (env_utc E (dh_ticks h)) (env_secret E (dh_ticks h))
                             (ip_of_socket_addr addr) (token_store h);
             h = dh_tick (h\<lparr>token_store := ts\<rparr>)
         in try_bind (if contact_info \<noteq> [] then
                try_bind (unwrap (compact_node_info_new bs)) (\<lambda>ns.
                try_bind (unwrap (compact_value_info_new contact_info)) (\<lambda>vs. Ok (InfoBoth ns vs)))
              else try_bind (unwrap (compact_node_info_new bs)) (\<lambda>ns. Ok (InfoNodes ns))) (\<lambda>info_type.
            respond E (get_peers_response_encode
              \<lparr>gpr_trans_id = gp_trans_id g, gpr_node_id = rt_node_id (dh_table h), gpr_token = Some token,
               gpr_info_type = info_type\<rparr>) addr h)))"

fun connect_addr :: "ConnectPort \<Rightarrow> SocketAddr \<Rightarrow> SocketAddr" where
  "connect_addr Implied addr = addr"
| "connect_addr (Explicit port) (SockV4 a) = SockV4 (a\<lparr>v4_port := port\<rparr>)"
| "connect_addr (Explicit port) (SockV6 a) = SockV6 (a\<lparr>v6_port := port\<rparr>)"

definition handle_announce_peer :: "Env \<Rightarrow> AnnouncePeerRequest \<Rightarrow> SocketAddr \<Rightarrow> DhtHandler \<Rightarrow> handled" where
  "handle_announce_peer E a addr h =
     (let h = dh_remote_request E (ap_node_id a) addr h;
          (is_valid, h) = (case token_new (ap_token a) of
              Ok t \<Rightarrow>
                let (valid, ts) = checkin (env_minutes E) (env_sha1 E) (env_utc E (dh_ticks h)) (env_secret E (dh_ticks h))
                                    (ip_of_socket_addr addr) t (token_store h)
                in (valid, dh_tick (h\<lparr>token_store := ts\<rparr>))
            | _ \<Rightarrow> (False, h));
          connect = connect_addr (ap_port a) addr
      in if \<not> is_valid then
           respond E (error_encode (error_message_new (ap_trans_id a) ProtocolError (ascii ''Received An Invalid Token''))) addr h
         else
           let (added, store) = add_item (env_utc E (dh_ticks h)) (ap_info_hash a) connect (active_stores h);
               h = dh_tick (h\<lparr>active_stores := store\<rparr>)
           in if added then
                respond E (acting_encode \<lparr>act_trans_id = ap_trans_id a, act_node_id = rt_node_id (dh_table h)\<rparr>) addr h
              else
                respond E (error_encode (error_message_new (ap_trans_id a) ServerError (ascii ''Announce Storage Is Full'')))
                  addr h)"

definition handle_incoming_request :: "Env \<Rightarrow> RequestType \<Rightarrow> SocketAddr \<Rightarrow> DhtHandler \<Rightarrow> handled" where
  "handle_incoming_request E request addr h =
     (case request of
        RqPing p \<Rightarrow> handle_ping E p addr h
      | RqFindNode f \<Rightarrow> handle_find_node E f addr h
      | RqGetPeers g \<Rightarrow> handle_get_peers E g addr h
      | RqAnnouncePeer a \<Rightarrow> handle_announce_peer E a addr h)"

section \<open>Responses\<close>

definition dh_add_node :: "Env \<Rightarrow> Node \<Rightarrow> DhtHandler \<Rightarrow> handled" where
  "dh_add_node E node h =
     try_bind (add_node (dh_now E h) node (dh_table h)) (\<lambda>t.
       Ok (dh_tick (h\<lparr>dh_worker := (dh_worker h)\<lparr>w_table := t\<rparr>\<rparr>)))"

fun add_payload_nodes :: "Env \<Rightarrow> (ShaHash \<times> SocketAddrV4) list \<Rightarrow> DhtHandler \<Rightarrow> handled" where
  "add_payload_nodes E [] h = Ok h"
| "add_payload_nodes E ((nid, v4_addr) # rest) h =
     try_bind (dh_add_node E (as_questionable (dh_now E h) nid (SockV4 v4_addr)) h) (\<lambda>h. add_payload_nodes E rest h)"

definition handle_find_node_response :: "Env \<Rightarrow> FindNodeResponse \<Rightarrow> SocketAddr \<Rightarrow> DhtHandler \<Rightarrow> handled" where
  "handle_find_node_response E f addr h =
     try_bind (unwrap (ok_or () (transaction_id_from_bytes (fnr_trans_id f)))) (\<lambda>tid.
     let node = as_good (dh_now E h) (fnr_node_id f) addr
     in try_bind (compact_nodes_list (fnr_nodes f)) (\<lambda>payload.
        try_bind (add_payload_nodes E payload (dh_tick h)) (\<lambda>h.
        case table_actions h (action_id tid) of
          Some (ActRefresh _) \<Rightarrow> dh_add_node E node h
        | Some (ActBootstrap b attempts) \<Rightarrow>
            try_bind (if \<not> is_router b (node_addr node) then dh_add_node E node h else Ok h) (\<lambda>h.
            try_bind (bootstrap_recv_response E tid b (dh_worker h)) (\<lambda>(st, b, w).
            bootstrap_report E st tid (set_action (action_id tid) (Some (ActBootstrap b attempts)) (h\<lparr>dh_worker := w\<rparr>))))
        | _ \<Rightarrow> Ok h)))"

text \<open>What both callers of a running lookup do with the status it reports.\<close>

definition lookup_report :: "Env \<Rightarrow> LookupStatus \<Rightarrow> ShaHash \<Rightarrow> DhtHandler \<Rightarrow> handled" where
  "lookup_report E st info_hash h =
     (case st of
        LookupCompleted \<Rightarrow> Ok (broadcast_dht_event E (EvLookupCompleted info_hash) h)
      | LookupFailed \<Rightarrow> handle_command_shutdown E Unspecified h
      | _ \<Rightarrow> Ok h)"

definition handle_get_peers_response :: "Env \<Rightarrow> GetPeersResponse \<Rightarrow> SocketAddr \<Rightarrow> DhtHandler \<Rightarrow> handled" where
  "handle_get_peers_response E g addr h =
     try_bind (unwrap (ok_or () (transaction_id_from_bytes (gpr_trans_id g)))) (\<lambda>tid.
     let node = as_good (dh_now E h) (gpr_node_id g) addr
     in try_bind (dh_add_node E node (dh_tick h)) (\<lambda>h.
        case table_actions h (action_id tid) of
          Some (ActLookup l) \<Rightarrow>
            try_bind (lookup_recv_response E node tid g l (dh_worker h)) (\<lambda>(st, l, w).
            lookup_report E st (target_id l) (set_action (action_id tid) (Some (ActLookup l)) (h\<lparr>dh_worker := w\<rparr>)))
        | _ \<Rightarrow> Ok h))"

definition handle_incoming_response :: "Env \<Rightarrow> ResponseType \<Rightarrow> SocketAddr \<Rightarrow> DhtHandler \<Rightarrow> handled" where
  "handle_incoming_response E response addr h =
     (case response of
        RsFindNode f \<Rightarrow> handle_find_node_response E f addr h
      | RsGetPeers g \<Rightarrow> handle_get_peers_response E g addr h
      | RsPing _ \<Rightarrow> Ok h
      | RsAnnouncePeer _ \<Rightarrow> Ok h
      | RsActing a \<Rightarrow> dh_add_node E (as_good (dh_now E h) (act_node_id a) addr) (dh_tick h))"

definition handle_incoming_preprocess :: "(DhtError, MessageType) outcome \<Rightarrow> DhtHandler \<Rightarrow> bool" where
  "handle_incoming_preprocess message h \<longleftrightarrow>
     \<not> (read_only h \<and> (case message of Ok (MtRequest _) \<Rightarrow> True | _ \<Rightarrow> False))"

definition handle_incoming :: "Env \<Rightarrow> bytes \<Rightarrow> SocketAddr \<Rightarrow> DhtHandler \<Rightarrow> handled" where
  "handle_incoming E buf addr h =
     (case decode_top buf default_opt of
        Err _ \<Rightarrow> Ok h
      | Panic \<Rightarrow> Panic
      | Ok bencode \<Rightarrow>
          let message = message_new bencode
          in if \<not> handle_incoming_preprocess message h then Ok h
             else case message of
                    Err _ \<Rightarrow> Ok h
                  | Panic \<Rightarrow> Panic
                  | Ok (MtError _) \<Rightarrow> Ok h
                  | Ok (MtRequest request) \<Rightarrow> handle_incoming_request E request addr h
                  | Ok (MtResponse response) \<Rightarrow> handle_incoming_response E response addr h)"

section \<open>Timeouts\<close>

definition handle_check_bootstrap_timeout :: "Env \<Rightarrow> TransactionID \<Rightarrow> DhtHandler \<Rightarrow> handled" where
  "handle_check_bootstrap_timeout E tid h =
     (case table_actions h (action_id tid) of
        Some (ActBootstrap b attempts) \<Rightarrow>
          try_bind (bootstrap_recv_timeout E tid b (dh_worker h)) (\<lambda>(st, b, w).
          bootstrap_report E st tid (set_action (action_id tid) (Some (ActBootstrap b attempts)) (h\<lparr>dh_worker := w\<rparr>)))
      | _ \<Rightarrow> Ok h)"

definition handle_check_lookup_timeout :: "Env \<Rightarrow> TransactionID \<Rightarrow> DhtHandler \<Rightarrow> handled" where
  "handle_check_lookup_timeout E tid h =
     (case table_actions h (action_id tid) of
        Some (ActLookup l) \<Rightarrow>
          let (st, l, w) = lookup_recv_timeout E tid l (dh_worker h)
          in lookup_report E st (target_id l) (set_action (action_id tid) (Some (ActLookup l)) (h\<lparr>dh_worker := w\<rparr>))
      | _ \<Rightarrow> Ok h)"

definition handle_check_lookup_endgame :: "Env \<Rightarrow> TransactionID \<Rightarrow> DhtHandler \<Rightarrow> handled" where
  "handle_check_lookup_endgame E tid h =
     (let act = table_actions h (action_id tid);
          h = set_action (action_id tid) None h
      in case act of
           Some (ActLookup l) \<Rightarrow>
             let (st, l, w) = lookup_recv_finished E (announce_port h) l (dh_worker h);
                 h = h\<lparr>dh_worker := w\<rparr>
             in (case st of
                   LookupCompleted \<Rightarrow> Ok (broadcast_dht_event E (EvLookupCompleted (target_id l)) h)
                 | AnnounceFailed \<Rightarrow>
                     handle_command_shutdown E Unspecified (broadcast_dht_event E (EvLookupAnFail (target_id l)) h)
                 | _ \<Rightarrow> Ok h)
         | _ \<Rightarrow> Ok h)"

definition handle_timeout :: "Env \<Rightarrow> ScheduledTask \<Rightarrow> DhtHandler \<Rightarrow> handled" where
  "handle_timeout E task h =
     (case task of
        CheckTableRefresh tid \<Rightarrow> handle_check_table_refresh E tid h
      | CheckBootstrapTimeout tid \<Rightarrow> handle_check_bootstrap_timeout E tid h
      | CheckLookupTimeout tid \<Rightarrow> handle_check_lookup_timeout E tid h
      | CheckLookupEndGame tid \<Rightarrow> handle_check_lookup_endgame E tid h)"

section \<open>The loop\<close>

text \<open>
  What one round of \<open>select!\<close> receives: a command or the end of the command channel, a datagram or an error of the
  socket, or the timer. The timer branch is only taken when a timeout is pending and its deadline has passed.
\<close>

datatype dht_input = InCommand "OneshotTask option" | InMessage bytes SocketAddr | InError | InTimer

definition run_one :: "Env \<Rightarrow> dht_input \<Rightarrow> DhtHandler \<Rightarrow> handled" where
  "run_one E inp h =
     (case inp of
        InCommand (Some command) \<Rightarrow> handle_command E command h
      | InCommand None \<Rightarrow> Ok (shutdown h)
      | InMessage buf addr \<Rightarrow> handle_incoming E buf addr h
      | InError \<Rightarrow> Ok h
      | InTimer \<Rightarrow>
          if timer_is_empty (w_timer (dh_worker h)) then Ok h
          else case timer_poll_next (\<lambda>d. d \<le> dh_now E h) (w_timer (dh_worker h)) of
                 (PollReady (Some task), t) \<Rightarrow>
                   handle_timeout E task (dh_tick (h\<lparr>dh_worker := (dh_worker h)\<lparr>w_timer := t\<rparr>\<rparr>))
               | (PollReady None, t) \<Rightarrow> Panic
               | (PollPending, t) \<Rightarrow> Ok (dh_tick (h\<lparr>dh_worker := (dh_worker h)\<lparr>w_timer := t\<rparr>\<rparr>)))"

fun run :: "Env \<Rightarrow> dht_input list \<Rightarrow> DhtHandler \<Rightarrow> handled" where
  "run E [] h = Ok h"
| "run E (inp # inps) h = (if dh_status h = DhtFail then Ok h else try_bind (run_one E inp h) (\<lambda>h. run E inps h))"

end
