(* ===== verification/Dht_Lookup_Correct.thy ===== *)
theory Dht_Lookup_Correct
  imports Dht_Lookup
begin

text \<open>
  The invariant of a lookup: the nodes it knows are sorted by distance, and while it runs a task that
  resumes it is pending. Each call of the event loop keeps it and none of them panics.
\<close>

section \<open>A lookup always waits for something\<close>

definition lookup_wf :: "u64 \<Rightarrow> TableLookup \<Rightarrow> bool" where
  "lookup_wf aid l \<longleftrightarrow> mid_ok aid (tl_id_generator l) \<and> unat aid < 2 ^ 40 \<and> nodes_sorted (target_id l) (all_sorted_nodes l)"

definition lookup_waits :: "u64 \<Rightarrow> TableLookup \<Rightarrow> Worker \<Rightarrow> bool" where
  "lookup_waits aid l w \<longleftrightarrow>
     (if in_endgame l then \<exists>k tid. task_at w k = Some (CheckLookupEndGame tid) \<and> action_id tid = aid
      else \<forall>(tid, dist, k)\<in>set (active_lookups l). task_at w k = Some (CheckLookupTimeout tid) \<and> action_id tid = aid)"

definition lookup_ok :: "u64 \<Rightarrow> TableLookup \<Rightarrow> Worker \<Rightarrow> bool" where
  "lookup_ok aid l w \<longleftrightarrow> lookup_wf aid l \<and> lookup_waits aid l w \<and> (\<not> in_endgame l \<longrightarrow> active_lookups l \<noteq> [])"

text \<open>What the rounds leave alone.\<close>

definition same_lookup :: "TableLookup \<Rightarrow> TableLookup \<Rightarrow> bool" where
  "same_lookup l l' \<longleftrightarrow> in_endgame l' = in_endgame l \<and> target_id l' = target_id l \<and> tl_tx l' = tl_tx l \<and>
     all_sorted_nodes l' = all_sorted_nodes l \<and> recv_values l' = recv_values l \<and> announce_tokens l' = announce_tokens l \<and>
     will_announce l' = will_announce l \<and> tl_table_id l' = tl_table_id l"

lemma same_lookup_refl [simp]: "same_lookup l l"
  by (simp add: same_lookup_def)

lemma lookup_waits_mono:
  "lookup_waits aid l w \<Longrightarrow> grows w w' \<Longrightarrow> worker_ok w \<Longrightarrow> in_time w' \<Longrightarrow> lookup_waits aid l w'"
  unfolding lookup_waits_def keeps_tasks_def by (fastforce split: if_splits)

lemma grows_request_loop: "request_loop E ns m l w = (r, l', w') \<Longrightarrow> grows w w'"
proof (induction E ns m l w rule: request_loop.induct)
  case (2 E node dist rest m l w)
  then show ?case
    by (auto simp: Let_def split: prod.splits if_splits dest!: grows_generate grows_send grows_schedule
        intro: keeps_trans [OF keeps_trans]) (metis grows_local_request keeps_trans)
qed simp

lemma request_loop_same:
  "request_loop E ns m l w = (r, l', w') \<Longrightarrow>
   same_lookup l l' \<and> (lookup_wf aid l \<longrightarrow> lookup_wf aid l') \<and> (\<forall>k. r = Some k \<longrightarrow> k = m + length ns) \<and>
   (ns \<noteq> [] \<or> active_lookups l \<noteq> [] \<longrightarrow> active_lookups l' \<noteq> [])"
proof (induction ns arbitrary: m l w)
  case (Cons p ns)
  obtain node dist where p: "p = (node, dist)" by (cases p)
  obtain tid g w1 where gen: "w_generate E (tl_id_generator l) w = (tid, g, w1)" by (cases "w_generate E (tl_id_generator l) w")
  obtain k w2 where sch: "w_schedule E LOOKUP_TIMEOUT_MS (CheckLookupTimeout tid) w1 = (k, w2)"
    by (cases "w_schedule E LOOKUP_TIMEOUT_MS (CheckLookupTimeout tid) w1")
  define l1 where "l1 = l\<lparr>tl_id_generator := g, active_lookups := hm_insert tid (dist, k) (active_lookups l)\<rparr>"
  define l2 where "l2 = l1\<lparr>requested_nodes := insert node (requested_nodes l1)\<rparr>"
  obtain sent w3 where snd: "w_send E (get_peers_msg tid l1, h_addr node) w2 = (sent, w3)"
    by (cases "w_send E (get_peers_msg tid l1, h_addr node) w2")
  have run: "if sent then request_loop E ns (m + 1) l2 (w_local_request E node w3) = (r, l', w')
    else r = None \<and> l' = l1 \<and> w' = w3"
    using Cons.prems(1) by (simp add: p gen sch snd l2_def flip: l1_def split: if_splits)
  have "mid_ok aid g" if "lookup_wf aid l" using w_generate_action [OF gen, of aid] that by (simp add: lookup_wf_def)
  then have l1: "same_lookup l l1" "same_lookup l l2" "active_lookups l1 \<noteq> []" "active_lookups l2 \<noteq> []"
    "lookup_wf aid l \<longrightarrow> lookup_wf aid l1" "lookup_wf aid l \<longrightarrow> lookup_wf aid l2"
    by (simp_all add: same_lookup_def lookup_wf_def l1_def l2_def)
  show ?case
  proof (cases sent)
    case True
    with run have "request_loop E ns (m + 1) l2 (w_local_request E node w3) = (r, l', w')" by simp
    from Cons.IH [OF this] l1 show ?thesis by (simp add: same_lookup_def)
  next
    case False
    with run l1 show ?thesis by simp
  qed
qed auto

lemma request_loop_waits:
  "request_loop E ns m l w = (r, l', w') \<Longrightarrow> lookup_wf aid l \<Longrightarrow> \<not> in_endgame l \<Longrightarrow> worker_ok w \<Longrightarrow> in_time w' \<Longrightarrow>
   lookup_waits aid l w \<Longrightarrow> lookup_waits aid l' w'"
proof (induction ns arbitrary: m l w)
  case (Cons p ns)
  obtain node dist where p: "p = (node, dist)" by (cases p)
  obtain tid g w1 where gen: "w_generate E (tl_id_generator l) w = (tid, g, w1)" by (cases "w_generate E (tl_id_generator l) w")
  obtain k w2 where sch: "w_schedule E LOOKUP_TIMEOUT_MS (CheckLookupTimeout tid) w1 = (k, w2)"
    by (cases "w_schedule E LOOKUP_TIMEOUT_MS (CheckLookupTimeout tid) w1")
  define l1 where "l1 = l\<lparr>tl_id_generator := g, active_lookups := hm_insert tid (dist, k) (active_lookups l)\<rparr>"
  define l2 where "l2 = l1\<lparr>requested_nodes := insert node (requested_nodes l1)\<rparr>"
  obtain sent w3 where snd: "w_send E (get_peers_msg tid l1, h_addr node) w2 = (sent, w3)"
    by (cases "w_send E (get_peers_msg tid l1, h_addr node) w2")
  define w4 where "w4 = (if sent then w_local_request E node w3 else w3)"
  have g4: "grows w2 w4"
    using grows_send [OF snd] keeps_trans [OF grows_send [OF snd] grows_local_request [of w3 E node]] by (simp add: w4_def)
  have run: "if sent then request_loop E ns (m + 1) l2 w4 = (r, l', w') else l' = l1 \<and> w' = w4"
    using Cons.prems(1) by (simp add: p gen sch snd w4_def l2_def flip: l1_def split: if_splits)
  with grows_request_loop have g': "grows w4 w'" by (metis keeps_refl)
  note g1 = grows_generate [OF gen] and g2 = grows_schedule [OF sch]
  have t4: "in_time w4" by (rule keeps_in_time [OF g' Cons.prems(5)])
  have t2: "in_time w2" by (rule keeps_in_time [OF g4 t4])
  have w1: "worker_ok w1" by (rule keeps_worker_ok [OF g1 Cons.prems(4) keeps_in_time [OF g2 t2]])
  from w_schedule_ok [OF sch w1 t2] have w2: "worker_ok w2" "task_at w2 k = Some (CheckLookupTimeout tid)" by auto
  from Cons.prems(2) have act: "mid_ok aid g" "action_id tid = aid"
    using w_generate_action [OF gen, of aid] by (simp_all add: lookup_wf_def)
  have g14: "grows w w4" using keeps_trans [OF keeps_trans [OF g1 g2] g4] .
  have "lookup_waits aid l w4" by (rule lookup_waits_mono [OF Cons.prems(6) g14 Cons.prems(4) t4])
  with keeps_pending [OF g4 w2(1) t4 w2(2)] act Cons.prems(3) have waits: "lookup_waits aid l1 w4" "lookup_waits aid l2 w4"
    by (auto simp: lookup_waits_def l1_def l2_def)
  have l2: "lookup_wf aid l2" "\<not> in_endgame l2" using Cons.prems(2,3) act by (simp_all add: lookup_wf_def l1_def l2_def)
  have w4: "worker_ok w4" by (rule keeps_worker_ok [OF g14 Cons.prems(4) t4])
  show ?case
  proof (cases sent)
    case True
    with run have "request_loop E ns (m + 1) l2 w4 = (r, l', w')" by simp
    from Cons.IH [OF this l2 w4 Cons.prems(5) waits(2)] show ?thesis .
  next
    case False
    with run waits(1) show ?thesis by simp
  qed
qed simp

lemma start_request_round_ok:
  assumes run: "start_request_round E ns l w = (st, l', w')" and l: "lookup_wf aid l" "\<not> in_endgame l" "lookup_waits aid l w"
    and w: "worker_ok w" "in_time w'"
  shows "lookup_wf aid l' \<and> \<not> in_endgame l' \<and> lookup_waits aid l' w' \<and>
    (st = Searching \<longrightarrow> active_lookups l' \<noteq> []) \<and> (st = LookupCompleted \<longleftrightarrow> ns = [] )"
proof -
  obtain r l1 w1 where loop: "request_loop E ns 0 l w = (r, l1, w1)" by (cases "request_loop E ns 0 l w")
  note same = request_loop_same [OF loop, of aid]
  from same l have l1: "lookup_wf aid l1" "\<not> in_endgame l1" by (simp_all add: same_lookup_def)
  show ?thesis
  proof (cases r)
    case None
    with run loop have eq: "st = LookupFailed" "l' = l1" "w' = w1" by (simp_all add: start_request_round_def)
    from request_loop_waits [OF loop l(1,2) w(1) _ l(3)] w(2) eq have "lookup_waits aid l1 w1" by simp
    moreover have "ns \<noteq> []" using loop None by auto
    ultimately show ?thesis using l1 eq by simp
  next
    case (Some n)
    with same have n: "n = length ns" by simp
    from run loop Some have eq: "w' = w1"
      "if n = 0 then st = LookupCompleted \<and> l' = l1\<lparr>active_lookups := []\<rparr> else st = Searching \<and> l' = l1"
      by (simp_all add: start_request_round_def split: if_splits)
    from request_loop_waits [OF loop l(1,2) w(1) _ l(3)] w(2) eq have "lookup_waits aid l1 w1" by simp
    with l1 eq n same show ?thesis
      by (cases "ns = []") (simp_all add: lookup_wf_def lookup_waits_def)
  qed
qed

lemma grows_start_request_round: "start_request_round E ns l w = (st, l', w') \<Longrightarrow> grows w w'"
  by (auto simp: start_request_round_def dest!: grows_request_loop split: prod.splits option.splits if_splits)

lemma endgame_loop_same:
  "endgame_loop E k ns l w = (ok, ns', l', w') \<Longrightarrow>
   grows w w' \<and> same_lookup l l' \<and> (mid_ok aid (tl_id_generator l) \<longrightarrow> unat aid < 2 ^ 40 \<longrightarrow> mid_ok aid (tl_id_generator l')) \<and>
   map fst ns' = map fst ns \<and> map (fst \<circ> snd) ns' = map (fst \<circ> snd) ns"
proof (induction ns arbitrary: l w ok ns')
  case (Cons p rest)
  obtain dist node req where p: "p = (dist, node, req)" by (cases p)
  show ?case
  proof (cases req)
    case True
    obtain ok1 ns1 l1 w1 where e: "endgame_loop E k rest l w = (ok1, ns1, l1, w1)" by (cases "endgame_loop E k rest l w")
    from Cons.prems True e have eq: "ns' = (dist, node, req) # ns1" "l' = l1" "w' = w1" by (simp_all add: p)
    from Cons.IH [of l w ok1 ns1] e eq show ?thesis by (simp add: p)
  next
    case False
    obtain tid g w1 where gen: "w_generate E (tl_id_generator l) w = (tid, g, w1)" by (cases "w_generate E (tl_id_generator l) w")
    define l1 where "l1 = l\<lparr>tl_id_generator := g, active_lookups := hm_insert tid (dist, k) (active_lookups l)\<rparr>"
    obtain sent w2 where snd: "w_send E (get_peers_msg tid l1, h_addr node) w1 = (sent, w2)"
      by (cases "w_send E (get_peers_msg tid l1, h_addr node) w1")
    have g12: "grows w w2" using grows_generate [OF gen] grows_send [OF snd] by (rule keeps_trans)
    have act: "mid_ok aid (tl_id_generator l) \<longrightarrow> unat aid < 2 ^ 40 \<longrightarrow> mid_ok aid g"
      using w_generate_action [OF gen, of aid] by simp
    show ?thesis
    proof (cases sent)
      case True
      let ?w = "w_local_request E node w2"
      obtain ok1 ns1 l2 w3 where e: "endgame_loop E k rest l1 ?w = (ok1, ns1, l2, w3)" by (cases "endgame_loop E k rest l1 ?w")
      from Cons.prems True False e snd have eq: "ns' = (dist, node, True) # ns1" "l' = l2" "w' = w3"
        by (simp_all add: p gen flip: l1_def)
      from Cons.IH [of l1 ?w ok1 ns1] e eq have
        ih: "grows ?w w3" "same_lookup l1 l2" "mid_ok aid (tl_id_generator l1) \<longrightarrow> unat aid < 2 ^ 40 \<longrightarrow> mid_ok aid (tl_id_generator l2)"
          "map fst ns1 = map fst rest" "map (fst \<circ> snd) ns1 = map (fst \<circ> snd) rest" by (simp_all add: comp_def)
      have "grows w w3" using keeps_trans [OF keeps_trans [OF g12 grows_local_request] ih(1)] .
      moreover have "same_lookup l l2" using ih(2) by (simp add: same_lookup_def l1_def)
      moreover have "tl_id_generator l1 = g" by (simp add: l1_def)
      ultimately show ?thesis using ih act by (simp add: eq p comp_def)
    next
      case no: False
      with Cons.prems False snd have eq: "ns' = p # rest" "l' = l1" "w' = w2" by (simp_all add: p gen flip: l1_def)
      with g12 act show ?thesis by (simp add: same_lookup_def l1_def)
    qed
  qed
qed simp

lemma start_endgame_round_ok:
  assumes run: "start_endgame_round E l w = (st, l', w')" and l: "lookup_wf aid l"
  shows "grows w w' \<and> lookup_wf aid l' \<and> in_endgame l' \<and> target_id l' = target_id l \<and>
    (worker_ok w \<longrightarrow> in_time w' \<longrightarrow> lookup_waits aid l' w')"
proof -
  obtain tid g w1 where gen: "w_generate E (tl_id_generator l) w = (tid, g, w1)" by (cases "w_generate E (tl_id_generator l) w")
  obtain k w2 where sch: "w_schedule E ENDGAME_TIMEOUT_MS (CheckLookupEndGame tid) w1 = (k, w2)"
    by (cases "w_schedule E ENDGAME_TIMEOUT_MS (CheckLookupEndGame tid) w1")
  let ?l = "l\<lparr>in_endgame := True, tl_id_generator := g\<rparr>"
  obtain ok ns l1 w3 where e: "endgame_loop E k (all_sorted_nodes ?l) ?l w2 = (ok, ns, l1, w3)"
    by (cases "endgame_loop E k (all_sorted_nodes ?l) ?l w2")
  note g1 = grows_generate [OF gen] and g2 = grows_schedule [OF sch]
  from l have act: "mid_ok aid g" "action_id tid = aid" "unat aid < 2 ^ 40"
    using w_generate_action [OF gen, of aid] by (simp_all add: lookup_wf_def)
  note same = endgame_loop_same [OF e, of aid]
  have res: "if recv_values l then l' = ?l \<and> w' = w2 else l' = l1\<lparr>all_sorted_nodes := ns\<rparr> \<and> w' = w3"
    using run e by (auto simp: start_endgame_round_def gen sch Let_def split: if_splits)
  have g: "grows w2 w'" using res same by (auto split: if_splits)
  have "task_at w' k = Some (CheckLookupEndGame tid)" if "worker_ok w" "in_time w'"
  proof -
    have t2: "in_time w2" by (rule keeps_in_time [OF g that(2)])
    have "worker_ok w1" by (rule keeps_worker_ok [OF g1 that(1) keeps_in_time [OF g2 t2]])
    from w_schedule_ok [OF sch this t2] have "worker_ok w2" "task_at w2 k = Some (CheckLookupEndGame tid)" by auto
    from keeps_pending [OF g this(1) that(2) this(2)] show ?thesis by simp
  qed
  moreover have "grows w w'" using keeps_trans [OF keeps_trans [OF g1 g2] g] .
  moreover have "in_endgame l'" "target_id l' = target_id l" using res same by (auto simp: same_lookup_def split: if_splits)
  moreover have "lookup_wf aid l'"
  proof (cases "recv_values l")
    case True
    with res l act show ?thesis by (simp add: lookup_wf_def)
  next
    case False
    with l same have "nodes_sorted (target_id l) ns" by (auto simp: lookup_wf_def intro: nodes_sorted_cong)
    with False res same act show ?thesis by (simp add: lookup_wf_def same_lookup_def)
  qed
  ultimately show ?thesis using act by (auto simp: lookup_waits_def)
qed

section \<open>The calls of the event loop\<close>

lemma start_request_round_same:
  assumes "start_request_round E ns l w = (st, l', w')"
  shows "same_lookup l l' \<and> (lookup_wf aid l \<longrightarrow> lookup_wf aid l')"
proof -
  obtain r l1 w1 where loop: "request_loop E ns 0 l w = (r, l1, w1)" by (cases "request_loop E ns 0 l w")
  from request_loop_same [OF loop, of aid] assms loop show ?thesis
    by (cases r) (simp_all add: start_request_round_def same_lookup_def lookup_wf_def split: if_splits, auto)
qed

lemma table_lookup_new_ok:
  assumes run: "table_lookup_new E table_id target g announce tx w = (ol, w')" and aid: "mid_ok aid g" "unat aid < 2 ^ 40"
  shows "grows w w' \<and> (\<forall>l. ol = Some l \<longrightarrow> lookup_wf aid l \<and> target_id l = target \<and>
    (worker_ok w \<longrightarrow> in_time w' \<longrightarrow> lookup_ok aid l w'))"
proof -
  define closest where
    "closest = take MAX_BUCKET_SIZE (filter (\<lambda>n. status (w_now E w) n = Good) (closest_nodes (w_now E w) (w_table w) target))"
  define sorted where "sorted = foldl (\<lambda>ns node. insert_sorted_node ns target (handle node) False) [] closest"
  obtain sorted' picks where pick: "pick_initial_nodes sorted = (sorted', picks)" by (cases "pick_initial_nodes sorted")
  have s: "nodes_sorted target sorted'"
  proof (rule nodes_sorted_cong)
    show "nodes_sorted target sorted"
      unfolding sorted_def by (rule insert_all_sorted [of target "[]" handle "\<lambda>_. False"]) (simp add: nodes_sorted_def)
    show "map fst sorted' = map fst sorted" "map (fst \<circ> snd) sorted' = map (fst \<circ> snd) sorted"
      using pick_loop_sorted [OF pick [unfolded pick_initial_nodes_def]] by blast+
  qed
  define l0 where "l0 = \<lparr>tl_table_id = table_id, target_id = target, in_endgame = False, recv_values = False,
       tl_id_generator = g, will_announce = announce, active_lookups = [], announce_tokens = (\<lambda>_. None),
       requested_nodes = {}, all_sorted_nodes = sorted', tl_tx = tx\<rparr>"
  have l0: "lookup_wf aid l0" "\<not> in_endgame l0" "lookup_waits aid l0 v" for v
    using s aid by (simp_all add: lookup_wf_def lookup_waits_def l0_def)
  define ns where "ns = map (\<lambda>(node, _). (node, sha_bitxor (h_id node) target)) (filter (\<lambda>(_, good). good) picks)"
  obtain st l w1 where round: "start_request_round E ns l0 (tick w) = (st, l, w1)"
    by (cases "start_request_round E ns l0 (tick w)")
  have "table_lookup_new E table_id target g announce tx w =
      (case (st, l, w1) of (Searching, l, w) \<Rightarrow> (Some l, w) | (_, l, w) \<Rightarrow> (None, w))"
    by (simp only: table_lookup_new_def Let_def pick [unfolded sorted_def closest_def] prod.case
        l0_def [symmetric] ns_def [symmetric] round)
  with run have eq: "w' = w1" "ol = (if st = Searching then Some l else None)" by (auto split: LookupStatus.splits)
  have g: "grows w w1" using grows_tick_only grows_start_request_round [OF round] by (rule keeps_trans)
  note same = start_request_round_same [OF round, of aid]
  have "lookup_ok aid l w1" if "worker_ok w" "in_time w1" "st = Searching"
  proof -
    have t: "in_time (tick w)" by (rule keeps_in_time [OF grows_start_request_round [OF round] that(2)])
    from start_request_round_ok [OF round l0 keeps_worker_ok [OF grows_tick_only that(1) t] that(2)] that(3) show ?thesis
      by (simp add: lookup_ok_def)
  qed
  moreover have "lookup_wf aid l" "target_id l = target" using same l0(1) by (simp_all add: same_lookup_def l0_def)
  ultimately show ?thesis using g eq by simp
qed

lemma take_in_nodes_ok:
  assumes "take_in_nodes ns dist l = (l', sel, dist')" and "lookup_wf aid l"
  shows "lookup_wf aid l' \<and> in_endgame l' = in_endgame l \<and> active_lookups l' = active_lookups l \<and> target_id l' = target_id l"
proof -
  have "nodes_sorted (target_id l) (all_sorted_nodes l)" using assms(2) by (simp add: lookup_wf_def)
  note ins = insert_all_sorted [OF this, of "\<lambda>h. h"]
  define hs where "hs = filter (\<lambda>h. h \<notin> requested_nodes l) (map (\<lambda>(i, addr). \<lparr>h_id = i, h_addr = SockV4 addr\<rparr>) ns)"
  define put where "put p = l\<lparr>all_sorted_nodes := foldl (\<lambda>s h. insert_sorted_node s (target_id l) h (p h)) (all_sorted_nodes l) hs\<rparr>" for p
  have "l' = l \<or> l' = put (\<lambda>_. False) \<or> l' = put (\<lambda>h. list_ex (\<lambda>(n, _). n = h) (pick_iterate_nodes hs (target_id l)))"
    using assms(1) unfolding take_in_nodes_def hs_def [symmetric] put_def Let_def by (auto split: if_splits)
  with assms(2) ins show ?thesis by (auto simp: lookup_wf_def put_def)
qed

lemma iterate_search_ok:
  assumes run: "iterate_search E sel dist l w = (ok, l', w')" and l: "lookup_wf aid l"
  shows "grows w w' \<and> target_id l' = target_id l \<and> lookup_wf aid l' \<and>
    (ok \<longrightarrow> worker_ok w \<longrightarrow> in_time w' \<longrightarrow> lookup_waits aid l w \<longrightarrow> lookup_ok aid l' w')"
proof (cases "in_endgame l")
  case True
  with run l show ?thesis by (simp add: iterate_search_def lookup_ok_def)
next
  case False
  define r where "r = (case sel of
       Some ns \<Rightarrow> start_request_round E (map (\<lambda>(n, _). (n, dist)) (filter (\<lambda>(_, good). good) ns)) l w
     | None \<Rightarrow> (Searching, l, w))"
  obtain st l1 w1 where r: "r = (st, l1, w1)" by (cases r)
  have g1: "grows w w1" and s1: "same_lookup l l1" "lookup_wf aid l1"
    using r l grows_start_request_round start_request_round_same
    by (auto simp: r_def split: option.splits)
  have w1: "lookup_waits aid l1 w1" if "worker_ok w" "in_time w1" "lookup_waits aid l w"
    using r start_request_round_ok [OF _ l False that(3,1,2)] that by (auto simp: r_def split: option.splits)
  from s1 False have e1: "\<not> in_endgame l1" "target_id l1 = target_id l" by (simp_all add: same_lookup_def)
  show ?thesis
  proof (cases "st = LookupFailed \<or> active_lookups l1 \<noteq> []")
    case True
    then have "l' = l1 \<and> w' = w1 \<and> (ok \<longrightarrow> active_lookups l1 \<noteq> [])"
      using run False r by (auto simp: iterate_search_def r_def Let_def split: if_splits prod.splits)
    with g1 s1 e1 w1 show ?thesis by (simp add: lookup_ok_def)
  next
    case no: False
    obtain st2 l2 w2 where e: "start_endgame_round E l1 w1 = (st2, l2, w2)" by (cases "start_endgame_round E l1 w1")
    have eq: "l' = l2" "w' = w2" using run False r no e by (auto simp: iterate_search_def r_def Let_def split: if_splits prod.splits)
    note end_ok = start_endgame_round_ok [OF e s1(2)]
    have "lookup_ok aid l2 w2" if "worker_ok w" "in_time w2"
    proof -
      have "worker_ok w1" using end_ok keeps_worker_ok [OF g1 that(1)] keeps_in_time that(2) by blast
      with end_ok that(2) show ?thesis by (simp add: lookup_ok_def)
    qed
    with end_ok e1 eq g1 show ?thesis by (auto intro: keeps_trans)
  qed
qed

lemma grows_send_peers: "grows w (send_peers tx vs w)"
  by (cases tx) (simp_all add: send_peers_def keeps_tasks_def worker_ok_def timer_ok_def in_time_def)

lemma lookup_status_ok: "lookup_ok aid l w \<Longrightarrow> current_lookup_status l = Searching"
  by (auto simp: lookup_ok_def current_lookup_status_def)

text \<open>The lists of nodes and peers of a parsed response can be read.\<close>

definition info_readable :: "CompactInfoType \<Rightarrow> bool" where
  "info_readable i \<longleftrightarrow> (case i of
      InfoNodes n \<Rightarrow> is_ok (compact_nodes_list n)
    | InfoValues v \<Rightarrow> is_ok (compact_values_list v)
    | InfoBoth n v \<Rightarrow> is_ok (compact_nodes_list n) \<and> is_ok (compact_values_list v))"

lemma lookup_waits_remove:
  assumes "lookup_waits aid l w" and "worker_ok w" and "map_of (active_lookups l) tid = Some (dist, k)" and "\<not> in_endgame l"
  shows "steps aid w (w_cancel k w) \<and> worker_ok (w_cancel k w) \<and>
    lookup_waits aid (l\<lparr>active_lookups := hm_remove tid (active_lookups l)\<rparr>) (w_cancel k w)"
proof -
  have key: "task_at w k = Some (CheckLookupTimeout tid)" "action_id tid = aid"
    using assms(1,4) map_of_SomeD [OF assms(3)] by (auto simp: lookup_waits_def)
  have "steps aid w (w_cancel k w)" by (rule steps_cancel) (simp add: key)
  with assms key w_cancel_ok [OF assms(2), of k] show ?thesis by (auto simp: lookup_waits_def)
qed

lemma lookup_waits_cong:
  "in_endgame l' = in_endgame l \<Longrightarrow> active_lookups l' = active_lookups l \<Longrightarrow> lookup_waits aid l' = lookup_waits aid l"
  by (simp add: lookup_waits_def fun_eq_iff)

lemma is_ok_iff: "is_ok m \<longleftrightarrow> (\<exists>a. m = Ok a)"
  by (cases m) auto

lemma lookup_take_response_ok:
  assumes l: "lookup_wf aid l" and info: "info_readable info"
  shows "\<exists>st l' w'. lookup_take_response E info dist l w = Ok (st, l', w') \<and> grows w w' \<and> lookup_wf aid l' \<and>
    target_id l' = target_id l \<and>
    (worker_ok w \<longrightarrow> in_time w' \<longrightarrow> lookup_waits aid l w \<longrightarrow> st \<noteq> LookupFailed \<longrightarrow> st = Searching \<and> lookup_ok aid l' w')"
proof -
  obtain l2 ov on where parse: "(case info of
         InfoNodes n \<Rightarrow> Ok (l, None, Some n)
       | InfoValues v \<Rightarrow> try_bind (compact_values_list v) (\<lambda>vs. Ok (l\<lparr>recv_values := True\<rparr>, Some vs, None))
       | InfoBoth n v \<Rightarrow> try_bind (compact_values_list v) (\<lambda>vs. Ok (l, Some vs, Some n))) = Ok (l2, ov, on)"
    and l2: "l2 = l \<or> l2 = l\<lparr>recv_values := True\<rparr>" and on: "\<forall>n. on = Some n \<longrightarrow> is_ok (compact_nodes_list n)"
    using info by (cases info) (auto simp: info_readable_def is_ok_iff)
  have l2': "lookup_wf aid l2" "target_id l2 = target_id l" "lookup_waits aid l2 = lookup_waits aid l"
    using l l2 by (auto simp: lookup_wf_def lookup_waits_def fun_eq_iff)
  obtain r where r: "(case on of
        Some info \<Rightarrow> try_bind (compact_nodes_list info) (\<lambda>ns. Ok (take_in_nodes ns dist l2))
      | None \<Rightarrow> Ok (l2, None, dist)) = (Ok r :: (unit, _) outcome)"
  proof (cases on)
    case None
    then show thesis by (intro that [of "(l2, None, dist)"]) simp
  next
    case (Some n)
    with on obtain ns where "compact_nodes_list n = Ok ns" by (auto simp: is_ok_iff)
    with Some show thesis by (intro that [of "take_in_nodes ns dist l2"]) simp
  qed
  obtain l3 sel dist' where r3: "r = (l3, sel, dist')" by (cases r)
  have l3: "lookup_wf aid l3 \<and> in_endgame l3 = in_endgame l2 \<and> active_lookups l3 = active_lookups l2 \<and> target_id l3 = target_id l2"
  proof (cases on)
    case None
    with r r3 l2'(1) show ?thesis by simp
  next
    case (Some n)
    with on obtain ns where "compact_nodes_list n = Ok ns" by (auto simp: is_ok_iff)
    with r r3 Some have "take_in_nodes ns dist l2 = (l3, sel, dist')" by simp
    from take_in_nodes_ok [OF this l2'(1)] show ?thesis .
  qed
  have w3: "lookup_waits aid l3 = lookup_waits aid l" using l2'(3) l3 lookup_waits_cong [of l3 l2] by metis
  obtain ok l4 w4 where it: "iterate_search E sel dist' l3 w = (ok, l4, w4)" by (cases "iterate_search E sel dist' l3 w")
  note it_ok = iterate_search_ok [OF it conjunct1 [OF l3]]
  define w5 where "w5 = (if ok then case ov of Some vs \<Rightarrow> send_peers (tl_tx l4) vs w4 | None \<Rightarrow> w4 else w4)"
  have g5: "grows w4 w5" using grows_send_peers by (simp add: w5_def split: option.split)
  have res: "lookup_take_response E info dist l w = Ok (if ok then current_lookup_status l4 else LookupFailed, l4, w5)"
    unfolding lookup_take_response_def parse try_bind.simps prod.case r r3 it Let_def w5_def by simp
  have "lookup_ok aid l4 w5" if "worker_ok w" "in_time w5" "lookup_waits aid l w" "ok"
  proof -
    have t: "in_time w4" by (rule keeps_in_time [OF g5 that(2)])
    with it_ok w3 that have ok4: "lookup_ok aid l4 w4" by simp
    have "worker_ok w4" using it_ok keeps_worker_ok [OF _ that(1) t] by blast
    from ok4 lookup_waits_mono [OF _ g5 this that(2)] show ?thesis by (simp add: lookup_ok_def)
  qed
  moreover have "grows w w5" using it_ok g5 keeps_trans by blast
  ultimately show ?thesis using res it_ok l3 l2'(2) lookup_status_ok by auto
qed

lemma lookup_recv_response_ok:
  assumes l: "lookup_ok aid l w" and w: "worker_ok w" and info: "info_readable (gpr_info_type msg)"
  shows "\<exists>st l' w'. lookup_recv_response E node tid msg l w = Ok (st, l', w') \<and> steps aid w w' \<and> lookup_wf aid l' \<and>
    target_id l' = target_id l \<and> (in_time w' \<longrightarrow> st \<noteq> LookupFailed \<longrightarrow> st = Searching \<and> lookup_ok aid l' w')"
proof (cases "map_of (active_lookups l) tid")
  case None
  with l lookup_status_ok [OF l] show ?thesis by (simp add: lookup_recv_response_def lookup_ok_def)
next
  case (Some p)
  obtain dist k where p: "p = (dist, k)" by (cases p)
  define w1 where "w1 = (if \<not> in_endgame l then w_cancel k w else w)"
  define l1 where "l1 = (let l = l\<lparr>active_lookups := hm_remove tid (active_lookups l)\<rparr> in
     case gpr_token msg of Some token \<Rightarrow> l\<lparr>announce_tokens := (announce_tokens l)(handle node \<mapsto> token)\<rparr> | None \<Rightarrow> l)"
  from l have wf: "lookup_wf aid l" and waits: "lookup_waits aid l w" by (simp_all add: lookup_ok_def)
  have s1: "steps aid w w1" and w1: "worker_ok w1" and wl: "lookup_waits aid (l\<lparr>active_lookups := hm_remove tid (active_lookups l)\<rparr>) w1"
  proof -
    let ?l = "l\<lparr>active_lookups := hm_remove tid (active_lookups l)\<rparr>"
    have "steps aid w w1 \<and> worker_ok w1 \<and> lookup_waits aid ?l w1"
    proof (cases "in_endgame l")
      case True
      with waits w show ?thesis by (simp add: w1_def lookup_waits_def)
    next
      case False
      with lookup_waits_remove [OF waits w Some [unfolded p]] show ?thesis by (simp add: w1_def)
    qed
    then show "steps aid w w1" "worker_ok w1" "lookup_waits aid ?l w1" by blast+
  qed
  have l1: "lookup_wf aid l1" "lookup_waits aid l1 w1" "target_id l1 = target_id l"
    using wf wl by (simp_all add: l1_def Let_def lookup_wf_def lookup_waits_def split: option.split)
  have run: "lookup_recv_response E node tid msg l w = lookup_take_response E (gpr_info_type msg) dist l1 w1"
    by (simp add: lookup_recv_response_def Some p l1_def w1_def Let_def)
  from lookup_take_response_ok [OF l1(1) info, of E dist w1] obtain st l' w' where
    res: "lookup_take_response E (gpr_info_type msg) dist l1 w1 = Ok (st, l', w')" "grows w1 w'" "lookup_wf aid l'"
      "target_id l' = target_id l1"
      "worker_ok w1 \<longrightarrow> in_time w' \<longrightarrow> lookup_waits aid l1 w1 \<longrightarrow> st \<noteq> LookupFailed \<longrightarrow> st = Searching \<and> lookup_ok aid l' w'"
    by blast
  have "steps aid w w'" using s1 grows_keeps [OF res(2)] by (rule keeps_trans)
  with run res w1 l1 show ?thesis by simp
qed

lemma lookup_recv_response_wf:
  assumes l: "lookup_wf aid l" and info: "info_readable (gpr_info_type msg)"
  shows "\<exists>st l' w'. lookup_recv_response E node tid msg l w = Ok (st, l', w') \<and> keeps_tasks (\<lambda>_. False) {} w w' \<and> lookup_wf aid l' \<and>
    (lookup_ok aid l w \<longrightarrow> worker_ok w \<longrightarrow> steps aid w w' \<and> (in_time w' \<longrightarrow> st \<noteq> LookupFailed \<longrightarrow> lookup_ok aid l' w'))"
proof -
  have "\<exists>r. lookup_recv_response E node tid msg l w = Ok r \<and> keeps_tasks (\<lambda>_. False) {} w (snd (snd r)) \<and> lookup_wf aid (fst (snd r))"
  proof (cases "map_of (active_lookups l) tid")
    case None
    with l show ?thesis by (simp add: lookup_recv_response_def)
  next
    case (Some p)
    obtain dist k where p: "p = (dist, k)" by (cases p)
    define w1 where "w1 = (if \<not> in_endgame l then w_cancel k w else w)"
    define l1 where "l1 = (let l = l\<lparr>active_lookups := hm_remove tid (active_lookups l)\<rparr> in
       case gpr_token msg of Some token \<Rightarrow> l\<lparr>announce_tokens := (announce_tokens l)(handle node \<mapsto> token)\<rparr> | None \<Rightarrow> l)"
    have k: "keeps_tasks (\<lambda>_. False) {} w w1" by (auto simp: w1_def intro: keeps_cancel)
    have l1: "lookup_wf aid l1" using l by (simp add: l1_def Let_def lookup_wf_def split: option.split)
    have run: "lookup_recv_response E node tid msg l w = lookup_take_response E (gpr_info_type msg) dist l1 w1"
      by (simp add: lookup_recv_response_def Some p l1_def w1_def Let_def)
    from lookup_take_response_ok [OF l1 info, of E dist w1] obtain st l' w' where
      "lookup_take_response E (gpr_info_type msg) dist l1 w1 = Ok (st, l', w')" "grows w1 w'" "lookup_wf aid l'" by blast
    with run keeps_trans [OF k grows_keeps] show ?thesis by simp
  qed
  then obtain st l' w' where r: "lookup_recv_response E node tid msg l w = Ok (st, l', w')" "keeps_tasks (\<lambda>_. False) {} w w'" "lookup_wf aid l'"
    by auto
  moreover have "steps aid w w' \<and> (in_time w' \<longrightarrow> st \<noteq> LookupFailed \<longrightarrow> lookup_ok aid l' w')"
    if "lookup_ok aid l w" "worker_ok w"
    using lookup_recv_response_ok [OF that info, of E node tid] r(1) by auto
  ultimately show ?thesis by blast
qed

lemma lookup_recv_timeout_ok:
  assumes run: "lookup_recv_timeout E tid l w = (st, l', w')" and l: "lookup_wf aid l"
  shows "grows w w' \<and> lookup_wf aid l' \<and> target_id l' = target_id l \<and>
    (worker_ok w \<longrightarrow> in_time w' \<longrightarrow> st \<noteq> LookupFailed \<longrightarrow>
       lookup_waits aid (l\<lparr>active_lookups := hm_remove tid (active_lookups l)\<rparr>) w \<longrightarrow>
       (\<not> in_endgame l \<longrightarrow> active_lookups l \<noteq> []) \<longrightarrow> st = Searching \<and> lookup_ok aid l' w')"
proof (cases "map_of (active_lookups l) tid")
  case None
  then have "hm_remove tid (active_lookups l) = active_lookups l"
    by (force simp: hm_remove_def map_of_eq_None_iff filter_id_conv)
  with None run l show ?thesis
    by (auto simp: lookup_recv_timeout_def lookup_ok_def current_lookup_status_def)
next
  case (Some p)
  define l1 where "l1 = l\<lparr>active_lookups := hm_remove tid (active_lookups l)\<rparr>"
  have l1: "lookup_wf aid l1" "target_id l1 = target_id l" using l by (simp_all add: l1_def lookup_wf_def)
  show ?thesis
  proof (cases "\<not> in_endgame l1 \<and> active_lookups l1 = []")
    case False
    with run Some have "l' = l1 \<and> w' = w \<and> st = current_lookup_status l1"
      by (auto simp: lookup_recv_timeout_def Let_def l1_def [symmetric])
    with False l1 show ?thesis by (auto simp: lookup_ok_def current_lookup_status_def l1_def [symmetric])
  next
    case True
    obtain st2 l2 w2 where e: "start_endgame_round E l1 w = (st2, l2, w2)" by (cases "start_endgame_round E l1 w")
    from run Some True e have eq: "l' = l2" "w' = w2" "st \<noteq> LookupFailed \<longrightarrow> st = current_lookup_status l2"
      by (auto simp: lookup_recv_timeout_def Let_def l1_def [symmetric] split: if_splits)
    from start_endgame_round_ok [OF e l1(1)] l1(2) eq show ?thesis
      by (auto simp: lookup_ok_def current_lookup_status_def)
  qed
qed

lemma grows_announce_loop: "announce_loop E port ts l w = (r, l', w') \<Longrightarrow> grows w w'"
proof (induction ts arbitrary: l w)
  case (Cons p ts)
  then show ?case
    by (cases p) (auto simp: Let_def split: prod.splits if_splits dest!: grows_generate grows_send
        intro: keeps_trans [OF keeps_trans], metis grows_local_request keeps_trans)
qed simp

lemma grows_recv_finished: "lookup_recv_finished E port l w = (st, l', w') \<Longrightarrow> grows w w'"
  by (auto simp: lookup_recv_finished_def Let_def dest!: grows_announce_loop split: option.splits prod.splits if_splits)

end
