(* ===== verification/Dht_Handler_Correct.thy ===== *)
theory Dht_Handler_Correct
  imports Dht_Handler Dht_Lookup_Correct Dht_Message_Correct
begin

text \<open>
  The invariant of the DHT's event loop: the routing table is well-formed, every action carries ids of its own,
  and while the DHT runs a task that resumes it is pending for every action. It is shown with triples:
  \<open>handles P r Q\<close> says that a handler returns a state with \<open>Q\<close>, or panics for one of the reasons \<open>P\<close>.
\<close>

section \<open>Triples\<close>

definition handles :: "bool \<Rightarrow> (unit, 'a) outcome \<Rightarrow> ('a \<Rightarrow> bool) \<Rightarrow> bool" where
  "handles P r Q \<longleftrightarrow> (case r of Ok a \<Rightarrow> Q a | Err _ \<Rightarrow> False | Panic \<Rightarrow> P)"

named_theorems handles_rules \<open>triples of the handlers\<close>

lemma handles_Ok [simp]: "handles P (Ok a) Q \<longleftrightarrow> Q a" and handles_Panic [simp]: "handles P Panic Q \<longleftrightarrow> P"
  by (simp_all add: handles_def)

lemma handles_bind: "handles P m Q \<Longrightarrow> (\<And>a. Q a \<Longrightarrow> handles P (f a) R) \<Longrightarrow> handles P (try_bind m f) R"
  by (cases m) (auto simp: handles_def)

lemma handles_mono: "handles P r Q \<Longrightarrow> (\<And>a. Q a \<Longrightarrow> R a) \<Longrightarrow> handles P r R"
  by (cases r) (auto simp: handles_def)

section \<open>The invariant\<close>

fun action_wf :: "u64 \<Rightarrow> TableAction \<Rightarrow> bool" where
  "action_wf aid (ActLookup l) = lookup_wf aid l"
| "action_wf aid (ActRefresh r) = refresh_wf aid r"
| "action_wf aid (ActBootstrap b attempts) = (bootstrap_wf aid b \<and> attempts < MAX_BOOTSTRAP_ATTEMPTS)"

fun action_waits :: "u64 \<Rightarrow> TableAction \<Rightarrow> Worker \<Rightarrow> bool" where
  "action_waits aid (ActLookup l) w = lookup_ok aid l w"
| "action_waits aid (ActRefresh r) w = (\<exists>k t. task_at w k = Some (CheckTableRefresh t) \<and> action_id t = aid)"
| "action_waits aid (ActBootstrap b attempts) w = bootstrap_ok aid b w"

fun post_wf :: "PostBootstrapAction \<Rightarrow> bool" where
  "post_wf (PostLookup _ _ _) = True"
| "post_wf (PostRefresh r tid) = refresh_wf (action_id tid) r"

text \<open>
  The stores of announces and of tokens are well-formed, provided that the clock never goes back and \<open>chrono\<close> counts
  minutes as documented.
\<close>

definition clock_ok :: "Env \<Rightarrow> bool" where
  "clock_ok E \<longleftrightarrow> mono (env_utc E) \<and> chrono_minutes (env_minutes E)"

definition stores_ok :: "Env \<Rightarrow> DhtHandler \<Rightarrow> bool" where
  "stores_ok E h \<longleftrightarrow> (clock_ok E \<longrightarrow>
     store_wf (env_utc E (dh_ticks h)) (active_stores h) \<and> last_refresh (token_store h) \<le> env_utc E (dh_ticks h))"

lemma stores_ok_later:
  assumes "stores_ok E h" and "active_stores h' = active_stores h" and "token_store h' = token_store h" and "dh_ticks h \<le> dh_ticks h'"
  shows "stores_ok E h'"
proof -
  have "env_utc E (dh_ticks h) \<le> env_utc E (dh_ticks h')" if "clock_ok E" using that assms(4) by (simp add: clock_ok_def mono_def)
  with assms(1-3) store_wf_later show ?thesis by (fastforce simp: stores_ok_def)
qed

lemma stores_ok_sel [simp]:
  "stores_ok E (h\<lparr>table_actions := x1\<rparr>) = stores_ok E h" "stores_ok E (h\<lparr>future_actions := x2\<rparr>) = stores_ok E h"
  "stores_ok E (h\<lparr>dh_status := x3\<rparr>) = stores_ok E h" "stores_ok E (h\<lparr>event_notifiers := x4\<rparr>) = stores_ok E h"
  "stores_ok E (h\<lparr>status_tx := x5\<rparr>) = stores_ok E h" "stores_ok E (h\<lparr>aid_generator := x6\<rparr>) = stores_ok E h"
  by (simp_all add: stores_ok_def)

lemma stores_ok_worker: "stores_ok E h \<Longrightarrow> keeps_tasks P A (dh_worker h) w \<Longrightarrow> stores_ok E (h\<lparr>dh_worker := w\<rparr>)"
  using stores_ok_later [of E h "h\<lparr>dh_worker := w\<rparr>"] by (simp add: keeps_tasks_def)

definition handler_wf :: "Env \<Rightarrow> SocketAddr set \<Rightarrow> DhtHandler \<Rightarrow> bool" where
  "handler_wf E A h \<longleftrightarrow> rt_wf (dh_table h) \<and> table_addrs (dh_table h) \<subseteq> A \<and> stores_ok E h \<and> aid_ok (aid_generator h) \<and>
     (\<forall>aid act. table_actions h aid = Some act \<longrightarrow> action_wf aid act) \<and> (\<forall>p\<in>set (future_actions h). post_wf p)"

text \<open>All actions but \<open>aid\<close> wait; and all of them.\<close>

definition live_but :: "u64 option \<Rightarrow> DhtHandler \<Rightarrow> bool" where
  "live_but but h \<longleftrightarrow> (in_time (dh_worker h) \<longrightarrow> worker_ok (dh_worker h) \<and>
     (dh_status h \<noteq> DhtFail \<longrightarrow>
        (\<forall>aid act. Some aid \<noteq> but \<longrightarrow> table_actions h aid = Some act \<longrightarrow> action_waits aid act (dh_worker h))))"

abbreviation all_live :: "DhtHandler \<Rightarrow> bool" where
  "all_live \<equiv> live_but None"

definition handler_ok :: "Env \<Rightarrow> SocketAddr set \<Rightarrow> DhtHandler \<Rightarrow> bool" where
  "handler_ok E A h \<longleftrightarrow> handler_wf E A h \<and> all_live h"

text \<open>What is pending for an action survives the steps of another one.\<close>

lemma action_waits_steps:
  assumes "action_waits aid act w" and "keeps_tasks (\<lambda>v. action_id (task_id v) \<noteq> aid') A w w'" and "aid \<noteq> aid'" and "worker_ok w" and "in_time w'"
  shows "action_waits aid act w'"
proof -
  have keep: "task_at w k = Some v \<Longrightarrow> action_id (task_id v) = aid \<Longrightarrow> task_at w' k = Some v" for k v
    using keeps_pending [OF assms(2,4,5)] assms(3) by simp
  show ?thesis
  proof (cases act)
    case (ActLookup l)
    with assms(1) keep show ?thesis
      by (force simp: lookup_ok_def lookup_waits_def split: if_splits)
  next
    case (ActRefresh r)
    with assms(1) keep show ?thesis by force
  next
    case (ActBootstrap b n)
    with assms(1) keep show ?thesis by (force simp: bootstrap_ok_def bootstrap_waits_def)
  qed
qed

lemma action_waits_grows:
  assumes "action_waits aid act w" and "keeps_tasks (\<lambda>_. True) A w w'" and "worker_ok w" and "in_time w'"
  shows "action_waits aid act w'"
  by (rule action_waits_steps [OF assms(1) keeps_weaken [OF assms(2)], of "aid + 1"]) (use assms in simp_all)

lemma live_move:
  assumes "live_but but h" and "keeps_tasks (\<lambda>_. False) {} (dh_worker h) w'" and "but = None \<or> but = Some aid"
    and "in_time (dh_worker h) \<Longrightarrow> worker_ok (dh_worker h) \<Longrightarrow> dh_status h \<noteq> DhtFail \<Longrightarrow> steps aid (dh_worker h) w'"
  shows "live_but (Some aid) (h\<lparr>dh_worker := w'\<rparr>)"
proof -
  have "worker_ok w' \<and> (dh_status h \<noteq> DhtFail \<longrightarrow>
      (\<forall>a act. Some a \<noteq> Some aid \<longrightarrow> table_actions h a = Some act \<longrightarrow> action_waits a act w'))" if t: "in_time w'"
  proof -
    have t0: "in_time (dh_worker h)" by (rule keeps_in_time [OF assms(2) t])
    with assms(1) have w: "worker_ok (dh_worker h)" by (simp add: live_but_def)
    have "worker_ok w'" by (rule keeps_worker_ok [OF assms(2) w t])
    moreover have "action_waits a act w'" if "dh_status h \<noteq> DhtFail" "a \<noteq> aid" "table_actions h a = Some act" for a act
    proof -
      have "action_waits a act (dh_worker h)" using assms(1,3) that t0 by (auto simp: live_but_def)
      from action_waits_steps [OF this assms(4) [OF t0 w that(1)] that(2) w t] show ?thesis .
    qed
    ultimately show ?thesis by auto
  qed
  then show ?thesis by (simp add: live_but_def)
qed

lemma live_grows:
  "live_but but h \<Longrightarrow> grows (dh_worker h) w' \<Longrightarrow> but = None \<or> but = Some aid \<Longrightarrow> live_but (Some aid) (h\<lparr>dh_worker := w'\<rparr>)"
  by (rule live_move) (auto intro: grows_keeps)

lemma live_butI:
  assumes "live_but (Some aid) h" and "\<And>act. in_time (dh_worker h) \<Longrightarrow> worker_ok (dh_worker h) \<Longrightarrow> dh_status h \<noteq> DhtFail \<Longrightarrow>
      table_actions h aid = Some act \<Longrightarrow> action_waits aid act (dh_worker h)"
  shows "all_live h"
  using assms unfolding live_but_def by (metis option.inject)

lemma live_but_live: "all_live h \<Longrightarrow> live_but but h"
  by (auto simp: live_but_def)

lemma live_set_action:
  assumes "live_but (Some aid) h"
    and "in_time (dh_worker h) \<Longrightarrow> worker_ok (dh_worker h) \<Longrightarrow> dh_status h \<noteq> DhtFail \<Longrightarrow> \<forall>a. act = Some a \<longrightarrow> action_waits aid a (dh_worker h)"
  shows "all_live (set_action aid act h)"
  using assms by (auto simp: live_but_def set_action_def)

lemma handler_wf_set_action:
  "handler_wf E A h \<Longrightarrow> (\<And>a. act = Some a \<Longrightarrow> action_wf aid a) \<Longrightarrow> handler_wf E A (set_action aid act h)"
  by (auto simp: handler_wf_def set_action_def)

lemma remove_action_ok: "handler_wf E A h \<Longrightarrow> live_but (Some aid) h \<Longrightarrow> handler_ok E A (set_action aid None h)"
  unfolding handler_ok_def by (intro conjI handler_wf_set_action live_set_action) simp_all

lemma keeps_table_addrs:
  "keeps_tasks P A w w' \<Longrightarrow> table_addrs (w_table w) \<subseteq> A \<Longrightarrow> table_addrs (w_table w') \<subseteq> A"
  using keeps_addrs [of P A w w'] by blast

lemma handler_wf_worker: "handler_wf E A h \<Longrightarrow> keeps_tasks P A (dh_worker h) w \<Longrightarrow> handler_wf E A (h\<lparr>dh_worker := w\<rparr>)"
  using keeps_table_addrs [of P A "dh_worker h" w] keeps_table [of P A "dh_worker h" w] stores_ok_worker [of E h P A w]
  by (simp add: handler_wf_def)

section \<open>Steps that change no action\<close>

definition quiet :: "Env \<Rightarrow> SocketAddr set \<Rightarrow> DhtHandler \<Rightarrow> DhtHandler \<Rightarrow> bool" where
  "quiet E A h h' \<longleftrightarrow> table_actions h' = table_actions h \<and> aid_generator h' = aid_generator h \<and>
     future_actions h' = future_actions h \<and> keeps_tasks (\<lambda>_. True) A (dh_worker h) (dh_worker h') \<and>
     (dh_status h' = dh_status h \<or> dh_status h' = DhtFail) \<and> (stores_ok E h \<longrightarrow> stores_ok E h')"

lemma quietI:
  assumes "keeps_tasks (\<lambda>_. True) A (dh_worker h) (dh_worker h')" and "table_actions h' = table_actions h"
    and "aid_generator h' = aid_generator h" and "future_actions h' = future_actions h"
    and "dh_status h' = dh_status h \<or> dh_status h' = DhtFail" and "active_stores h' = active_stores h" and "token_store h' = token_store h"
  shows "quiet E A h h'"
  using assms stores_ok_later [of E h h'] by (simp add: quiet_def keeps_tasks_def)

lemma quiet_refl [simp]: "quiet E A h h"
  by (simp add: quiet_def)

lemma quiet_trans [trans]: "quiet E A h h1 \<Longrightarrow> quiet E A h1 h2 \<Longrightarrow> quiet E A h h2"
  unfolding quiet_def using keeps_trans by metis

lemma quiet_live:
  assumes "live_but but h" and "quiet E A h h'"
  shows "live_but but h'"
proof -
  have g: "keeps_tasks (\<lambda>_. True) A (dh_worker h) (dh_worker h')" using assms(2) by (simp add: quiet_def)
  have "worker_ok (dh_worker h') \<and> (dh_status h' \<noteq> DhtFail \<longrightarrow>
      (\<forall>a act. Some a \<noteq> but \<longrightarrow> table_actions h' a = Some act \<longrightarrow> action_waits a act (dh_worker h')))" if t: "in_time (dh_worker h')"
  proof -
    have t0: "in_time (dh_worker h)" by (rule keeps_in_time [OF g t])
    with assms(1) have w: "worker_ok (dh_worker h)" by (simp add: live_but_def)
    with keeps_worker_ok [OF g w t] action_waits_grows [OF _ g w t] assms t0 show ?thesis
      by (auto simp: live_but_def quiet_def)
  qed
  then show ?thesis by (simp add: live_but_def)
qed

lemma quiet_wf: "handler_wf E A h \<Longrightarrow> quiet E A h h' \<Longrightarrow> handler_wf E A h'"
  using keeps_table_addrs [of "\<lambda>_. True" A "dh_worker h" "dh_worker h'"] keeps_table [of "\<lambda>_. True" A "dh_worker h" "dh_worker h'"]
  by (simp add: handler_wf_def quiet_def)

lemma quiet_ok: "handler_ok E A h \<Longrightarrow> quiet E A h h' \<Longrightarrow> handler_ok E A h'"
  by (auto simp: handler_ok_def intro: quiet_live quiet_wf)

lemma quiet_tick [simp]: "quiet E A h (dh_tick h)"
  by (rule quietI) (simp_all add: dh_tick_def grows_keeps [OF grows_tick_only])

lemma quiet_notify_loop: "notify_loop E ev ns h = (kept, h') \<Longrightarrow> quiet E A h h'"
proof (induction ns arbitrary: h kept)
  case (Cons n ns)
  define h1 where "h1 = dh_tick (if env_takes E (EventChannel n) (dh_ticks h) then h\<lparr>dh_events := dh_events h @ [(n, ev)]\<rparr> else h)"
  obtain k where "notify_loop E ev ns h1 = (k, h')" using Cons.prems
    by (cases "notify_loop E ev ns h1") (auto simp: h1_def Let_def split: if_splits)
  then have "quiet E A h1 h'" by (rule Cons.IH)
  moreover have "quiet E A h h1" by (rule quietI) (simp_all add: h1_def dh_tick_def grows_keeps [OF grows_tick_only])
  ultimately show ?case by (rule quiet_trans [rotated])
qed simp

lemma quiet_broadcast: "quiet E A h (broadcast_dht_event E ev h)"
  using quiet_notify_loop [of E ev "event_notifiers h" h]
  by (cases "notify_loop E ev (event_notifiers h) h") (simp add: broadcast_dht_event_def quiet_def)

definition clients_listen :: "Env \<Rightarrow> bool" where
  "clients_listen E \<longleftrightarrow> (\<forall>tx t. env_takes E (StatusChannel tx) t \<and> env_takes E (ValuesChannel tx) t)"

lemma quiet_send_status: "\<not> clients_listen E \<longrightarrow> P \<Longrightarrow> handles P (send_status E v tx h) (quiet E A h)"
  by (auto simp: send_status_def clients_listen_def dh_tick_def grows_keeps [OF grows_tick_only] intro!: quietI)

lemma quiet_status_loop: "\<not> clients_listen E \<longrightarrow> P \<Longrightarrow> handles P (status_loop E v txs h) (quiet E A h)"
proof (induction txs arbitrary: h)
  case Nil
  then show ?case by (simp add: quiet_def)
next
  case (Cons tx txs)
  show ?case
    unfolding status_loop.simps
    by (rule handles_bind [OF quiet_send_status [OF Cons.prems]]) (rule handles_mono [OF Cons.IH [OF Cons.prems]], rule quiet_trans)
qed

lemma quiet_shutdown:
  assumes "\<not> clients_listen E \<longrightarrow> P"
  shows "handles P (handle_command_shutdown E cause h) (\<lambda>h'. quiet E A h h' \<and> dh_status h' = DhtFail)"
  unfolding handle_command_shutdown_def
proof (rule handles_bind [OF quiet_status_loop [OF assms]])
  fix h1 assume "quiet E A h h1"
  also have "quiet E A h1 (broadcast_dht_event E (EvShuttingDown cause) h1)" by (rule quiet_broadcast)
  also have "quiet E A \<dots> (shutdown \<dots>)" by (simp add: quiet_def shutdown_def)
  finally show "handles P (Ok (shutdown (broadcast_dht_event E (EvShuttingDown cause) h1))) (\<lambda>h'. quiet E A h h' \<and> dh_status h' = DhtFail)"
    by (simp add: shutdown_def)
qed

text \<open>After a shutdown only the shape of the state matters.\<close>

lemma shutdown_ok:
  assumes "\<not> clients_listen E \<longrightarrow> P" and "handler_wf E A h" and "in_time (dh_worker h) \<Longrightarrow> worker_ok (dh_worker h)"
  shows "handles P (handle_command_shutdown E cause h) (handler_ok E A)"
proof (rule handles_mono [OF quiet_shutdown [OF assms(1)]])
  fix h' assume h': "quiet E A h h' \<and> dh_status h' = DhtFail"
  then have g: "keeps_tasks (\<lambda>_. True) A (dh_worker h) (dh_worker h')" by (simp add: quiet_def)
  have "worker_ok (dh_worker h')" if "in_time (dh_worker h')"
    using keeps_worker_ok [OF g assms(3) [OF keeps_in_time [OF g that]] that] .
  with h' quiet_wf [OF assms(2)] show "handler_ok E A h'" by (simp add: handler_ok_def live_but_def)
qed

lemma live_worker_ok: "live_but but h \<Longrightarrow> in_time (dh_worker h) \<Longrightarrow> worker_ok (dh_worker h)"
  by (simp add: live_but_def)

lemma quiet_respond: "\<not> clients_listen E \<longrightarrow> P \<Longrightarrow> handles P (respond E msg addr h) (quiet E A h)"
proof -
  assume P: "\<not> clients_listen E \<longrightarrow> P"
  obtain sent w where s: "w_send E (msg, addr) (dh_worker h) = (sent, w)" by (cases "w_send E (msg, addr) (dh_worker h)")
  have q: "quiet E A h (h\<lparr>dh_worker := w\<rparr>)" by (rule quietI) (simp_all add: grows_keeps [OF grows_send [OF s]])
  show ?thesis
  proof (cases sent)
    case True
    with s q show ?thesis by (simp add: respond_def)
  next
    case False
    have "handles P (handle_command_shutdown E Unspecified (h\<lparr>dh_worker := w\<rparr>)) (quiet E A h)"
      by (rule handles_mono [OF quiet_shutdown [OF P]]) (blast intro: quiet_trans [OF q])
    with False s show ?thesis by (simp add: respond_def)
  qed
qed

lemma remote_request_sel [simp]: "handle (remote_request now n) = handle n" "last_response (remote_request now n) = last_response n"
  by (simp_all add: remote_request_def)

lemma quiet_remote_request: "quiet E A h (dh_remote_request E nid addr h)"
proof -
  have "keeps_tasks (\<lambda>_. True) A (dh_worker h) (tick ((dh_worker h)\<lparr>w_table := with_node_mut now x (remote_request now) (dh_table h)\<rparr>))" for now x
    using with_node_mut_addrs [of "remote_request now" now x "dh_table h"]
    by (intro keeps_tick) (auto simp: tick_def with_node_mut_wf)
  then show ?thesis unfolding dh_remote_request_def Let_def by (intro quietI) (simp_all add: dh_tick_def)
qed

lemma add_node_total:
  assumes "rt_wf t"
  shows "\<exists>t'. add_node now n t = Ok t' \<and> rt_wf t' \<and> rt_node_id t' = rt_node_id t"
proof (cases "status now n = Bad \<or> same_bits t n = MAX_BUCKETS")
  case True
  with assms show ?thesis by (auto simp: add_node_def add_node_with_def same_bits_def)
next
  case False
  with add_node_ok [OF assms, of n now] show ?thesis by (auto simp: add_node_result_def)
qed

definition v4_all :: "SocketAddr set \<Rightarrow> bool" where
  "v4_all A \<longleftrightarrow> range SockV4 \<subseteq> A"

lemma quiet_add_node:
  assumes "rt_wf (dh_table h)" and A: "node_addr n \<in> A" "v4_all A"
  shows "handles P (dh_add_node E n h) (\<lambda>h'. quiet E A h h' \<and> rt_wf (dh_table h') \<and> dh_status h' = dh_status h)"
proof -
  from add_node_total [OF assms(1), of "dh_now E h" n] obtain t where
    t: "add_node (dh_now E h) n (dh_table h) = Ok t" "rt_wf t" "rt_node_id t = rt_node_id (dh_table h)" by blast
  have "placeholder_addr \<in> A" using A(2) by (auto simp: v4_all_def placeholder_addr_def)
  with add_node_addrs [OF t(1)] A(1) have "keeps_tasks (\<lambda>_. True) A (dh_worker h) (tick ((dh_worker h)\<lparr>w_table := t\<rparr>))"
    by (intro keeps_tick) (auto simp: tick_def t)
  then have "quiet E A h (dh_tick (h\<lparr>dh_worker := (dh_worker h)\<lparr>w_table := t\<rparr>\<rparr>))"
    by (intro quietI) (simp_all add: dh_tick_def)
  with t show ?thesis by (simp add: dh_add_node_def dh_tick_def tick_def)
qed

lemma node_addr_as [simp]: "node_addr (as_good now nid addr) = addr" "node_addr (as_questionable now nid addr) = addr"
  by (simp_all add: node_addr_def as_good_def as_questionable_def)

lemma quiet_payload:
  "rt_wf (dh_table h) \<Longrightarrow> v4_all A \<Longrightarrow>
   handles P (add_payload_nodes E ns h) (\<lambda>h'. quiet E A h h' \<and> rt_wf (dh_table h') \<and> dh_status h' = dh_status h)"
proof (induction ns arbitrary: h)
  case (Cons p ns)
  obtain nid v4 where p: "p = (nid, v4)" by (cases p)
  have "node_addr (as_questionable (dh_now E h) nid (SockV4 v4)) \<in> A" using Cons.prems(2) by (auto simp: v4_all_def)
  from quiet_add_node [OF Cons.prems(1) this Cons.prems(2)] show ?case
    unfolding p add_payload_nodes.simps
    by (rule handles_bind) (rule handles_mono [OF Cons.IH], use Cons.prems in \<open>auto intro: quiet_trans\<close>)
qed simp

section \<open>Actions\<close>

lemma mid_generator_action_id_ok: "mid_ok aid m \<Longrightarrow> unat aid < 2 ^ 40 \<Longrightarrow> mid_generator_action_id m = aid"
  using action_of_composed [of aid 0] by (simp add: mid_generator_action_id_def mid_ok_def)

lemma dh_generate_ok:
  assumes gen: "dh_generate E h = (g, h')" and h: "handler_wf E A h"
  obtains aid where "mid_ok aid g" "unat aid < 2 ^ 40" "mid_generator_action_id g = aid" "handler_wf E A h'"
    "\<And>but. live_but but h \<Longrightarrow> live_but but h'" "dh_status h' = dh_status h" "dh_table h' = dh_table h"
proof -
  obtain ag where ag: "aid_generate (env_rnd E (dh_ticks h)) (aid_generator h) = (g, ag)" "h' = dh_tick (h\<lparr>aid_generator := ag\<rparr>)"
    using gen by (auto simp: dh_generate_def split: prod.splits)
  from h have "aid_ok (aid_generator h)" by (simp add: handler_wf_def)
  from aid_generate_ok [OF this ag(1)] obtain aid where aid: "aid_ok ag" "unat aid < 2 ^ 40" "mid_ok aid g" by blast
  have "handler_wf E A (h\<lparr>aid_generator := ag\<rparr>)" using h aid(1) by (simp add: handler_wf_def)
  then have "handler_wf E A h'" unfolding ag(2) by (rule quiet_wf) (rule quiet_tick)
  moreover have "live_but but h'" if "live_but but h" for but
    unfolding ag(2) by (rule quiet_live [OF _ quiet_tick]) (use that in \<open>simp add: live_but_def\<close>)
  ultimately show thesis
    using aid by (intro that [of aid]) (simp_all add: ag(2) dh_tick_def tick_def mid_generator_action_id_ok)
qed

lemma handle_start_lookup_ok:
  assumes P: "\<not> clients_listen E \<longrightarrow> P" and h: "handler_ok E A h"
  shows "handles P (handle_start_lookup E info_hash should_announce tx h) (handler_ok E A)"
proof -
  obtain g h1 where gen: "dh_generate E h = (g, h1)" by (cases "dh_generate E h")
  from h have wf: "handler_wf E A h" "all_live h" by (simp_all add: handler_ok_def)
  from dh_generate_ok [OF gen wf(1)] wf(2) obtain aid where
    aid: "mid_ok aid g" "unat aid < 2 ^ 40" "mid_generator_action_id g = aid" and wf1: "handler_wf E A h1" and live1: "all_live h1" by blast
  show ?thesis
  proof (cases "dh_status h1 = DhtCompleted")
    case False
    then show ?thesis using wf1 live1
      by (simp add: handle_start_lookup_def gen handler_ok_def handler_wf_def live_but_def)
  next
    case True
    obtain ol w where new: "table_lookup_new E (rt_node_id (dh_table h1)) info_hash g should_announce tx (dh_worker h1) = (ol, w)"
      by (cases "table_lookup_new E (rt_node_id (dh_table h1)) info_hash g should_announce tx (dh_worker h1)")
    note ok = table_lookup_new_ok [OF new aid(1,2)]
    have wf2: "handler_wf E A (h1\<lparr>dh_worker := w\<rparr>)"
      using handler_wf_worker [OF wf1 grows_keeps] ok by blast
    have live2: "live_but (Some aid) (h1\<lparr>dh_worker := w\<rparr>)" using live_grows [OF live1] ok by blast
    show ?thesis
    proof (cases ol)
      case None
      have "handles P (handle_command_shutdown E Unspecified (h1\<lparr>dh_worker := w\<rparr>)) (handler_ok E A)"
        by (rule shutdown_ok [OF P wf2]) (rule live_worker_ok [OF live2])
      with None True new show ?thesis by (simp add: handle_start_lookup_def gen)
    next
      case (Some l)
      have "action_waits aid (ActLookup l) w" if "in_time w" "worker_ok w"
      proof -
        have "worker_ok (dh_worker h1)" using live_worker_ok [OF live1] keeps_in_time ok that(1) by blast
        with ok Some that show ?thesis by simp
      qed
      then have "all_live (set_action aid (Some (ActLookup l)) (h1\<lparr>dh_worker := w\<rparr>))" by (intro live_set_action [OF live2]) simp
      moreover have "handler_wf E A (set_action aid (Some (ActLookup l)) (h1\<lparr>dh_worker := w\<rparr>))"
        by (rule handler_wf_set_action [OF wf2]) (use ok Some in auto)
      ultimately show ?thesis using Some True new aid(3) by (simp add: handle_start_lookup_def gen handler_ok_def)
    qed
  qed
qed

lemma handle_check_table_refresh_ok:
  assumes P: "\<not> clients_listen E \<longrightarrow> P" and h: "handler_wf E A h" "live_but (Some (action_id tid)) h"
    and others: "\<And>act. table_actions h (action_id tid) = Some act \<Longrightarrow> \<forall>r. act \<noteq> ActRefresh r \<Longrightarrow> in_time (dh_worker h) \<Longrightarrow>
      dh_status h \<noteq> DhtFail \<Longrightarrow> action_waits (action_id tid) act (dh_worker h)"
  shows "handles P (handle_check_table_refresh E tid h) (handler_ok E A)"
proof (cases "\<exists>r. table_actions h (action_id tid) = Some (ActRefresh r)")
  case False
  have "all_live h" by (rule live_butI [OF h(2)]) (use False others in auto)
  then have "handler_ok E A h" using h(1) by (simp add: handler_ok_def)
  moreover have "handle_check_table_refresh E tid h = Ok h"
    using False by (auto simp: handle_check_table_refresh_def split: option.split TableAction.split)
  ultimately show ?thesis by simp
next
  case True
  then obtain r where r: "table_actions h (action_id tid) = Some (ActRefresh r)" by blast
  with h(1) have "action_wf (action_id tid) (ActRefresh r)" and t: "rt_wf (dh_table h)" unfolding handler_wf_def by blast+
  then have "refresh_wf (action_id tid) r" by simp
  from continue_refresh_ok [OF t this, of E] obtain st r' w where
    go: "continue_refresh E r (dh_worker h) = Ok (st, r', w)" "grows (dh_worker h) w" "refresh_wf (action_id tid) r'"
    "st \<noteq> RefreshFailed \<longrightarrow> worker_ok (dh_worker h) \<longrightarrow> in_time w \<longrightarrow>
       (\<exists>k t. task_at w k = Some (CheckTableRefresh t) \<and> action_id t = action_id tid)" by blast
  let ?h = "set_action (action_id tid) (Some (ActRefresh r')) (h\<lparr>dh_worker := w\<rparr>)"
  have live2: "live_but (Some (action_id tid)) (h\<lparr>dh_worker := w\<rparr>)" using live_grows [OF h(2) go(2)] by blast
  have wf2: "handler_wf E A ?h"
    by (rule handler_wf_set_action [OF handler_wf_worker [OF h(1) grows_keeps [OF go(2)]]]) (use go in auto)
  show ?thesis
  proof (cases "st = RefreshFailed")
    case True
    have "handles P (handle_command_shutdown E Unspecified ?h) (handler_ok E A)"
      by (rule shutdown_ok [OF P wf2]) (use live_worker_ok [OF live2] in \<open>simp add: set_action_def\<close>)
    with True go r show ?thesis by (simp add: handle_check_table_refresh_def)
  next
    case False
    have "all_live ?h"
    proof (rule live_set_action [OF live2])
      assume "in_time (dh_worker (h\<lparr>dh_worker := w\<rparr>))"
      then have "in_time w" by simp
      with False go live_worker_ok [OF h(2)] keeps_in_time [OF go(2)]
      show "\<forall>a. Some (ActRefresh r') = Some a \<longrightarrow> action_waits (action_id tid) a (dh_worker (h\<lparr>dh_worker := w\<rparr>))" by auto
    qed
    with False go r wf2 show ?thesis by (simp add: handle_check_table_refresh_def handler_ok_def)
  qed
qed

lemma post_loop_ok:
  "\<not> clients_listen E \<longrightarrow> P \<Longrightarrow> handler_ok E A h \<Longrightarrow> \<forall>p\<in>set ps. post_wf p \<Longrightarrow> handles P (post_loop E ps h) (handler_ok E A)"
proof (induction ps arbitrary: h)
  case (Cons p ps)
  show ?case
  proof (cases p)
    case (PostLookup info announce tx)
    with Cons show ?thesis by (auto intro!: handles_bind [OF handle_start_lookup_ok])
  next
    case (PostRefresh r tid)
    let ?h = "set_action (action_id tid) (Some (ActRefresh r)) h"
    have "handler_wf E A ?h" using Cons.prems PostRefresh by (intro handler_wf_set_action) (auto simp: handler_ok_def)
    moreover have "live_but (Some (action_id tid)) ?h" using Cons.prems(2) by (auto simp: handler_ok_def live_but_def set_action_def)
    ultimately have "handles P (handle_check_table_refresh E tid ?h) (handler_ok E A)"
      by (rule handle_check_table_refresh_ok [OF Cons.prems(1)]) (simp add: set_action_def)
    then show ?thesis
      unfolding PostRefresh post_loop.simps by (rule handles_bind) (use Cons in auto)
  qed
qed simp

section \<open>Bootstraps\<close>

lemma handle_start_bootstrap_ok:
  assumes P: "\<not> clients_listen E \<longrightarrow> P" and h: "handler_ok E A h" "dh_status h \<noteq> DhtFail"
  shows "handles P (handle_start_bootstrap E routers ns h) (handler_ok E A)"
proof -
  obtain g h1 where gen: "dh_generate E h = (g, h1)" by (cases "dh_generate E h")
  from h have wf: "handler_wf E A h" "all_live h" by (simp_all add: handler_ok_def)
  from dh_generate_ok [OF gen wf(1)] wf(2) h(2) obtain aid where
    aid: "mid_ok aid g" "unat aid < 2 ^ 40" "mid_generator_action_id g = aid" and wf1: "handler_wf E A h1" and live1: "all_live h1"
    and st1: "dh_status h1 \<noteq> DhtFail" by metis
  define h2 where "h2 = (if dh_status (dh_tick h1) \<noteq> DhtCompleted then (dh_tick h1)\<lparr>dh_status := DhtBootstrapping\<rparr> else dh_tick h1)"
  have "handler_wf E A (dh_tick h1)" "all_live (dh_tick h1)" using quiet_wf [OF wf1 quiet_tick] quiet_live [OF live1 quiet_tick] .
  then have h2: "handler_wf E A h2" "all_live h2" using st1 by (auto simp: h2_def handler_wf_def live_but_def dh_tick_def)
  define b where "b = table_bootstrap_new (rt_node_id (dh_table (dh_tick h1))) g ns
    (map SockV4 (List.map_filter (router_ipv4_addr E (dh_ticks h1)) routers))"
  have "sha_wf (rt_node_id (dh_table (dh_tick h1)))" using \<open>handler_wf E A (dh_tick h1)\<close> by (simp add: handler_wf_def rt_wf_def)
  then have b: "bootstrap_wf aid b" using aid by (simp add: b_def table_bootstrap_new_def bootstrap_wf_def)
  obtain st b' w where start: "start_bootstrap E b (dh_worker h2) = (st, b', w)" by (cases "start_bootstrap E b (dh_worker h2)")
  note ok = start_bootstrap_wf [OF start b]
  have wf3: "handler_wf E A (h2\<lparr>dh_worker := w\<rparr>)" using handler_wf_worker [OF h2(1) grows_keeps] ok by blast
  have live3: "live_but (Some aid) (h2\<lparr>dh_worker := w\<rparr>)" using live_grows [OF h2(2)] ok by blast
  have run: "handle_start_bootstrap E routers ns h =
    (if st = BootstrapFailed then handle_command_shutdown E Unspecified (h2\<lparr>dh_worker := w\<rparr>)
     else Ok (set_action aid (Some (ActBootstrap b' 0)) (h2\<lparr>dh_worker := w\<rparr>)))"
    using start by (simp add: handle_start_bootstrap_def gen Let_def aid(3) b_def [symmetric] h2_def [symmetric])
  show ?thesis
  proof (cases "st = BootstrapFailed")
    case True
    have "handles P (handle_command_shutdown E Unspecified (h2\<lparr>dh_worker := w\<rparr>)) (handler_ok E A)"
      by (rule shutdown_ok [OF P wf3]) (rule live_worker_ok [OF live3])
    with True run show ?thesis by simp
  next
    case False
    have "all_live (set_action aid (Some (ActBootstrap b' 0)) (h2\<lparr>dh_worker := w\<rparr>))"
    proof (rule live_set_action [OF live3])
      assume "in_time (dh_worker (h2\<lparr>dh_worker := w\<rparr>))"
      then have t: "in_time w" by simp
      have "worker_ok (dh_worker h2)" using live_worker_ok [OF h2(2)] keeps_in_time [OF _ t] ok by blast
      from start_bootstrap_ok [OF start b this t]
      show "\<forall>a. Some (ActBootstrap b' 0) = Some a \<longrightarrow> action_waits aid a (dh_worker (h2\<lparr>dh_worker := w\<rparr>))"
        by (simp add: bootstrap_ok_def)
    qed
    moreover have "handler_wf E A (set_action aid (Some (ActBootstrap b' 0)) (h2\<lparr>dh_worker := w\<rparr>))"
      by (rule handler_wf_set_action [OF wf3]) (use ok in \<open>auto simp: MAX_BOOTSTRAP_ATTEMPTS_def\<close>)
    ultimately show ?thesis using False run by (simp add: handler_ok_def)
  qed
qed

lemma attempt_rebootstrap_ok:
  assumes P: "\<not> clients_listen E \<longrightarrow> P" and h: "handler_ok E A h" "dh_status h \<noteq> DhtFail" and b: "bootstrap_wf (action_id tid) b"
  shows "handles P (attempt_rebootstrap E b attempts tid h) (\<lambda>(r, h'). handler_ok E A h' \<and> (r = Some True \<longrightarrow> dh_status h' \<noteq> DhtFail))"
proof -
  from h have wf: "handler_wf E A h" "all_live h" by (simp_all add: handler_ok_def)
  have tick: "handler_ok E A (dh_tick h)" "dh_status (dh_tick h) \<noteq> DhtFail" using quiet_ok [OF h(1) quiet_tick] h(2) by (simp_all add: dh_tick_def)
  have none: "handles P (try_bind (handle_command_shutdown E cause x) (\<lambda>h. Ok (None, h)))
      (\<lambda>(r, h'). handler_ok E A h' \<and> (r = Some True \<longrightarrow> dh_status h' \<noteq> DhtFail))"
    if "handler_wf E A x" "in_time (dh_worker x) \<Longrightarrow> worker_ok (dh_worker x)" for cause x
    by (rule handles_bind [OF shutdown_ok [OF P that]]) (simp_all add: handles_def)
  show ?thesis
  proof (cases "attempts + 1 \<ge> MAX_BOOTSTRAP_ATTEMPTS")
    case True
    have "handles P (try_bind (handle_command_shutdown E BootstrapFailedCause (dh_tick h)) (\<lambda>h. Ok (None, h)))
      (\<lambda>(r, h'). handler_ok E A h' \<and> (r = Some True \<longrightarrow> dh_status h' \<noteq> DhtFail))"
      by (rule none) (use tick in \<open>auto simp: handler_ok_def live_but_def\<close>)
    with True tick show ?thesis by (simp add: attempt_rebootstrap_def Let_def)
  next
    case False
    obtain st b' w where start: "start_bootstrap E b (dh_worker h) = (st, b', w)" by (cases "start_bootstrap E b (dh_worker h)")
    note ok = start_bootstrap_wf [OF start b]
    let ?h = "set_action (action_id tid) (Some (ActBootstrap b' (attempts + 1))) (h\<lparr>dh_worker := w\<rparr>)"
    have live3: "live_but (Some (action_id tid)) (h\<lparr>dh_worker := w\<rparr>)" using live_grows [OF wf(2)] ok by blast
    have wf3: "handler_wf E A ?h" by (rule handler_wf_set_action) (use handler_wf_worker [OF wf(1) grows_keeps] ok False in auto)
    have "all_live ?h"
    proof (rule live_set_action [OF live3])
      assume "in_time (dh_worker (h\<lparr>dh_worker := w\<rparr>))"
      then have t: "in_time w" by simp
      have "worker_ok (dh_worker h)" using live_worker_ok [OF wf(2)] keeps_in_time [OF _ t] ok by blast
      from start_bootstrap_ok [OF start b this t]
      show "\<forall>a. Some (ActBootstrap b' (attempts + 1)) = Some a \<longrightarrow> action_waits (action_id tid) a (dh_worker (h\<lparr>dh_worker := w\<rparr>))"
        by (simp add: bootstrap_ok_def)
    qed
    with wf3 have okh: "handler_ok E A ?h" by (simp add: handler_ok_def)
    have "handles P (try_bind (handle_command_shutdown E Unspecified ?h) (\<lambda>h. Ok (None, h)))
      (\<lambda>(r, h'). handler_ok E A h' \<and> (r = Some True \<longrightarrow> dh_status h' \<noteq> DhtFail))"
      by (rule none [OF wf3]) (use okh in \<open>simp add: handler_ok_def live_but_def\<close>)
    with False okh start show ?thesis by (simp add: attempt_rebootstrap_def Let_def)
  qed
qed

lemma broadcast_bootstrap_completed_ok:
  assumes P: "\<not> clients_listen E \<longrightarrow> P" and h: "handler_wf E A h" "live_but (Some aid) h" "dh_status h \<noteq> DhtFail"
  shows "handles P (broadcast_bootstrap_completed E aid h) (handler_ok E A)"
  unfolding broadcast_bootstrap_completed_def Let_def
proof (rule handles_bind [OF quiet_status_loop [OF P]])
  let ?h = "h\<lparr>dh_status := DhtCompleted\<rparr>"
  fix h1 assume "quiet E A ?h h1"
  then have "quiet E A ?h (broadcast_dht_event E EvBootstrapCompleted h1)" (is "quiet E A _ ?h1") using quiet_broadcast by (rule quiet_trans)
  moreover have "handler_wf E A ?h" "live_but (Some aid) ?h" using h by (simp_all add: handler_wf_def live_but_def)
  ultimately have h1: "handler_wf E A ?h1" "live_but (Some aid) ?h1" by (blast intro: quiet_wf quiet_live)+
  let ?h2 = "set_action aid None ?h1"
  have "handler_ok E A ?h2" by (rule remove_action_ok [OF h1])
  then have "handler_ok E A (?h2\<lparr>future_actions := []\<rparr>)" "\<forall>p\<in>set (future_actions ?h2). post_wf p"
    by (simp_all add: handler_ok_def handler_wf_def live_but_def)
  then show "handles P (post_loop E (future_actions ?h2) (?h2\<lparr>future_actions := []\<rparr>)) (handler_ok E A)"
    by (rule post_loop_ok [OF P])
qed

lemma bootstrap_report_ok:
  assumes P: "\<not> clients_listen E \<longrightarrow> P" and h: "handler_wf E A h" "live_but (Some (action_id tid)) h" "dh_status h \<noteq> DhtFail"
    and waits: "st = Bootstrapping \<Longrightarrow> all_live h"
  shows "handles P (bootstrap_report E st tid h) (handler_ok E A)"
proof (cases st)
  case Bootstrapping
  with h waits show ?thesis by (simp add: bootstrap_report_def handler_ok_def)
next
  case BootstrapFailed
  with shutdown_ok [OF P h(1) live_worker_ok [OF h(2)]] show ?thesis by (simp add: bootstrap_report_def)
next
  case BootstrapCompleted
  have t: "handler_wf E A (dh_tick h)" "live_but (Some (action_id tid)) (dh_tick h)" "dh_status (dh_tick h) \<noteq> DhtFail"
    using quiet_wf [OF h(1) quiet_tick] quiet_live [OF h(2) quiet_tick] h(3) by (simp_all add: dh_tick_def)
  show ?thesis
  proof (cases "nood_to_less E h")
    case False
    with BootstrapCompleted broadcast_bootstrap_completed_ok [OF P t] show ?thesis by (simp add: bootstrap_report_def Let_def)
  next
    case True
    let ?h = "set_action (action_id tid) None (dh_tick h)"
    have ok: "handler_ok E A ?h" "dh_status ?h \<noteq> DhtFail" using remove_action_ok [OF t(1,2)] t(3) by (simp_all add: set_action_def)
    have re: "handles P (try_bind (attempt_rebootstrap E b attempts tid ?h) (\<lambda>(r, h).
        if r = Some True then broadcast_bootstrap_completed E (action_id tid) h else Ok h)) (handler_ok E A)"
      if "table_actions (dh_tick h) (action_id tid) = Some (ActBootstrap b attempts)" for b attempts
    proof -
      have "action_wf (action_id tid) (ActBootstrap b attempts)" using t(1) that unfolding handler_wf_def by blast
      then have "bootstrap_wf (action_id tid) b" by simp
      from attempt_rebootstrap_ok [OF P ok this] show ?thesis
        by (rule handles_bind)
          (auto simp: handler_ok_def intro!: broadcast_bootstrap_completed_ok [OF P] intro: live_but_live)
    qed
    from True BootstrapCompleted ok(1) re show ?thesis
      by (simp add: bootstrap_report_def Let_def split: option.split TableAction.split)
  qed
qed

section \<open>Commands\<close>

lemma handle_command_ok:
  assumes P: "\<not> clients_listen E \<longrightarrow> P" and h: "handler_ok E A h" "dh_status h \<noteq> DhtFail"
  shows "handles P (handle_command E command h) (handler_ok E A)"
proof (cases command)
  case (RegisterSender s)
  with h show ?thesis by (simp add: handle_command_def handle_register_sender_def handler_ok_def handler_wf_def live_but_def)
next
  case (GetBootstrapStatus tx)
  have "handles P (send_status E v tx h) (handler_ok E A)" for v
    by (rule handles_mono [OF quiet_send_status [OF P]]) (rule quiet_ok [OF h(1)])
  with h show ?thesis
    by (auto simp: GetBootstrapStatus handle_command_def handle_get_bootstarpped_def handler_ok_def handler_wf_def live_but_def split: DhtStatus.split)
next
  case (GetDhtValues tx)
  have "quiet E A h (dh_tick (h\<lparr>dh_values := vs\<rparr>))" for vs
    by (rule quietI) (simp_all add: dh_tick_def grows_keeps [OF grows_tick_only])
  with P quiet_ok [OF h(1)] show ?thesis
    by (auto simp: GetDhtValues handle_command_def handle_get_dht_values_def clients_listen_def Let_def)
next
  case (StartBootstrap rs ns)
  with handle_start_bootstrap_ok [OF P h] show ?thesis by (simp add: handle_command_def)
next
  case (StartLookup i a tx)
  with handle_start_lookup_ok [OF P h(1)] show ?thesis by (simp add: handle_command_def)
next
  case SelfLookup
  with handle_start_lookup_ok [OF P h(1)] show ?thesis by (simp add: handle_command_def)
next
  case (Shutdown c)
  from h have "handler_wf E A h" "all_live h" by (simp_all add: handler_ok_def)
  from shutdown_ok [OF P this(1) live_worker_ok [OF this(2)]] Shutdown show ?thesis by (simp add: handle_command_def)
qed

end
