(* ===== verification/Dht_Loop.thy ===== *)
theory Dht_Loop
  imports Dht_Handler_Correct
begin

text \<open>
  The event loop of the DHT keeps its invariant: what the datagrams and the timers do to it, the loop itself, and
  what follows for a DHT that was started and received anything.
\<close>

section \<open>Requests\<close>

text \<open>The responses list nodes in 26 bytes each; only nodes with an IPv4 address can be written.\<close>

lemma encode_nodes_ok:
  "node_addr ` set ns \<subseteq> A \<Longrightarrow> A \<subseteq> range SockV4 \<or> P \<Longrightarrow> handles P (encode_nodes ns) (\<lambda>bs. length bs mod 26 = 0)"
proof (induction ns)
  case (Cons n ns)
  have "handles P (node_encode n) (\<lambda>bs. length bs = 26)"
  proof (cases "node_encode n")
    case (Ok bs)
    with node_encode_length show ?thesis by simp
  next
    case (Err e)
    then show ?thesis by (auto simp: node_encode_def Let_def split: SocketAddr.splits)
  next
    case Panic
    then obtain v6 where "node_addr n = SockV6 v6" by (auto simp: node_encode_def Let_def split: SocketAddr.splits)
    with Cons.prems have P by auto
    with Panic show ?thesis by simp
  qed
  then show ?case
    unfolding encode_nodes.simps
  proof (rule handles_bind)
    fix bs :: bytes assume bs: "length bs = 26"
    have "handles P (encode_nodes ns) (\<lambda>bs. length bs mod 26 = 0)" using Cons by simp
    then show "handles P (try_bind (encode_nodes ns) (\<lambda>rest. Ok (bs @ rest))) (\<lambda>bs. length bs mod 26 = 0)"
      by (rule handles_bind) (simp add: bs)
  qed
qed simp

lemma closest_nodes_bytes_ok:
  assumes "handler_wf E A h" and "A \<subseteq> range SockV4 \<or> P"
  shows "handles P (closest_nodes_bytes E target h) (\<lambda>bs. length bs mod 26 = 0)"
proof -
  from assms(1) have t: "rt_wf (dh_table h)" "table_addrs (dh_table h) \<subseteq> A" by (simp_all add: handler_wf_def)
  let ?ns = "closest_nodes (dh_now E h) (dh_table h) target"
  have "set ?ns \<subseteq> set (all_nodes (dh_table h))"
    using closest_nodes_mset [OF t(1), of "dh_now E h" target] by (metis filter_is_subset set_mset_mset)
  then have "node_addr ` set (take 8 ?ns) \<subseteq> A" using t(2) set_take_subset [of 8 ?ns] by (fastforce simp: table_addrs_def)
  with assms(2) show ?thesis unfolding closest_nodes_bytes_def by (intro encode_nodes_ok)
qed

lemma compact_node_info_new_ok: "length bs mod 26 = 0 \<Longrightarrow> compact_node_info_new bs = Ok \<lparr>cni_nodes = bs\<rparr>"
  by (simp add: compact_node_info_new_def BYTES_PER_COMPACT_NODE_INFO_def)

lemma check_values_ok: "\<forall>v\<in>set vs. length v = 6 \<Longrightarrow> check_values i vs = Ok ()"
  by (induction vs arbitrary: i) (simp_all add: BYTES_PER_COMPACT_IP_def)

lemma contact_chunks_6: "v \<in> set (contact_chunks bs) \<Longrightarrow> length v = 6"
proof -
  assume "v \<in> set (contact_chunks bs)"
  then obtain i where i: "i < length bs div 6" "v = slice bs (i * 6) (i * 6 + 6)" by (auto simp: contact_chunks_def)
  then have "i * 6 + 6 \<le> length bs" by linarith
  with i(2) show ?thesis by (simp add: slice_def)
qed

lemma quiet_chain: "handles P r (quiet E A h1) \<Longrightarrow> quiet E A h h1 \<Longrightarrow> handles P r (quiet E A h)"
  by (erule handles_mono) (rule quiet_trans)

text \<open>The calls of the stores, made with the time of the tick.\<close>

lemma quiet_stored:
  assumes "clock_ok E \<Longrightarrow> stores_ok E h \<Longrightarrow> store_wf (env_utc E (dh_ticks h)) st"
  shows "quiet E A h (dh_tick (h\<lparr>active_stores := st\<rparr>))"
proof -
  have "stores_ok E h \<longrightarrow> stores_ok E (h\<lparr>active_stores := st\<rparr>)" using assms by (simp add: stores_ok_def)
  then have "quiet E A h (h\<lparr>active_stores := st\<rparr>)" by (simp add: quiet_def)
  then show ?thesis using quiet_tick by (rule quiet_trans)
qed

lemma quiet_find_items: "find_items (env_utc E (dh_ticks h)) info (active_stores h) = (items, st) \<Longrightarrow> quiet E A h (dh_tick (h\<lparr>active_stores := st\<rparr>))"
  by (rule quiet_stored) (use storage_find_refines in \<open>auto simp: stores_ok_def\<close>)

lemma quiet_add_item: "add_item (env_utc E (dh_ticks h)) info a (active_stores h) = (ok, st) \<Longrightarrow> quiet E A h (dh_tick (h\<lparr>active_stores := st\<rparr>))"
  by (rule quiet_stored) (use storage_add_refines in \<open>auto simp: stores_ok_def\<close>)

lemma quiet_tokens:
  assumes "ts = refresh_check (env_minutes E) (env_utc E (dh_ticks h)) rnd (token_store h)"
  shows "quiet E A h (dh_tick (h\<lparr>token_store := ts\<rparr>))"
proof -
  have "stores_ok E h \<longrightarrow> stores_ok E (h\<lparr>token_store := ts\<rparr>)"
    using last_refresh_check by (auto simp: assms stores_ok_def clock_ok_def)
  then have "quiet E A h (h\<lparr>token_store := ts\<rparr>)" by (simp add: quiet_def)
  then show ?thesis using quiet_tick by (rule quiet_trans)
qed

lemma checkout_store: "checkout m sha now rnd addr s = (token, ts) \<Longrightarrow> ts = refresh_check m now rnd s"
  by (simp add: checkout_def Let_def)

lemma checkin_store: "checkin m sha now rnd addr token s = (ok, ts) \<Longrightarrow> ts = refresh_check m now rnd s"
  by (simp add: checkin_def Let_def)

lemma handle_ping_ok: "\<not> clients_listen E \<longrightarrow> P \<Longrightarrow> handles P (handle_ping E p addr h) (quiet E A h)"
  unfolding handle_ping_def Let_def by (rule quiet_chain [OF quiet_respond quiet_remote_request])

lemma handle_find_node_ok:
  assumes P: "\<not> clients_listen E \<longrightarrow> P" and h: "handler_wf E A h" and A: "A \<subseteq> range SockV4 \<or> P"
  shows "handles P (handle_find_node E f addr h) (quiet E A h)"
  unfolding handle_find_node_def Let_def
proof (rule handles_bind [OF closest_nodes_bytes_ok [OF quiet_wf [OF h quiet_remote_request] A]])
  let ?h = "dh_remote_request E (fn_node_id f) addr h"
  fix bs :: bytes assume "length bs mod 26 = 0"
  then have "\<exists>r. find_node_response_new (fn_trans_id f) (rt_node_id (dh_table ?h)) bs = Ok r"
    by (simp add: find_node_response_new_def validate_nodes_def compact_node_info_new_ok)
  then obtain r where r: "find_node_response_new (fn_trans_id f) (rt_node_id (dh_table ?h)) bs = Ok r" ..
  have "quiet E A h (dh_tick ?h)" using quiet_remote_request quiet_tick by (rule quiet_trans)
  with quiet_chain [OF quiet_respond [OF P]] r
  show "handles P (try_bind (unwrap (find_node_response_new (fn_trans_id f) (rt_node_id (dh_table ?h)) bs))
      (\<lambda>r. respond E (find_node_response_encode r) addr (dh_tick ?h))) (quiet E A h)" by simp
qed

lemma handle_get_peers_ok:
  assumes P: "\<not> clients_listen E \<longrightarrow> P" and h: "handler_wf E A h" and A: "A \<subseteq> range SockV4 \<or> P"
  shows "handles P (handle_get_peers E g addr h) (quiet E A h)"
proof -
  define h1 where "h1 = dh_remote_request E (gp_node_id g) addr h"
  obtain items store where find: "find_items (env_utc E (dh_ticks h1)) (gp_info_hash g) (active_stores h1) = (items, store)"
    by (cases "find_items (env_utc E (dh_ticks h1)) (gp_info_hash g) (active_stores h1)")
  define h2 where "h2 = dh_tick (h1\<lparr>active_stores := store\<rparr>)"
  let ?chunks = "contact_chunks (concat (map contact_bytes items))"
  have q2: "quiet E A h h2" using quiet_trans [OF quiet_remote_request quiet_find_items [OF find [unfolded h1_def]]] by (simp add: h1_def h2_def)
  obtain token ts where tok: "checkout (env_minutes E) (env_sha1 E) (env_utc E (dh_ticks (dh_tick h2))) (env_secret E (dh_ticks (dh_tick h2)))
      (ip_of_socket_addr addr) (token_store (dh_tick h2)) = (token, ts)"
    by (cases "checkout (env_minutes E) (env_sha1 E) (env_utc E (dh_ticks (dh_tick h2))) (env_secret E (dh_ticks (dh_tick h2)))
      (ip_of_socket_addr addr) (token_store (dh_tick h2))")
  define h3 where "h3 = dh_tick ((dh_tick h2)\<lparr>token_store := ts\<rparr>)"
  have q3: "quiet E A h h3" using quiet_trans [OF q2 quiet_trans [OF quiet_tick quiet_tokens [OF checkout_store [OF tok]]]] by (simp add: h3_def)
  have "handle_get_peers E g addr h = try_bind (closest_nodes_bytes E (gp_info_hash g) h2) (\<lambda>bs.
      try_bind (if ?chunks \<noteq> [] then
          try_bind (unwrap (compact_node_info_new bs)) (\<lambda>ns.
          try_bind (unwrap (compact_value_info_new ?chunks)) (\<lambda>vs. Ok (InfoBoth ns vs)))
        else try_bind (unwrap (compact_node_info_new bs)) (\<lambda>ns. Ok (InfoNodes ns))) (\<lambda>info_type.
      respond E (get_peers_response_encode
        \<lparr>gpr_trans_id = gp_trans_id g, gpr_node_id = rt_node_id (dh_table h3), gpr_token = Some token,
         gpr_info_type = info_type\<rparr>) addr h3))"
    unfolding handle_get_peers_def h1_def [symmetric] find Let_def prod.case h2_def [symmetric] tok h3_def [symmetric] ..
  moreover have "handles P \<dots> (quiet E A h)"
  proof (rule handles_bind [OF closest_nodes_bytes_ok [OF quiet_wf [OF h q2] A]])
    fix bs :: bytes assume bs: "length bs mod 26 = 0"
    have "compact_value_info_new ?chunks = Ok \<lparr>cvi_values = ?chunks\<rparr>"
      by (simp add: compact_value_info_new_def check_values_ok contact_chunks_6)
    with compact_node_info_new_ok [OF bs] quiet_chain [OF quiet_respond [OF P] q3]
    show "handles P (try_bind (if ?chunks \<noteq> [] then
          try_bind (unwrap (compact_node_info_new bs)) (\<lambda>ns.
          try_bind (unwrap (compact_value_info_new ?chunks)) (\<lambda>vs. Ok (InfoBoth ns vs)))
        else try_bind (unwrap (compact_node_info_new bs)) (\<lambda>ns. Ok (InfoNodes ns))) (\<lambda>info_type.
      respond E (get_peers_response_encode
        \<lparr>gpr_trans_id = gp_trans_id g, gpr_node_id = rt_node_id (dh_table h3), gpr_token = Some token,
         gpr_info_type = info_type\<rparr>) addr h3)) (quiet E A h)" by simp
  qed
  ultimately show ?thesis by simp
qed

lemma handle_announce_peer_ok:
  assumes P: "\<not> clients_listen E \<longrightarrow> P"
  shows "handles P (handle_announce_peer E a addr h) (quiet E A h)"
proof -
  define h1 where "h1 = dh_remote_request E (ap_node_id a) addr h"
  define r where "r = (case token_new (ap_token a) of
      Ok t \<Rightarrow>
        (case checkin (env_minutes E) (env_sha1 E) (env_utc E (dh_ticks h1)) (env_secret E (dh_ticks h1))
                (ip_of_socket_addr addr) t (token_store h1) of
           (valid, ts) \<Rightarrow> (valid, dh_tick (h1\<lparr>token_store := ts\<rparr>)))
    | _ \<Rightarrow> (False, h1))"
  obtain valid h2 where r: "r = (valid, h2)" by (cases r)
  have "quiet E A h1 h2" using r by (auto simp: r_def intro!: quiet_tokens dest: checkin_store split: outcome.splits prod.splits)
  then have q2: "quiet E A h h2" using quiet_trans [OF quiet_remote_request] by (simp add: h1_def)
  obtain added store where add: "add_item (env_utc E (dh_ticks h2)) (ap_info_hash a) (connect_addr (ap_port a) addr) (active_stores h2) = (added, store)"
    by (cases "add_item (env_utc E (dh_ticks h2)) (ap_info_hash a) (connect_addr (ap_port a) addr) (active_stores h2)")
  define h3 where "h3 = dh_tick (h2\<lparr>active_stores := store\<rparr>)"
  have q3: "quiet E A h h3" using quiet_trans [OF q2 quiet_add_item [OF add]] by (simp add: h3_def)
  have "\<exists>m h'. handle_announce_peer E a addr h = respond E m addr h' \<and> quiet E A h h'"
    unfolding handle_announce_peer_def Let_def h1_def [symmetric] r_def [symmetric] r prod.case add h3_def [symmetric]
    using q2 q3 by auto
  with quiet_chain [OF quiet_respond [OF P]] show ?thesis by metis
qed

lemma handle_incoming_request_ok:
  assumes P: "\<not> clients_listen E \<longrightarrow> P" and h: "handler_wf E A h" and A: "A \<subseteq> range SockV4 \<or> P"
  shows "handles P (handle_incoming_request E request addr h) (quiet E A h)"
  using handle_ping_ok [OF P] handle_find_node_ok [OF P h A] handle_get_peers_ok [OF P h A] handle_announce_peer_ok [OF P]
  by (simp add: handle_incoming_request_def split: RequestType.split)

section \<open>Responses\<close>

lemma set_action_sel [simp]:
  "dh_worker (set_action aid act h) = dh_worker h" "dh_status (set_action aid act h) = dh_status h"
  "table_actions (set_action aid act h) = (table_actions h)(aid := act)"
  by (simp_all add: set_action_def)

lemma from_bytes_ok:
  assumes "length bs = 8 \<or> P"
  shows "handles P (unwrap (ok_or () (transaction_id_from_bytes bs))) (\<lambda>_. True)"
  using assms by (auto simp: ok_or_def transaction_id_from_bytes_def TRANSACTION_ID_BYTES_def ACTION_ID_BYTES_def MESSAGE_ID_BYTES_def)

text \<open>The part of an action in the state after it ran: the action is put back with the worker it left.\<close>

lemma action_ran:
  assumes h: "handler_wf E A h" "live_but but h" "but = None \<or> but = Some aid" and act: "action_wf aid act"
    and w: "keeps_tasks (\<lambda>_. False) {} (dh_worker h) w"
    and steps: "in_time (dh_worker h) \<Longrightarrow> worker_ok (dh_worker h) \<Longrightarrow> dh_status h \<noteq> DhtFail \<Longrightarrow> steps aid (dh_worker h) w"
  defines "h' \<equiv> set_action aid (Some act) (h\<lparr>dh_worker := w\<rparr>)"
  shows "handler_wf E A h'" and "live_but (Some aid) h'"
    and "(in_time w \<Longrightarrow> worker_ok w \<Longrightarrow> dh_status h \<noteq> DhtFail \<Longrightarrow> action_waits aid act w) \<Longrightarrow> all_live h'"
proof -
  have "keeps_tasks (\<lambda>_. False) A (dh_worker h) w" using w by (auto simp: keeps_tasks_def)
  then show "handler_wf E A h'" unfolding h'_def by (intro handler_wf_set_action handler_wf_worker [OF h(1)]) (use act in auto)
  have l: "live_but (Some aid) (h\<lparr>dh_worker := w\<rparr>)" by (rule live_move [OF h(2) w h(3) steps])
  then show "live_but (Some aid) h'" by (auto simp: h'_def live_but_def)
  show "all_live h'" if "in_time w \<Longrightarrow> worker_ok w \<Longrightarrow> dh_status h \<noteq> DhtFail \<Longrightarrow> action_waits aid act w"
    unfolding h'_def by (rule live_set_action [OF l]) (use that in simp)
qed

lemma add_source_ok:
  assumes h: "handler_ok E A h" and A: "addr \<in> A" "v4_all A"
  shows "handles P (dh_add_node E (as_good now nid addr) h)
    (\<lambda>h'. handler_ok E A h' \<and> dh_status h' = dh_status h \<and> table_actions h' = table_actions h)"
proof -
  have "rt_wf (dh_table h)" using h by (simp add: handler_ok_def handler_wf_def)
  from quiet_add_node [OF this _ A(2), of "as_good now nid addr"] A(1)
  have "handles P (dh_add_node E (as_good now nid addr) h) (\<lambda>h'. quiet E A h h' \<and> rt_wf (dh_table h') \<and> dh_status h' = dh_status h)"
    by simp
  then show ?thesis by (rule handles_mono) (use quiet_ok [OF h] in \<open>auto simp: quiet_def\<close>)
qed

lemma handler_action:
  assumes "handler_ok E A h" and "table_actions h aid = Some act"
  shows "action_wf aid act" and "rt_wf (dh_table h)" and "handler_wf E A h" and "all_live h"
    and "in_time (dh_worker h) \<Longrightarrow> dh_status h \<noteq> DhtFail \<Longrightarrow> action_waits aid act (dh_worker h)"
  using assms unfolding handler_ok_def handler_wf_def live_but_def by blast+

lemma bootstrap_response_ok:
  assumes P: "\<not> clients_listen E \<longrightarrow> P" and h: "handler_ok E A h" "dh_status h \<noteq> DhtFail"
    and act: "table_actions h (action_id tid) = Some (ActBootstrap b attempts)"
  shows "handles P (try_bind (bootstrap_recv_response E tid b (dh_worker h)) (\<lambda>(st, b, w).
    bootstrap_report E st tid (set_action (action_id tid) (Some (ActBootstrap b attempts)) (h\<lparr>dh_worker := w\<rparr>)))) (handler_ok E A)"
proof -
  note a = handler_action [OF h(1) act]
  from a(1) have "bootstrap_wf (action_id tid) b" by simp
  from bootstrap_recv_response_wf [OF this a(2), of E tid] obtain st b' w where
    r: "bootstrap_recv_response E tid b (dh_worker h) = Ok (st, b', w)" and k: "keeps_tasks (\<lambda>_. False) {} (dh_worker h) w"
    and b': "bootstrap_wf (action_id tid) b'" and ok: "bootstrap_ok (action_id tid) b (dh_worker h) \<longrightarrow> worker_ok (dh_worker h) \<longrightarrow>
      steps (action_id tid) (dh_worker h) w \<and> (in_time w \<longrightarrow> st = Bootstrapping \<longrightarrow> bootstrap_ok (action_id tid) b' w)" by blast
  have act': "action_wf (action_id tid) (ActBootstrap b' attempts)" using b' a(1) by simp
  have "steps (action_id tid) (dh_worker h) w" if "in_time (dh_worker h)" "worker_ok (dh_worker h)"
    using ok a(5) that h(2) by simp
  note ran = action_ran [OF a(3,4) disjI1 [OF refl] act' k this]
  have "all_live (set_action (action_id tid) (Some (ActBootstrap b' attempts)) (h\<lparr>dh_worker := w\<rparr>))" if "st = Bootstrapping"
  proof (rule ran(3))
    assume "in_time w"
    with that ok a(5) h(2) live_worker_ok [OF a(4)] keeps_in_time [OF k]
    show "action_waits (action_id tid) (ActBootstrap b' attempts) w" by simp
  qed
  with bootstrap_report_ok [OF P ran(1,2)] h(2) show ?thesis by (simp add: r)
qed

lemma handle_find_node_response_ok:
  assumes P: "\<not> clients_listen E \<longrightarrow> P" and h: "handler_ok E A h" "dh_status h \<noteq> DhtFail"
    and A: "addr \<in> A" "v4_all A" and tid: "length (fnr_trans_id f) = 8 \<or> P" and ns: "is_ok (compact_nodes_list (fnr_nodes f))"
  shows "handles P (handle_find_node_response E f addr h) (handler_ok E A)"
  unfolding handle_find_node_response_def
proof (rule handles_bind [OF from_bytes_ok [OF tid]])
  fix tid :: TransactionID
  let ?node = "as_good (dh_now E h) (fnr_node_id f) addr"
  let ?k = "\<lambda>h. case table_actions h (action_id tid) of
        Some (ActRefresh _) \<Rightarrow> dh_add_node E ?node h
      | Some (ActBootstrap b attempts) \<Rightarrow>
          try_bind (if \<not> is_router b (node_addr ?node) then dh_add_node E ?node h else Ok h) (\<lambda>h.
          try_bind (bootstrap_recv_response E tid b (dh_worker h)) (\<lambda>(st, b, w).
          bootstrap_report E st tid (set_action (action_id tid) (Some (ActBootstrap b attempts)) (h\<lparr>dh_worker := w\<rparr>))))
      | _ \<Rightarrow> Ok h"
  from ns obtain payload where payload: "compact_nodes_list (fnr_nodes f) = Ok payload" by (auto simp: is_ok_iff)
  have tick: "handler_ok E A (dh_tick h)" by (rule quiet_ok [OF h(1) quiet_tick])
  then have t: "rt_wf (dh_table (dh_tick h))" by (simp add: handler_ok_def handler_wf_def)
  have "handles P (add_payload_nodes E payload (dh_tick h)) (\<lambda>x. handler_ok E A x \<and> dh_status x \<noteq> DhtFail)"
    by (rule handles_mono [OF quiet_payload [OF t A(2)]]) (use quiet_ok [OF tick] h(2) in \<open>auto simp: dh_tick_def\<close>)
  then have "handles P (try_bind (add_payload_nodes E payload (dh_tick h)) ?k) (handler_ok E A)"
  proof (rule handles_bind)
    fix x assume x: "handler_ok E A x \<and> dh_status x \<noteq> DhtFail"
    note node = add_source_ok [OF conjunct1 [OF x] A, of P "dh_now E h" "fnr_node_id f"]
    have boot: "handles P (try_bind (if \<not> is_router b (node_addr ?node) then dh_add_node E ?node x else Ok x) (\<lambda>h.
          try_bind (bootstrap_recv_response E tid b (dh_worker h)) (\<lambda>(st, b, w).
          bootstrap_report E st tid (set_action (action_id tid) (Some (ActBootstrap b attempts)) (h\<lparr>dh_worker := w\<rparr>))))) (handler_ok E A)"
      if b: "table_actions x (action_id tid) = Some (ActBootstrap b attempts)" for b attempts
    proof (rule handles_bind)
      show "handles P (if \<not> is_router b (node_addr ?node) then dh_add_node E ?node x else Ok x)
          (\<lambda>y. handler_ok E A y \<and> dh_status y \<noteq> DhtFail \<and> table_actions y (action_id tid) = Some (ActBootstrap b attempts))"
        using handles_mono [OF node] x b by auto
    qed (use bootstrap_response_ok [OF P] in blast)
    show "handles P (?k x) (handler_ok E A)"
    proof (cases "table_actions x (action_id tid)")
      case None
      with x show ?thesis by simp
    next
      case (Some act)
      with x boot handles_mono [OF node, of "handler_ok E A"] show ?thesis by (cases act) auto
    qed
  qed
  then show "handles P (let node = ?node in try_bind (compact_nodes_list (fnr_nodes f)) (\<lambda>payload.
        try_bind (add_payload_nodes E payload (dh_tick h)) (\<lambda>h.
        case table_actions h (action_id tid) of
          Some (ActRefresh _) \<Rightarrow> dh_add_node E node h
        | Some (ActBootstrap b attempts) \<Rightarrow>
            try_bind (if \<not> is_router b (node_addr node) then dh_add_node E node h else Ok h) (\<lambda>h.
            try_bind (bootstrap_recv_response E tid b (dh_worker h)) (\<lambda>(st, b, w).
            bootstrap_report E st tid (set_action (action_id tid) (Some (ActBootstrap b attempts)) (h\<lparr>dh_worker := w\<rparr>))))
        | _ \<Rightarrow> Ok h))) (handler_ok E A)"
    unfolding Let_def payload try_bind.simps .
qed

lemma lookup_report_ok:
  assumes P: "\<not> clients_listen E \<longrightarrow> P" and h: "handler_wf E A h" "live_but (Some aid) h" and waits: "st \<noteq> LookupFailed \<Longrightarrow> all_live h"
  shows "handles P (lookup_report E st info_hash h) (handler_ok E A)"
proof (cases "st = LookupFailed")
  case True
  with shutdown_ok [OF P h(1) live_worker_ok [OF h(2)]] show ?thesis by (simp add: lookup_report_def)
next
  case False
  with h(1) waits have "handler_ok E A h" by (simp add: handler_ok_def)
  with False quiet_ok [OF this quiet_broadcast] show ?thesis by (simp add: lookup_report_def split: LookupStatus.split)
qed

lemma handle_get_peers_response_ok:
  assumes P: "\<not> clients_listen E \<longrightarrow> P" and h: "handler_ok E A h" "dh_status h \<noteq> DhtFail"
    and A: "addr \<in> A" "v4_all A" and tid: "length (gpr_trans_id g) = 8 \<or> P" and info: "info_readable (gpr_info_type g)"
  shows "handles P (handle_get_peers_response E g addr h) (handler_ok E A)"
  unfolding handle_get_peers_response_def Let_def
proof (rule handles_bind [OF from_bytes_ok [OF tid]], rule handles_bind [OF add_source_ok [OF quiet_ok [OF h(1) quiet_tick] A]])
  fix tid :: TransactionID and x
  let ?aid = "action_id tid" and ?node = "as_good (dh_now E h) (gpr_node_id g) addr"
  assume "handler_ok E A x \<and> dh_status x = dh_status (dh_tick h) \<and> table_actions x = table_actions (dh_tick h)"
  then have x: "handler_ok E A x" "dh_status x \<noteq> DhtFail" using h(2) by (simp_all add: dh_tick_def)
  have look: "handles P (try_bind (lookup_recv_response E ?node tid g l (dh_worker x)) (\<lambda>(st, l, w).
      lookup_report E st (target_id l) (set_action ?aid (Some (ActLookup l)) (x\<lparr>dh_worker := w\<rparr>)))) (handler_ok E A)"
    if act: "table_actions x ?aid = Some (ActLookup l)" for l
  proof -
    note a = handler_action [OF x(1) act]
    from a(1) have "lookup_wf ?aid l" by simp
    from lookup_recv_response_wf [OF this info, of E ?node tid "dh_worker x"] obtain st l' w where
      r: "lookup_recv_response E ?node tid g l (dh_worker x) = Ok (st, l', w)" and k: "keeps_tasks (\<lambda>_. False) {} (dh_worker x) w"
      and l': "lookup_wf ?aid l'" and ok: "lookup_ok ?aid l (dh_worker x) \<longrightarrow> worker_ok (dh_worker x) \<longrightarrow>
        steps ?aid (dh_worker x) w \<and> (in_time w \<longrightarrow> st \<noteq> LookupFailed \<longrightarrow> lookup_ok ?aid l' w)" by blast
    have act': "action_wf ?aid (ActLookup l')" using l' by simp
    have "steps ?aid (dh_worker x) w" if "in_time (dh_worker x)" "worker_ok (dh_worker x)" using ok a(5) that x(2) by simp
    note ran = action_ran [OF a(3,4) disjI1 [OF refl] act' k this]
    have "all_live (set_action ?aid (Some (ActLookup l')) (x\<lparr>dh_worker := w\<rparr>))" if "st \<noteq> LookupFailed"
    proof (rule ran(3))
      assume "in_time w"
      with that ok a(5) x(2) live_worker_ok [OF a(4)] keeps_in_time [OF k] show "action_waits ?aid (ActLookup l') w" by simp
    qed
    with lookup_report_ok [OF P ran(1,2)] show ?thesis by (simp add: r)
  qed
  show "handles P (case table_actions x ?aid of
          Some (ActLookup l) \<Rightarrow>
            try_bind (lookup_recv_response E ?node tid g l (dh_worker x)) (\<lambda>(st, l, w).
            lookup_report E st (target_id l) (set_action ?aid (Some (ActLookup l)) (x\<lparr>dh_worker := w\<rparr>)))
        | _ \<Rightarrow> Ok x) (handler_ok E A)"
    using x(1) look by (simp split: option.split TableAction.split)
qed

section \<open>Datagrams\<close>

text \<open>
  A datagram is harmless when decoding it does not panic and, if it is a response to \<open>find_node\<close> or \<open>get_peers\<close>, its
  transaction id has eight bytes.
\<close>

fun response_tid_ok :: "ResponseType \<Rightarrow> bool" where
  "response_tid_ok (RsFindNode f) = (length (fnr_trans_id f) = 8)"
| "response_tid_ok (RsGetPeers g) = (length (gpr_trans_id g) = 8)"
| "response_tid_ok _ = True"

definition harmless :: "bytes \<Rightarrow> bool" where
  "harmless buf \<longleftrightarrow> (case decode_top buf default_opt of
      Panic \<Rightarrow> False
    | Err _ \<Rightarrow> True
    | Ok bencode \<Rightarrow> (case message_new bencode of Ok (MtResponse rs) \<Rightarrow> response_tid_ok rs | _ \<Rightarrow> True))"

lemma parsed_info_readable:
  assumes "message_new r = Ok (MtResponse rs)"
  shows "rs = RsFindNode f \<Longrightarrow> is_ok (compact_nodes_list (fnr_nodes f))"
    and "rs = RsGetPeers g \<Longrightarrow> info_readable (gpr_info_type g)"
proof -
  from assms obtain d t where p: "response_from_parts d t = Ok rs"
    by (auto simp: message_new_def outcome_simps split: if_splits)
  have ns: "is_ok (compact_nodes_list n)" if "n \<in> set (response_nodes rs)" for n
    using compact_nodes_list_ok [OF parsed_response_lists(1) [OF p that]] by auto
  have vs: "is_ok (compact_values_list v)" if "v \<in> set (response_values rs)" for v
    using compact_values_list_ok [OF parsed_response_lists(2) [OF p that]] by (simp add: compact_values_list_def)
  show "rs = RsFindNode f \<Longrightarrow> is_ok (compact_nodes_list (fnr_nodes f))" using ns by simp
  show "rs = RsGetPeers g \<Longrightarrow> info_readable (gpr_info_type g)"
    using ns vs by (cases "gpr_info_type g") (simp_all add: info_readable_def)
qed

lemma handle_incoming_ok:
  assumes P: "\<not> clients_listen E \<longrightarrow> P" and h: "handler_ok E A h" "dh_status h \<noteq> DhtFail"
    and A: "addr \<in> A" "v4_all A" "A \<subseteq> range SockV4 \<or> P" and buf: "harmless buf \<or> P"
  shows "handles P (handle_incoming E buf addr h) (handler_ok E A)"
proof (cases "decode_top buf default_opt")
  case (Ok bencode)
  show ?thesis
  proof (cases "message_new bencode")
    case m: (Ok m)
    show ?thesis
    proof (cases m)
      case (MtRequest rq)
      have wf: "handler_wf E A h" using h(1) by (simp add: handler_ok_def)
      have "handles P (handle_incoming_request E rq addr h) (handler_ok E A)"
        by (rule handles_mono [OF handle_incoming_request_ok [OF P wf A(3)]]) (rule quiet_ok [OF h(1)])
      with Ok m MtRequest h(1) show ?thesis by (simp add: handle_incoming_def Let_def)
    next
      case (MtResponse rs)
      have tid: "response_tid_ok rs \<or> P" using buf Ok m MtResponse by (simp add: harmless_def)
      note readable = parsed_info_readable [OF m [unfolded MtResponse]]
      have "handles P (handle_incoming_response E rs addr h) (handler_ok E A)"
      proof (cases rs)
        case (RsFindNode f)
        with handle_find_node_response_ok [OF P h A(1,2)] tid readable(1) show ?thesis by (simp add: handle_incoming_response_def)
      next
        case (RsGetPeers g)
        with handle_get_peers_response_ok [OF P h A(1,2)] tid readable(2) show ?thesis by (simp add: handle_incoming_response_def)
      next
        case (RsActing a)
        have "handles P (dh_add_node E (as_good (dh_now E h) (act_node_id a) addr) (dh_tick h)) (handler_ok E A)"
          by (rule handles_mono [OF add_source_ok [OF quiet_ok [OF h(1) quiet_tick] A(1,2)]]) simp
        with RsActing show ?thesis by (simp add: handle_incoming_response_def)
      qed (simp_all add: handle_incoming_response_def h)
      with Ok m MtResponse h(1) show ?thesis by (simp add: handle_incoming_def Let_def)
    next
      case (MtError e)
      with Ok m h(1) show ?thesis by (simp add: handle_incoming_def Let_def)
    qed
  next
    case (Err e)
    with Ok h(1) show ?thesis by (simp add: handle_incoming_def Let_def)
  next
    case Panic
    with message_new_no_panic show ?thesis by blast
  qed
next
  case (Err e)
  with h(1) show ?thesis by (simp add: handle_incoming_def)
next
  case Panic
  with buf show ?thesis by (simp add: handle_incoming_def harmless_def)
qed

section \<open>Timers\<close>

text \<open>What is left of the tasks of an action when one of them fired.\<close>

fun waits_after :: "ScheduledTask \<Rightarrow> TableAction \<Rightarrow> Worker \<Rightarrow> bool" where
  "waits_after (CheckBootstrapTimeout tid) (ActBootstrap b attempts) w =
     (bootstrap_waits (action_id tid) (b\<lparr>active_messages := hm_remove tid (active_messages b)\<rparr>) w \<and> active_messages b \<noteq> [])"
| "waits_after (CheckLookupTimeout tid) (ActLookup l) w =
     (lookup_waits (action_id tid) (l\<lparr>active_lookups := hm_remove tid (active_lookups l)\<rparr>) w \<and>
      (\<not> in_endgame l \<longrightarrow> active_lookups l \<noteq> []))"
| "waits_after (CheckTableRefresh tid) (ActRefresh r) w = True"
| "waits_after (CheckLookupEndGame tid) act w = True"
| "waits_after task act w = action_waits (action_id (task_id task)) act w"

lemma waits_after_fired:
  assumes "action_waits (action_id (task_id v)) act w" and k: "task_at w k = Some v" and w': "task_at w' = (task_at w)(k := None)"
  shows "waits_after v act w'"
proof -
  have keep: "task_at w j = Some u \<Longrightarrow> u \<noteq> v \<Longrightarrow> task_at w' j = Some u" for j u using k w' by auto
  show ?thesis
  proof (cases act)
    case (ActLookup l)
    with assms(1) keep show ?thesis
      by (cases v) (fastforce simp: lookup_ok_def lookup_waits_def split: if_splits)+
  next
    case (ActRefresh r)
    with assms(1) keep show ?thesis by (cases v) (force+)
  next
    case (ActBootstrap b n)
    with assms(1) keep show ?thesis by (cases v) (force simp: bootstrap_ok_def bootstrap_waits_def)+
  qed
qed

lemma action_waits_fired:
  assumes "action_waits aid act w" and "task_at w k = Some v" and "task_at w' = (task_at w)(k := None)" and "action_id (task_id v) \<noteq> aid"
  shows "action_waits aid act w'"
proof -
  have keep: "task_at w j = Some u \<Longrightarrow> action_id (task_id u) = aid \<Longrightarrow> task_at w' j = Some u" for j u using assms(2-4) by auto
  with assms(1) show ?thesis
    by (cases act) (fastforce simp: lookup_ok_def lookup_waits_def bootstrap_ok_def bootstrap_waits_def split: if_splits)+
qed

definition fired :: "ScheduledTask \<Rightarrow> DhtHandler \<Rightarrow> bool" where
  "fired v h \<longleftrightarrow> live_but (Some (action_id (task_id v))) h \<and>
     (in_time (dh_worker h) \<longrightarrow> dh_status h \<noteq> DhtFail \<longrightarrow>
        (\<forall>act. table_actions h (action_id (task_id v)) = Some act \<longrightarrow> waits_after v act (dh_worker h)))"

lemma check_bootstrap_timeout_ok:
  assumes P: "\<not> clients_listen E \<longrightarrow> P" and h: "handler_wf E A h" "dh_status h \<noteq> DhtFail" "fired (CheckBootstrapTimeout tid) h"
  shows "handles P (handle_check_bootstrap_timeout E tid h) (handler_ok E A)"
proof (cases "\<exists>b n. table_actions h (action_id tid) = Some (ActBootstrap b n)")
  case False
  have "all_live h"
  proof (rule live_butI)
    show "live_but (Some (action_id tid)) h" using h(3) by (simp add: fired_def)
    fix act assume "in_time (dh_worker h)" and act: "table_actions h (action_id tid) = Some act"
    with h have "waits_after (CheckBootstrapTimeout tid) act (dh_worker h)" by (simp add: fired_def)
    with False act show "action_waits (action_id tid) act (dh_worker h)" by (cases act) auto
  qed
  with False h(1) show ?thesis
    by (auto simp: handle_check_bootstrap_timeout_def handler_ok_def split: option.split TableAction.split)
next
  case True
  then obtain b n where act: "table_actions h (action_id tid) = Some (ActBootstrap b n)" by blast
  have "action_wf (action_id tid) (ActBootstrap b n)" "rt_wf (dh_table h)" using h(1) act unfolding handler_wf_def by blast+
  then have b: "bootstrap_wf (action_id tid) b" "rt_wf (dh_table h)" and n: "n < MAX_BOOTSTRAP_ATTEMPTS" by simp_all
  from bootstrap_recv_timeout_ok [OF b, of E tid] obtain st b' w where
    r: "bootstrap_recv_timeout E tid b (dh_worker h) = Ok (st, b', w)" and g: "grows (dh_worker h) w" and b': "bootstrap_wf (action_id tid) b'"
    and ok: "worker_ok (dh_worker h) \<longrightarrow> in_time w \<longrightarrow>
      bootstrap_waits (action_id tid) (b\<lparr>active_messages := hm_remove tid (active_messages b)\<rparr>) (dh_worker h) \<longrightarrow>
      st = Bootstrapping \<longrightarrow> active_messages b \<noteq> [] \<longrightarrow> bootstrap_ok (action_id tid) b' w" by blast
  have all_live: "live_but (Some (action_id tid)) h" using h(3) by (simp add: fired_def)
  have act': "action_wf (action_id tid) (ActBootstrap b' n)" using b' n by simp
  note ran = action_ran [OF h(1) all_live disjI2 [OF refl] act' grows_keeps [OF g] grows_keeps [OF g]]
  have "all_live (set_action (action_id tid) (Some (ActBootstrap b' n)) (h\<lparr>dh_worker := w\<rparr>))" if "st = Bootstrapping"
  proof (rule ran(3))
    assume t: "in_time w"
    have "in_time (dh_worker h)" by (rule keeps_in_time [OF g t])
    moreover from this h act have "waits_after (CheckBootstrapTimeout tid) (ActBootstrap b n) (dh_worker h)" by (simp add: fired_def)
    ultimately show "action_waits (action_id tid) (ActBootstrap b' n) w" using ok that t live_worker_ok [OF all_live] by simp
  qed
  with bootstrap_report_ok [OF P ran(1,2)] h(2) show ?thesis by (simp add: handle_check_bootstrap_timeout_def act r)
qed

lemma check_lookup_timeout_ok:
  assumes P: "\<not> clients_listen E \<longrightarrow> P" and h: "handler_wf E A h" "dh_status h \<noteq> DhtFail" "fired (CheckLookupTimeout tid) h"
  shows "handles P (handle_check_lookup_timeout E tid h) (handler_ok E A)"
proof (cases "\<exists>l. table_actions h (action_id tid) = Some (ActLookup l)")
  case False
  have "all_live h"
  proof (rule live_butI)
    show "live_but (Some (action_id tid)) h" using h(3) by (simp add: fired_def)
    fix act assume "in_time (dh_worker h)" and act: "table_actions h (action_id tid) = Some act"
    with h have "waits_after (CheckLookupTimeout tid) act (dh_worker h)" by (simp add: fired_def)
    with False act show "action_waits (action_id tid) act (dh_worker h)" by (cases act) auto
  qed
  with False h(1) show ?thesis
    by (auto simp: handle_check_lookup_timeout_def handler_ok_def split: option.split TableAction.split)
next
  case True
  then obtain l where act: "table_actions h (action_id tid) = Some (ActLookup l)" by blast
  have "action_wf (action_id tid) (ActLookup l)" using h(1) act unfolding handler_wf_def by blast
  then have l: "lookup_wf (action_id tid) l" by simp
  obtain st l' w where r: "lookup_recv_timeout E tid l (dh_worker h) = (st, l', w)" by (cases "lookup_recv_timeout E tid l (dh_worker h)")
  note ok = lookup_recv_timeout_ok [OF r l]
  then have g: "grows (dh_worker h) w" by blast
  have all_live: "live_but (Some (action_id tid)) h" using h(3) by (simp add: fired_def)
  have act': "action_wf (action_id tid) (ActLookup l')" using ok by simp
  note ran = action_ran [OF h(1) all_live disjI2 [OF refl] act' grows_keeps [OF g] grows_keeps [OF g]]
  have "all_live (set_action (action_id tid) (Some (ActLookup l')) (h\<lparr>dh_worker := w\<rparr>))" if "st \<noteq> LookupFailed"
  proof (rule ran(3))
    assume t: "in_time w"
    have "in_time (dh_worker h)" by (rule keeps_in_time [OF g t])
    moreover from this h act have "waits_after (CheckLookupTimeout tid) (ActLookup l) (dh_worker h)" by (simp add: fired_def)
    ultimately show "action_waits (action_id tid) (ActLookup l') w" using ok that t live_worker_ok [OF all_live] by simp
  qed
  with lookup_report_ok [OF P ran(1,2)] show ?thesis by (simp add: handle_check_lookup_timeout_def act r)
qed

lemma check_lookup_endgame_ok:
  assumes P: "\<not> clients_listen E \<longrightarrow> P" and h: "handler_wf E A h" "live_but (Some (action_id tid)) h"
  shows "handles P (handle_check_lookup_endgame E tid h) (handler_ok E A)"
proof -
  let ?h = "set_action (action_id tid) None h"
  have ok: "handler_ok E A ?h" by (rule remove_action_ok [OF h])
  have fin: "handles P (case st of
         LookupCompleted \<Rightarrow> Ok (broadcast_dht_event E (EvLookupCompleted i) x)
       | AnnounceFailed \<Rightarrow> handle_command_shutdown E Unspecified (broadcast_dht_event E (EvLookupAnFail i) x)
       | _ \<Rightarrow> Ok x) (handler_ok E A)" if x: "handler_ok E A x" for st i x
  proof -
    have y: "handler_ok E A (broadcast_dht_event E e x)" for e by (rule quiet_ok [OF x quiet_broadcast])
    then have "handles P (handle_command_shutdown E Unspecified (broadcast_dht_event E e x)) (handler_ok E A)" for e
      using shutdown_ok [OF P] live_worker_ok unfolding handler_ok_def by blast
    with x y show ?thesis by (simp split: LookupStatus.split)
  qed
  show ?thesis
  proof (cases "\<exists>l. table_actions h (action_id tid) = Some (ActLookup l)")
    case False
    with ok show ?thesis by (auto simp: handle_check_lookup_endgame_def Let_def split: option.split TableAction.split)
  next
    case True
    then obtain l where act: "table_actions h (action_id tid) = Some (ActLookup l)" by blast
    obtain st l' w where r: "lookup_recv_finished E (announce_port ?h) l (dh_worker ?h) = (st, l', w)"
      by (cases "lookup_recv_finished E (announce_port ?h) l (dh_worker ?h)")
    have "quiet E A ?h (?h\<lparr>dh_worker := w\<rparr>)" by (rule quietI) (use grows_keeps [OF grows_recv_finished [OF r]] in simp_all)
    with fin [OF quiet_ok [OF ok]] r show ?thesis by (simp add: handle_check_lookup_endgame_def Let_def act)
  qed
qed

lemma handle_timeout_ok:
  assumes P: "\<not> clients_listen E \<longrightarrow> P" and h: "handler_wf E A h" "dh_status h \<noteq> DhtFail" "fired v h"
  shows "handles P (handle_timeout E v h) (handler_ok E A)"
proof (cases v)
  case (CheckTableRefresh tid)
  have "handles P (handle_check_table_refresh E tid h) (handler_ok E A)"
  proof (rule handle_check_table_refresh_ok [OF P h(1)])
    show "live_but (Some (action_id tid)) h" using h(3) CheckTableRefresh by (simp add: fired_def)
    fix act assume act: "table_actions h (action_id tid) = Some act" and "\<forall>r. act \<noteq> ActRefresh r" and "in_time (dh_worker h)"
    moreover from this h have "waits_after (CheckTableRefresh tid) act (dh_worker h)" by (simp add: fired_def CheckTableRefresh)
    ultimately show "action_waits (action_id tid) act (dh_worker h)" by (cases act) auto
  qed
  with CheckTableRefresh show ?thesis by (simp add: handle_timeout_def)
next
  case (CheckBootstrapTimeout tid)
  with check_bootstrap_timeout_ok [OF P h(1,2)] h(3) show ?thesis by (simp add: handle_timeout_def)
next
  case (CheckLookupTimeout tid)
  with check_lookup_timeout_ok [OF P h(1,2)] h(3) show ?thesis by (simp add: handle_timeout_def)
next
  case (CheckLookupEndGame tid)
  with check_lookup_endgame_ok [OF P h(1)] h(3) show ?thesis by (simp add: handle_timeout_def fired_def)
qed

section \<open>The loop\<close>

lemma timer_poll_next_id: "timer_poll_next r t = (res, t') \<Longrightarrow> timer_next_id t' = timer_next_id t"
  unfolding timer_poll_next_promote by (auto split: option.splits list.splits if_splits prod.splits)

lemma timer_poll_some: "\<not> timer_is_empty t \<Longrightarrow> timer_poll_next r t \<noteq> (PollReady None, t')"
  by (cases "timer_current (timer_promote t)")
    (auto simp: timer_poll_next_promote timer_promote_None simp del: timer_promote.simps split: if_splits)

lemma timer_polled:
  assumes "worker_ok w" and poll: "timer_poll_next ready (w_timer w) = (res, t)"
  shows "worker_ok (tick (w\<lparr>w_timer := t\<rparr>))"
    and "res = PollPending \<Longrightarrow> task_at (tick (w\<lparr>w_timer := t\<rparr>)) = task_at w"
    and "res = PollReady (Some v) \<Longrightarrow> \<exists>k. task_at w k = Some v \<and> task_at (tick (w\<lparr>w_timer := t\<rparr>)) = (task_at w)(k := None)"
proof -
  from assms(1) have ok: "timer_wf (w_timer w)" "unat (timer_next_id (w_timer w)) \<le> w_ticks w"
    "\<forall>k. task_at w k \<noteq> None \<longrightarrow> unat (timeout_id k) < unat (timer_next_id (w_timer w))" "rt_wf (w_table w)"
    by (simp_all add: worker_ok_def timer_ok_def)
  note poll_ok = timer_poll_next_refines [OF ok(1) poll]
  then have sub: "\<forall>k. timer_abs t k \<noteq> None \<longrightarrow> task_at w k \<noteq> None"
    by (auto simp: timer_poll_spec_def split: timer_poll.splits option.splits if_splits)
  show "worker_ok (tick (w\<lparr>w_timer := t\<rparr>))"
    using ok poll_ok sub timer_poll_next_id [OF poll] by (simp add: worker_ok_def timer_ok_def tick_def)
  show "res = PollPending \<Longrightarrow> task_at (tick (w\<lparr>w_timer := t\<rparr>)) = task_at w"
    using poll_ok by (auto simp: timer_poll_spec_def tick_def)
  show "res = PollReady (Some v) \<Longrightarrow> \<exists>k. task_at w k = Some v \<and> task_at (tick (w\<lparr>w_timer := t\<rparr>)) = (task_at w)(k := None)"
    using poll_ok by (auto simp: timer_poll_spec_def tick_def)
qed

lemma run_timer_ok:
  assumes P: "\<not> clients_listen E \<longrightarrow> P" and h: "handler_ok E A h" "dh_status h \<noteq> DhtFail"
  shows "handles P (run_one E InTimer h) (handler_ok E A)"
proof (cases "timer_is_empty (w_timer (dh_worker h))")
  case True
  with h(1) show ?thesis by (simp add: run_one_def)
next
  case False
  obtain res t where poll: "timer_poll_next (\<lambda>d. d \<le> dh_now E h) (w_timer (dh_worker h)) = (res, t)"
    by (cases "timer_poll_next (\<lambda>d. d \<le> dh_now E h) (w_timer (dh_worker h))")
  let ?w = "(dh_worker h)\<lparr>w_timer := t\<rparr>"
  let ?h = "dh_tick (h\<lparr>dh_worker := ?w\<rparr>)"
  from h(1) have wf: "handler_wf E A h" and all_live: "all_live h" by (simp_all add: handler_ok_def)
  have wf': "handler_wf E A ?h" using wf stores_ok_later [of E h ?h] by (simp add: handler_wf_def dh_tick_def tick_def)
  have t0: "in_time (dh_worker h)" if "in_time (tick ?w)" using that by (simp add: in_time_def tick_def)
  have waits: "action_waits a act (dh_worker h)" if "in_time (tick ?w)" "table_actions h a = Some act" for a act
    using all_live h(2) t0 [OF that(1)] that(2) unfolding live_but_def by blast
  note polled = timer_polled [OF _ poll]
  note wok = live_worker_ok [OF all_live]
  show ?thesis
  proof (cases res)
    case PollPending
    have same: "task_at (tick ?w) = task_at (dh_worker h)" if "in_time (tick ?w)"
      using polled(2) wok t0 that PollPending by blast
    have "action_waits a act (tick ?w)" if "in_time (tick ?w)" "table_actions h a = Some act" for a act
      using waits [OF that] same [OF that(1)]
      by (cases act) (simp_all add: lookup_ok_def lookup_waits_def bootstrap_ok_def bootstrap_waits_def)
    then have "all_live ?h" using polled(1) wok t0 by (simp add: live_but_def dh_tick_def)
    with wf' PollPending poll False show ?thesis by (simp add: run_one_def handler_ok_def)
  next
    case (PollReady o_v)
    with poll timer_poll_some [OF False] obtain v where v: "o_v = Some v" by (cases o_v) auto
    have "fired v ?h"
      unfolding fired_def
    proof (intro conjI impI allI)
      have one: "\<exists>k. task_at (dh_worker h) k = Some v \<and> task_at (tick ?w) = (task_at (dh_worker h))(k := None)" if "in_time (tick ?w)"
        using polled(3) wok t0 that PollReady v by blast
      have "action_waits a act (tick ?w)" if "in_time (tick ?w)" "table_actions h a = Some act" "a \<noteq> action_id (task_id v)" for a act
        using action_waits_fired [OF waits [OF that(1,2)]] one [OF that(1)] that(3) by metis
      then show "live_but (Some (action_id (task_id v))) ?h" using polled(1) wok t0 by (simp add: live_but_def dh_tick_def)
      fix act assume "in_time (dh_worker ?h)" and "table_actions ?h (action_id (task_id v)) = Some act"
      then have "in_time (tick ?w)" "table_actions h (action_id (task_id v)) = Some act" by (simp_all add: dh_tick_def)
      with waits_after_fired [OF waits] one show "waits_after v act (dh_worker ?h)" by (fastforce simp: dh_tick_def)
    qed
    from handle_timeout_ok [OF P wf' _ this] h(2) v PollReady poll False show ?thesis by (simp add: run_one_def dh_tick_def)
  qed
qed

fun input_ok :: "SocketAddr set \<Rightarrow> bool \<Rightarrow> dht_input \<Rightarrow> bool" where
  "input_ok A P (InMessage buf addr) = (addr \<in> A \<and> (harmless buf \<or> P))"
| "input_ok A P _ = True"

lemma run_one_ok:
  assumes P: "\<not> clients_listen E \<longrightarrow> P" and h: "handler_ok E A h" "dh_status h \<noteq> DhtFail"
    and A: "v4_all A" "A \<subseteq> range SockV4 \<or> P" and inp: "input_ok A P inp"
  shows "handles P (run_one E inp h) (handler_ok E A)"
proof (cases inp)
  case (InCommand c)
  have "handler_ok E A (shutdown h)" using h(1) by (simp add: handler_ok_def handler_wf_def live_but_def shutdown_def)
  with InCommand handle_command_ok [OF P h] show ?thesis by (cases c) (simp_all add: run_one_def)
next
  case (InMessage buf addr)
  with handle_incoming_ok [OF P h _ A] inp show ?thesis by (simp add: run_one_def)
next
  case InTimer
  with run_timer_ok [OF P h] show ?thesis by simp
qed (use h in \<open>simp add: run_one_def\<close>)

lemma run_ok:
  "\<not> clients_listen E \<longrightarrow> P \<Longrightarrow> handler_ok E A h \<Longrightarrow> v4_all A \<Longrightarrow> A \<subseteq> range SockV4 \<or> P \<Longrightarrow> \<forall>inp\<in>set inps. input_ok A P inp \<Longrightarrow>
   handles P (run E inps h) (handler_ok E A)"
proof (induction inps arbitrary: h)
  case (Cons inp inps)
  show ?case
  proof (cases "dh_status h = DhtFail")
    case False
    with Cons show ?thesis by (auto intro!: handles_bind [OF run_one_ok])
  qed (use Cons in simp)
qed simp

lemma new_handler_ok:
  assumes "sha_wf nid" and "v4_all A"
  shows "handler_ok E A (dht_handler_new E (routing_table_new nid) addr ro port)"
proof -
  obtain m ag where gen: "aid_generate (env_rnd E 1) (aid_generator_new (env_rnd E 0)) = (m, ag)"
    by (cases "aid_generate (env_rnd E 1) (aid_generator_new (env_rnd E 0))")
  from aid_generate_ok [OF aid_ok_new gen] obtain aid where aid: "aid_ok ag" "unat aid < 2 ^ 40" "mid_ok aid m" by blast
  obtain tid m' where mid: "mid_generate (env_rnd E 2) m = (tid, m')" by (cases "mid_generate (env_rnd E 2) m")
  from mid_generate_ok [OF aid(3) mid] aid(2) have m': "mid_ok aid m'" "action_id tid = aid"
    by (auto simp: action_id_def transaction_id_new_def action_of_composed)
  have "placeholder_addr \<in> A" using assms(2) by (auto simp: v4_all_def placeholder_addr_def)
  then have "table_addrs (routing_table_new nid) \<subseteq> A"
    by (auto simp: table_addrs_def all_nodes_def routing_table_new_def bucket_new_def Let_def as_bad_def node_addr_def placeholder_addr_def)
  moreover have "refresh_wf (action_id tid) (table_refresh_new m')" using m' aid(2) by (simp add: refresh_wf_def table_refresh_new_def)
  moreover have "stores_ok E (dht_handler_new E (routing_table_new nid) addr ro port)"
    using monoD [of "env_utc E" 3 5]
    by (simp add: dht_handler_new_def gen [unfolded One_nat_def] mid stores_ok_def store_wf_new token_store_new_def clock_ok_def Let_def)
  ultimately have "handler_wf E A (dht_handler_new E (routing_table_new nid) addr ro port)"
    using rt_wf_new [OF assms(1)] aid(1) by (simp add: dht_handler_new_def gen [unfolded One_nat_def] mid handler_wf_def Let_def)
  moreover have "all_live (dht_handler_new E (routing_table_new nid) addr ro port)"
    using rt_wf_new [OF assms(1)]
    by (simp add: dht_handler_new_def gen [unfolded One_nat_def] mid live_but_def worker_ok_def timer_ok_def timer_abs_new timer_wf_new Let_def)
      (simp add: timer_new_def)
  ultimately show ?thesis by (simp add: handler_ok_def)
qed

section \<open>Properties\<close>

text \<open>The tasks that take an action on.\<close>

fun resumes :: "u64 \<Rightarrow> TableAction \<Rightarrow> ScheduledTask \<Rightarrow> bool" where
  "resumes aid (ActLookup l) (CheckLookupTimeout tid) = (action_id tid = aid \<and> \<not> in_endgame l \<and> map_of (active_lookups l) tid \<noteq> None)"
| "resumes aid (ActLookup l) (CheckLookupEndGame tid) = (action_id tid = aid \<and> in_endgame l)"
| "resumes aid (ActRefresh r) (CheckTableRefresh tid) = (action_id tid = aid)"
| "resumes aid (ActBootstrap b attempts) (CheckBootstrapTimeout tid) = (action_id tid = aid \<and> map_of (active_messages b) tid \<noteq> None)"
| "resumes aid act task = False"

lemma action_waits_resumes:
  assumes "action_waits aid act w"
  shows "\<exists>k v. task_at w k = Some v \<and> resumes aid act v"
proof (cases act)
  case (ActLookup l)
  show ?thesis
  proof (cases "in_endgame l")
    case True
    with assms ActLookup show ?thesis by (force simp: lookup_ok_def lookup_waits_def)
  next
    case False
    with assms ActLookup obtain tid dist k where "(tid, dist, k) \<in> set (active_lookups l)"
      by (cases "active_lookups l") (auto simp: lookup_ok_def)
    moreover from this False assms ActLookup have "task_at w k = Some (CheckLookupTimeout tid)" "action_id tid = aid"
      by (auto simp: lookup_ok_def lookup_waits_def)
    ultimately show ?thesis using False ActLookup
      using weak_map_of_SomeI by (intro exI [of _ k] exI [of _ "CheckLookupTimeout tid"]) fastforce
  qed
next
  case (ActRefresh r)
  with assms show ?thesis by force
next
  case (ActBootstrap b n)
  with assms obtain tid k where "(tid, k) \<in> set (active_messages b)" by (cases "active_messages b") (auto simp: bootstrap_ok_def)
  moreover from this assms ActBootstrap have "task_at w k = Some (CheckBootstrapTimeout tid)" "action_id tid = aid"
    by (auto simp: bootstrap_ok_def bootstrap_waits_def)
  ultimately show ?thesis using ActBootstrap
    using weak_map_of_SomeI by (intro exI [of _ k] exI [of _ "CheckBootstrapTimeout tid"]) fastforce
qed

lemma run_reachable_ok:
  assumes "sha_wf nid" and "run E inps (dht_handler_new E (routing_table_new nid) addr ro port) = Ok h"
  shows "handler_ok E UNIV h"
proof -
  have v4: "v4_all UNIV" by (simp add: v4_all_def)
  have "\<forall>inp\<in>set inps. input_ok UNIV True inp"
  proof
    fix inp show "input_ok UNIV True inp" by (cases inp) simp_all
  qed
  from run_ok [OF _ new_handler_ok [OF assms(1) v4] v4 _ this, of E addr ro port] assms(2) show ?thesis by simp
qed

definition sample_env :: Env where
  "sample_env = \<lparr>env_clock = \<lambda>_. 0, env_utc = \<lambda>_. 0, env_rnd = \<lambda>_ _. 0, env_secret = \<lambda>_ _. 0, env_takes = \<lambda>_ _. True,
     env_resolve = \<lambda>_ _ _. None, env_sha1 = \<lambda>_. replicate 20 0, env_minutes = \<lambda>d. d div 60000000000\<rparr>"

definition sample_addr :: SocketAddr where
  "sample_addr = SockV4 \<lparr>v4_ip = Ipv4Addr 1 2 3 4, v4_port = 6881\<rparr>"

abbreviation sample_start :: DhtHandler where
  "sample_start \<equiv> dht_handler_new sample_env (routing_table_new (replicate 20 7)) sample_addr False None"

abbreviation sample_inputs :: "dht_input list" where
  "sample_inputs \<equiv> [InCommand (Some (StartBootstrap [] [sample_addr])), InMessage [] sample_addr]"

lemma sample_undecodable: "\<exists>e. decode_top [] default_opt = Err e"
proof -
  have "(case decode_top [] default_opt of Err e \<Rightarrow> True | _ \<Rightarrow> False)" by code_simp
  then show ?thesis by (auto split: outcome.splits)
qed

lemma sample_started:
  "\<exists>h aid b. run sample_env sample_inputs sample_start = Ok h \<and> dh_status h = DhtBootstrapping \<and> dh_ticks h < 2 ^ 64 \<and>
     table_actions h aid = Some (ActBootstrap b 0)"
proof -
  have init: "dh_status sample_start = DhtInit" "dh_ticks sample_start = 5"
    by (simp_all add: dht_handler_new_def Let_def split: prod.split)
  have "\<exists>h' aid b. handle_start_bootstrap sample_env [] [sample_addr] h = Ok h' \<and> dh_status h' = DhtBootstrapping \<and>
      dh_ticks h' = dh_ticks h + 5 \<and> table_actions h' aid = Some (ActBootstrap b 0)" if "dh_status h = DhtInit" for h
    using that
    by (auto simp: handle_start_bootstrap_def dh_generate_def start_bootstrap_def table_bootstrap_new_def w_generate_def w_schedule_def
        w_send_def sample_env_def current_bootstrap_status_def hm_insert_def dh_tick_def tick_def set_action_def Let_def split: prod.split)
  from this [OF init(1)] init(2) obtain h aid b where "handle_start_bootstrap sample_env [] [sample_addr] sample_start = Ok h"
    "dh_status h = DhtBootstrapping" "dh_ticks h = 10" "table_actions h aid = Some (ActBootstrap b 0)" by auto
  moreover have "handle_incoming sample_env [] sample_addr x = Ok x" for x
    using sample_undecodable by (auto simp: handle_incoming_def)
  ultimately show ?thesis using init(1) by (auto simp: run_one_def handle_command_def)
qed

text \<open>
  C1. No action of the DHT is forgotten. However a DHT was started and whatever commands, datagrams, socket errors
  and timeouts it got, as long as it runs and made fewer than \<open>2\<^sup>6\<^sup>4\<close> steps, its routing table is well-formed and for
  every lookup, refresh and bootstrap in progress a timer is pending that takes that very action on.
\<close>

theorem dht_actions_resume:
  assumes "sha_wf nid" and "run E inps (dht_handler_new E (routing_table_new nid) addr ro port) = Ok h"
    and "dh_status h \<noteq> DhtFail" and "dh_ticks h < 2 ^ 64"
  shows "rt_wf (dh_table h) \<and>
    (\<forall>aid act. table_actions h aid = Some act \<longrightarrow> (\<exists>k v. task_at (dh_worker h) k = Some v \<and> resumes aid act v))"
proof -
  have ok: "handler_ok E UNIV h" by (rule run_reachable_ok [OF assms(1,2)])
  have t: "in_time (dh_worker h)" using assms(4) by (simp add: in_time_def)
  have "\<exists>k v. task_at (dh_worker h) k = Some v \<and> resumes aid act v" if "table_actions h aid = Some act" for aid act
    using action_waits_resumes [OF handler_action(5) [OF ok that t assms(3)]] .
  moreover have "rt_wf (dh_table h)" using ok by (simp add: handler_ok_def handler_wf_def)
  ultimately show ?thesis by blast
qed

theorem dht_actions_resume_witness:
  "\<exists>h aid b k v. run sample_env sample_inputs sample_start = Ok h \<and> table_actions h aid = Some (ActBootstrap b 0) \<and>
     task_at (dh_worker h) k = Some v \<and> resumes aid (ActBootstrap b 0) v"
proof -
  obtain h aid b where h: "run sample_env sample_inputs sample_start = Ok h" "dh_status h = DhtBootstrapping" "dh_ticks h < 2 ^ 64"
    "table_actions h aid = Some (ActBootstrap b 0)" using sample_started by blast
  have "sha_wf (replicate 20 7)" by (simp add: sha_wf_def SHA_HASH_LEN_def)
  from dht_actions_resume [OF this h(1) _ h(3)] h(2,4) have "\<exists>k v. task_at (dh_worker h) k = Some v \<and> resumes aid (ActBootstrap b 0) v"
    by simp
  with h(1,4) show ?thesis by blast
qed



text \<open>
  C33. One datagram ends the DHT: a bencoded response with a list of nodes or a token whose transaction id does not have
  eight bytes, or a datagram on which the decoder panics, panics the event loop in every state, whoever sent it.
\<close>

theorem dht_bad_datagram_panics:
  assumes "\<not> harmless buf"
  shows "handle_incoming E buf addr h = Panic"
proof (cases "decode_top buf default_opt")
  case (Ok bencode)
  with assms obtain rs where "message_new bencode = Ok (MtResponse rs)" "\<not> response_tid_ok rs"
    by (auto simp: harmless_def split: outcome.splits MessageType.splits)
  with Ok show ?thesis
    by (cases rs) (auto simp: handle_incoming_def handle_incoming_preprocess_def handle_incoming_response_def
        handle_find_node_response_def handle_get_peers_response_def transaction_id_from_bytes_def ok_or_def
        TRANSACTION_ID_BYTES_def ACTION_ID_BYTES_def MESSAGE_ID_BYTES_def)
qed (use assms in \<open>auto simp: harmless_def handle_incoming_def\<close>)

definition short_tid_response :: bytes where
  "short_tid_response = ascii ''d1:rd2:id20:aaaaaaaaaaaaaaaaaaaa5:nodes0:e1:t1:x1:y1:re''"

theorem dht_bad_datagram_panics_witness:
  "handle_incoming sample_env short_tid_response sample_addr sample_start = Panic"
proof -
  have "\<not> harmless short_tid_response" by code_simp
  then show ?thesis by (rule dht_bad_datagram_panics)
qed

text \<open>
  C19. Counters and ids of the actions stay in their range in every reachable state: action ids have at most 40 bits,
  a bootstrap in progress is at one of the 160 buckets and was restarted at most twice, a refresh is at most one
  past the last bucket, and the nodes of a lookup are in the order of their distance to the target.
\<close>

theorem dht_actions_in_bounds:
  assumes "sha_wf nid" and "run E inps (dht_handler_new E (routing_table_new nid) addr ro port) = Ok h"
    and "table_actions h aid = Some act"
  shows "unat aid < 2 ^ 40 \<and> (case act of
      ActBootstrap b attempts \<Rightarrow> (\<not> is_completed b \<longrightarrow> curr_bootstrap_bucket b < 160) \<and> attempts \<le> 2
    | ActRefresh r \<Rightarrow> curr_refresh_bucket r \<le> 160
    | ActLookup l \<Rightarrow> nodes_sorted (target_id l) (all_sorted_nodes l))"
proof -
  have "action_wf aid act" using handler_action(1) [OF run_reachable_ok [OF assms(1,2)] assms(3)] .
  then show ?thesis
    by (cases act) (auto simp: lookup_wf_def refresh_wf_def bootstrap_wf_def MAX_BUCKETS_def SHA_HASH_LEN_def MAX_BOOTSTRAP_ATTEMPTS_def)
qed

theorem dht_actions_in_bounds_witness:
  "\<exists>h aid b. run sample_env sample_inputs sample_start = Ok h \<and> table_actions h aid = Some (ActBootstrap b 0) \<and> unat aid < 2 ^ 40"
proof -
  obtain h aid b where h: "run sample_env sample_inputs sample_start = Ok h" "table_actions h aid = Some (ActBootstrap b 0)"
    using sample_started by blast
  have "sha_wf (replicate 20 7)" by (simp add: sha_wf_def SHA_HASH_LEN_def)
  from dht_actions_in_bounds [OF this h] have "unat aid < 2 ^ 40" by simp
  with h show ?thesis by blast
qed

end
