(* ===== verification/Dht_Service.thy ===== *)
theory Dht_Service
  imports Dht_Loop Dht_Message_Correct
begin

text \<open>
  What the DHT does for other nodes: every request is answered, and a peer that was announced with a token it got is
  among the peers the next asker is told.
\<close>

section \<open>Replies\<close>

abbreviation sent :: "DhtHandler \<Rightarrow> (bytes \<times> SocketAddr) list" where
  "sent h \<equiv> w_sent (dh_worker h)"

abbreviation out_open :: "Env \<Rightarrow> bool" where
  "out_open E \<equiv> \<forall>t. env_takes E OutChannel t"

lemma respond_sent:
  "out_open E \<Longrightarrow> respond E msg addr h = Ok (h\<lparr>dh_worker := tick ((dh_worker h)\<lparr>w_sent := sent h @ [(msg, addr)]\<rparr>)\<rparr>)"
  by (simp add: respond_def w_send_def)

lemma dh_tick_sel [simp]:
  "dh_ticks (dh_tick h) = Suc (dh_ticks h)" "dh_table (dh_tick h) = dh_table h" "sent (dh_tick h) = sent h"
  "active_stores (dh_tick h) = active_stores h" "token_store (dh_tick h) = token_store h" "read_only (dh_tick h) = read_only h"
  by (simp_all add: dh_tick_def tick_def)

lemma dh_remote_request_sel [simp]:
  "dh_ticks (dh_remote_request E i a h) = Suc (dh_ticks h)" "sent (dh_remote_request E i a h) = sent h"
  "rt_node_id (dh_table (dh_remote_request E i a h)) = rt_node_id (dh_table h)"
  "active_stores (dh_remote_request E i a h) = active_stores h" "read_only (dh_remote_request E i a h) = read_only h" "token_store (dh_remote_request E i a h) = token_store h"
  by (simp_all add: dh_remote_request_def dh_tick_def tick_def Let_def)

text \<open>The bytes of the nodes closest to a target: at most eight nodes, 26 bytes each.\<close>

definition listed :: "RoutingTable \<Rightarrow> bytes \<Rightarrow> bool" where
  "listed t bs \<longleftrightarrow> (\<exists>ns. encode_nodes ns = Ok bs \<and> length ns \<le> 8 \<and> node_addr ` set ns \<subseteq> table_addrs t)"

lemma encode_nodes_length: "encode_nodes ns = Ok bs \<Longrightarrow> length bs = 26 * length ns"
proof (induction ns arbitrary: bs)
  case (Cons n ns)
  then obtain b rest where "node_encode n = Ok b" "encode_nodes ns = Ok rest" "bs = b @ rest" by (auto simp: outcome_simps)
  with Cons.IH node_encode_length show ?case by fastforce
qed simp

lemma listed_length: "listed t bs \<Longrightarrow> length bs mod 26 = 0 \<and> length bs \<le> 208"
  using encode_nodes_length by (auto simp: listed_def)

lemma closest_listed:
  assumes "handler_wf E (range SockV4) h"
  obtains bs where "closest_nodes_bytes E target h = Ok bs" "listed (dh_table h) bs"
proof -
  from closest_nodes_bytes_ok [OF assms, where P = False and target = target] obtain bs where bs: "closest_nodes_bytes E target h = Ok bs"
    by (cases "closest_nodes_bytes E target h") (auto simp: handles_def)
  let ?ns = "closest_nodes (dh_now E h) (dh_table h) target"
  have "set ?ns \<subseteq> set (all_nodes (dh_table h))"
    using closest_nodes_mset [of "dh_table h" "dh_now E h" target] assms unfolding handler_wf_def by (metis filter_is_subset set_mset_mset)
  then have "node_addr ` set (take 8 ?ns) \<subseteq> table_addrs (dh_table h)" using set_take_subset [of 8 ?ns] by (auto simp: table_addrs_def)
  moreover have "encode_nodes (take 8 ?ns) = Ok bs" "length (take 8 ?ns) \<le> 8" using bs by (simp_all add: closest_nodes_bytes_def)
  ultimately have "listed (dh_table h) bs" unfolding listed_def by blast
  with bs that show thesis by blast
qed

text \<open>The contacts of a reply: six bytes for every IPv4 address.\<close>

fun v4_of :: "SocketAddr \<Rightarrow> SocketAddrV4 list" where
  "v4_of (SockV4 a) = [a]"
| "v4_of (SockV6 _) = []"

lemma contact_bytes_eq: "contact_bytes a = concat (map sock_v4_to_bytes_be (v4_of a))"
proof -
  have "ucast (p AND 0x00FF) = (ucast p :: byte)" for p :: u16
  proof -
    have "ucast (p AND mask 8) = (ucast p :: byte)" by (rule bit_word_eqI) (auto simp: bit_simps)
    then show ?thesis by (simp add: mask_eq_exp_minus_1)
  qed
  then show ?thesis by (cases a) (simp_all add: sock_v4_to_bytes_be_def port_to_bytes_be_def)
qed

lemma slices_concat:
  "\<forall>v\<in>set vs. length v = 6 \<Longrightarrow> map (\<lambda>i. slice (concat vs) (i * 6) (i * 6 + 6)) [0..<length vs] = vs"
proof (induction vs)
  case (Cons v vs)
  have "map (\<lambda>i. slice (concat (v # vs)) (i * 6) (i * 6 + 6)) [0..<length (v # vs)] =
      slice (concat (v # vs)) 0 6 # map (\<lambda>i. slice (concat (v # vs)) (Suc i * 6) (Suc i * 6 + 6)) [0..<length vs]"
    by (simp add: upt_conv_Cons map_Suc_upt [symmetric] comp_def del: upt_Suc)
  also have "slice (concat (v # vs)) 0 6 = v" using Cons.prems by (simp add: slice_def)
  also have "map (\<lambda>i. slice (concat (v # vs)) (Suc i * 6) (Suc i * 6 + 6)) [0..<length vs] =
      map (\<lambda>i. slice (concat vs) (i * 6) (i * 6 + 6)) [0..<length vs]"
    using Cons.prems by (simp add: slice_def)
  finally show ?case using Cons by simp
qed simp

lemma contact_chunks_eq: "contact_chunks (concat (map contact_bytes items)) = map sock_v4_to_bytes_be (concat (map v4_of items))"
proof -
  let ?vs = "map sock_v4_to_bytes_be (concat (map v4_of items))"
  have six: "\<forall>v\<in>set ?vs. length v = 6" by (auto simp: sock_v4_codec.to_bytes_length)
  have eq: "concat (map contact_bytes items) = concat ?vs" by (induction items) (simp_all add: contact_bytes_eq)
  have "length (concat vs) = 6 * length vs" if "\<forall>v\<in>set vs. length v = 6" for vs :: "bytes list" using that by (induction vs) simp_all
  from this [OF six] have "length (concat ?vs) = 6 * length ?vs" .
  with slices_concat [OF six] eq show ?thesis by (simp add: contact_chunks_def)
qed

abbreviation get_peers_message :: "bytes \<Rightarrow> ShaHash \<Rightarrow> bytes \<Rightarrow> CompactInfoType \<Rightarrow> MessageType" where
  "get_peers_message tid own token info \<equiv>
     MtResponse (RsGetPeers \<lparr>gpr_trans_id = tid, gpr_node_id = own, gpr_token = Some token, gpr_info_type = info\<rparr>)"

fun contact_info :: "bytes \<Rightarrow> SocketAddrV4 list \<Rightarrow> CompactInfoType" where
  "contact_info bs [] = InfoNodes \<lparr>cni_nodes = bs\<rparr>"
| "contact_info bs vs = InfoBoth \<lparr>cni_nodes = bs\<rparr> \<lparr>cvi_values = map sock_v4_to_bytes_be vs\<rparr>"

lemma respond_quiet: "out_open E \<Longrightarrow> respond E msg addr h = Ok h' \<Longrightarrow> quiet E A h h'"
  using keeps_tick [of "dh_worker h'" "dh_worker h" A "\<lambda>_. True"]
  by (auto simp: respond_sent tick_def intro!: quietI)

lemma respond_contacts:
  assumes "compact_value_info_new (map sock_v4_to_bytes_be vs) = Ok \<lparr>cvi_values = map sock_v4_to_bytes_be vs\<rparr>"
    and "compact_node_info_new bs = Ok \<lparr>cni_nodes = bs\<rparr>"
  shows "try_bind (if map sock_v4_to_bytes_be vs \<noteq> [] then
        try_bind (unwrap (compact_node_info_new bs)) (\<lambda>ns.
        try_bind (unwrap (compact_value_info_new (map sock_v4_to_bytes_be vs))) (\<lambda>vs. Ok (InfoBoth ns vs)))
      else try_bind (unwrap (compact_node_info_new bs)) (\<lambda>ns. Ok (InfoNodes ns))) (\<lambda>info_type.
      respond E (get_peers_response_encode
        \<lparr>gpr_trans_id = tid, gpr_node_id = own, gpr_token = Some token, gpr_info_type = info_type\<rparr>) addr h) =
    respond E (message_encode (get_peers_message tid own token (contact_info bs vs))) addr h"
  using assms by (cases vs) simp_all

lemma get_peers_reply:
  assumes wf: "handler_wf E (range SockV4) h" and out: "out_open E"
  obtains h' bs token items where
    "handle_get_peers E g addr h = Ok h'" "quiet E (range SockV4) h h'" "dh_ticks h' = dh_ticks h + 5"
    "rt_node_id (dh_table h') = rt_node_id (dh_table h)" "read_only h' = read_only h" "length bs mod 26 = 0" "length bs \<le> 208"
    "sent h' = sent h @ [(message_encode (get_peers_message (gp_trans_id g) (rt_node_id (dh_table h)) token
       (contact_info bs (concat (map v4_of items)))), addr)]"
    "find_items (env_utc E (dh_ticks h + 1)) (gp_info_hash g) (active_stores h) = (items, active_stores h')"
    "checkout (env_minutes E) (env_sha1 E) (env_utc E (dh_ticks h + 3)) (env_secret E (dh_ticks h + 3))
       (ip_of_socket_addr addr) (token_store h) = (token, token_store h')"
proof -
  define h1 where "h1 = dh_remote_request E (gp_node_id g) addr h"
  obtain items store where find: "find_items (env_utc E (dh_ticks h1)) (gp_info_hash g) (active_stores h1) = (items, store)"
    by (cases "find_items (env_utc E (dh_ticks h1)) (gp_info_hash g) (active_stores h1)")
  define h2 where "h2 = dh_tick (h1\<lparr>active_stores := store\<rparr>)"
  have q2: "quiet E (range SockV4) h h2"
    using quiet_trans [OF quiet_remote_request quiet_find_items [OF find [unfolded h1_def]]] by (simp add: h1_def h2_def)
  obtain bs where bs: "closest_nodes_bytes E (gp_info_hash g) h2 = Ok bs" "listed (dh_table h2) bs"
    using closest_listed [OF quiet_wf [OF wf q2]] by blast
  then have len: "length bs mod 26 = 0" "length bs \<le> 208" using listed_length by blast+
  obtain token ts where tok: "checkout (env_minutes E) (env_sha1 E) (env_utc E (dh_ticks (dh_tick h2))) (env_secret E (dh_ticks (dh_tick h2)))
      (ip_of_socket_addr addr) (token_store (dh_tick h2)) = (token, ts)"
    by (cases "checkout (env_minutes E) (env_sha1 E) (env_utc E (dh_ticks (dh_tick h2))) (env_secret E (dh_ticks (dh_tick h2)))
      (ip_of_socket_addr addr) (token_store (dh_tick h2))")
  define h3 where "h3 = dh_tick ((dh_tick h2)\<lparr>token_store := ts\<rparr>)"
  have q3: "quiet E (range SockV4) h h3"
    using quiet_trans [OF q2 quiet_trans [OF quiet_tick quiet_tokens [OF checkout_store [OF tok]]]] by (simp add: h3_def)
  let ?vs = "concat (map v4_of items)"
  let ?msg = "get_peers_message (gp_trans_id g) (rt_node_id (dh_table h)) token (contact_info bs ?vs)"
  define h4 where "h4 = h3\<lparr>dh_worker := tick ((dh_worker h3)\<lparr>w_sent := sent h3 @ [(message_encode ?msg, addr)]\<rparr>)\<rparr>"
  have vals: "compact_value_info_new (map sock_v4_to_bytes_be ?vs) = Ok \<lparr>cvi_values = map sock_v4_to_bytes_be ?vs\<rparr>"
    by (simp add: compact_value_info_new_def check_values_ok sock_v4_codec.to_bytes_length)
  have own: "rt_node_id (dh_table h3) = rt_node_id (dh_table h)" by (simp add: h3_def h2_def h1_def)
  have "handle_get_peers E g addr h = respond E (message_encode ?msg) addr h3"
    unfolding handle_get_peers_def h1_def [symmetric] find Let_def prod.case h2_def [symmetric] tok h3_def [symmetric] bs(1) try_bind.simps
      contact_chunks_eq own
    by (rule respond_contacts [OF vals compact_node_info_new_ok [OF len(1)]])
  then have "handle_get_peers E g addr h = Ok h4" using respond_sent [OF out] by (simp add: h4_def)
  moreover have "quiet E (range SockV4) h h4"
    using q3 respond_quiet [OF out, of "message_encode ?msg" addr h3 h4] respond_sent [OF out] by (metis quiet_trans h4_def)
  moreover have "dh_ticks h4 = dh_ticks h + 5" "sent h4 = sent h @ [(message_encode ?msg, addr)]"
    "rt_node_id (dh_table h4) = rt_node_id (dh_table h)" "read_only h4 = read_only h"
    by (simp_all add: h4_def h3_def h2_def h1_def tick_def)
  moreover have "find_items (env_utc E (dh_ticks h + 1)) (gp_info_hash g) (active_stores h) = (items, active_stores h4)"
    using find by (simp add: h4_def h3_def h2_def h1_def)
  moreover have "checkout (env_minutes E) (env_sha1 E) (env_utc E (dh_ticks h + 3)) (env_secret E (dh_ticks h + 3))
       (ip_of_socket_addr addr) (token_store h) = (token, token_store h4)"
    using tok by (simp add: h4_def h3_def h2_def h1_def eval_nat_numeral)
  ultimately show thesis using len by (intro that [of h4 bs token items])
qed

lemma announce_reply:
  assumes wf: "handler_wf E A h" and out: "out_open E"
    and tok: "token_new (ap_token a) = Ok token" and valid: "fst (checkin (env_minutes E) (env_sha1 E) (env_utc E (dh_ticks h + 1))
      (env_secret E (dh_ticks h + 1)) (ip_of_socket_addr addr) token (token_store h))"
    and add: "add_item (env_utc E (dh_ticks h + 2)) (ap_info_hash a) (connect_addr (ap_port a) addr) (active_stores h) = (True, store)"
  obtains h' where "handle_announce_peer E a addr h = Ok h'" "quiet E A h h'" "dh_ticks h' = dh_ticks h + 4"
    "rt_node_id (dh_table h') = rt_node_id (dh_table h)" "active_stores h' = store" "read_only h' = read_only h"
    "sent h' = sent h @ [(message_encode (MtResponse (RsAnnouncePeer \<lparr>act_trans_id = ap_trans_id a, act_node_id = rt_node_id (dh_table h)\<rparr>)), addr)]"
proof -
  define h1 where "h1 = dh_remote_request E (ap_node_id a) addr h"
  obtain ts where ts: "checkin (env_minutes E) (env_sha1 E) (env_utc E (dh_ticks h1)) (env_secret E (dh_ticks h1)) (ip_of_socket_addr addr) token
      (token_store h1) = (True, ts)"
    using valid by (cases "checkin (env_minutes E) (env_sha1 E) (env_utc E (dh_ticks h1)) (env_secret E (dh_ticks h1)) (ip_of_socket_addr addr) token
      (token_store h1)") (simp add: h1_def)
  define h2 where "h2 = dh_tick (h1\<lparr>token_store := ts\<rparr>)"
  have add': "add_item (env_utc E (dh_ticks h2)) (ap_info_hash a) (connect_addr (ap_port a) addr) (active_stores h2) = (True, store)"
    using add by (simp add: h2_def h1_def)
  define h3 where "h3 = dh_tick (h2\<lparr>active_stores := store\<rparr>)"
  let ?msg = "MtResponse (RsAnnouncePeer \<lparr>act_trans_id = ap_trans_id a, act_node_id = rt_node_id (dh_table h)\<rparr>)"
  define h4 where "h4 = h3\<lparr>dh_worker := tick ((dh_worker h3)\<lparr>w_sent := sent h3 @ [(message_encode ?msg, addr)]\<rparr>)\<rparr>"
  have "quiet E A h h2"
    using quiet_trans [OF quiet_remote_request quiet_tokens [OF checkin_store [OF ts [unfolded h1_def]]]] by (simp add: h1_def h2_def)
  then have q3: "quiet E A h h3" using quiet_add_item [OF add'] unfolding h3_def by (rule quiet_trans)
  have own: "rt_node_id (dh_table h3) = rt_node_id (dh_table h)" by (simp add: h3_def h2_def h1_def)
  have "handle_announce_peer E a addr h = respond E (message_encode ?msg) addr h3"
    unfolding handle_announce_peer_def Let_def h1_def [symmetric] tok outcome.case ts prod.case h2_def [symmetric] add' h3_def [symmetric] own
    by simp
  then have "handle_announce_peer E a addr h = Ok h4" using respond_sent [OF out] by (simp add: h4_def)
  moreover have "quiet E A h h4"
    using q3 respond_quiet [OF out, of "message_encode ?msg" addr h3 h4] respond_sent [OF out] by (metis quiet_trans h4_def)
  moreover have "dh_ticks h4 = dh_ticks h + 4" "active_stores h4 = store" "sent h4 = sent h @ [(message_encode ?msg, addr)]"
    "rt_node_id (dh_table h4) = rt_node_id (dh_table h)" "read_only h4 = read_only h"
    by (simp_all add: h4_def h3_def h2_def h1_def tick_def)
  ultimately show thesis by (intro that [of h4])
qed

section \<open>Reading the replies\<close>

definition reads_as :: "bytes \<Rightarrow> MessageType \<Rightarrow> bool" where
  "reads_as bs m \<longleftrightarrow> (\<exists>r. decode_top bs default_opt = Ok r \<and> message_new r = Ok m)"

text \<open>The replies to a request: its transaction id, the id of the DHT, and a message of the kind that was asked for.\<close>

fun answers :: "ShaHash \<Rightarrow> RequestType \<Rightarrow> MessageType \<Rightarrow> bool" where
  "answers own (RqPing p) m \<longleftrightarrow> m = MtResponse (RsActing \<lparr>act_trans_id = ping_trans_id p, act_node_id = own\<rparr>)"
| "answers own (RqFindNode f) m \<longleftrightarrow> (case m of
      MtResponse (RsFindNode r) \<Rightarrow> fnr_trans_id r = fn_trans_id f \<and> fnr_node_id r = own | _ \<Rightarrow> False)"
| "answers own (RqGetPeers g) m \<longleftrightarrow> (case m of
      MtResponse (RsGetPeers r) \<Rightarrow> gpr_trans_id r = gp_trans_id g \<and> gpr_node_id r = own \<and> gpr_token r \<noteq> None | _ \<Rightarrow> False)"
| "answers own (RqAnnouncePeer a) m \<longleftrightarrow> (case m of
      MtResponse (RsActing r) \<Rightarrow> act_trans_id r = ap_trans_id a \<and> act_node_id r = own
    | MtError e \<Rightarrow> err_trans_id e = ap_trans_id a \<and> (err_code e = ProtocolError \<or> err_code e = ServerError)
    | _ \<Rightarrow> False)"

lemma request_run:
  assumes "message_wf (MtRequest rq)" and "\<not> read_only h"
  shows "run_one E (InMessage (message_encode (MtRequest rq)) addr) h = handle_incoming_request E rq addr h"
  using message_request_roundtrip [OF assms(1)] assms(2)
  by (auto simp: run_one_def handle_incoming_def handle_incoming_preprocess_def)

lemma contact_info_wf: "length bs mod 26 = 0 \<Longrightarrow> length bs \<le> 208 \<Longrightarrow> info_wf (contact_info bs vs)"
  by (cases vs) (auto simp: fits_def list_all_iff sock_v4_codec.to_bytes_length)

lemma get_peers_message_reads:
  assumes "fits tid" and "sha_wf own" and "length token = 20" and "length bs mod 26 = 0" and "length bs \<le> 208"
  shows "reads_as (message_encode (get_peers_message tid own token (contact_info bs vs))) (get_peers_message tid own token (contact_info bs vs))"
proof -
  have "fits token" using assms(3) by (simp add: fits_def)
  then have "message_wf (get_peers_message tid own token (contact_info bs vs))" using assms contact_info_wf by simp
  from get_peers_response_roundtrip [OF this] show ?thesis by (simp add: reads_as_def)
qed

lemma acting_reads:
  "fits (act_trans_id a) \<Longrightarrow> sha_wf (act_node_id a) \<Longrightarrow> reads_as (acting_encode a) (MtResponse (RsActing a))"
  using acting_roundtrip by (simp add: reads_as_def)

lemma token_length:
  "\<forall>bs. length (sha1 bs) = 20 \<Longrightarrow> checkout m sha1 now rnd addr s = (token, ts) \<Longrightarrow> length token = 20"
  by (auto simp: checkout_def Let_def generate_token_from_addr_def generate_token_from_addr_v4_def
      generate_token_from_addr_v6_def split: IpAddr.splits)

lemma token_new_20: "length token = 20 \<Longrightarrow> token_new token = Ok token"
  by (simp add: token_new_def copy_over_def SHA_HASH_LEN_def map_snd_zip)

lemma handler_own: "handler_wf E A h \<Longrightarrow> sha_wf (rt_node_id (dh_table h))"
  by (simp add: handler_wf_def rt_wf_def)

lemma reachable_v4:
  assumes "sha_wf nid" and "\<forall>inp\<in>set inps. \<forall>buf a. inp = InMessage buf a \<longrightarrow> a \<in> range SockV4"
    and "run E inps (dht_handler_new E (routing_table_new nid) addr ro port) = Ok h"
  shows "handler_ok E (range SockV4) h"
proof -
  have v4: "v4_all (range SockV4)" by (simp add: v4_all_def)
  have "\<forall>inp\<in>set inps. input_ok (range SockV4) True inp"
  proof
    fix inp assume "inp \<in> set inps"
    with assms(2) show "input_ok (range SockV4) True inp" by (cases inp) auto
  qed
  from run_ok [OF _ new_handler_ok [OF assms(1) v4] v4 _ this, of E addr ro port] assms(3) show ?thesis by simp
qed

lemma live_mono: "Dht_Storage.live now m k \<noteq> None \<Longrightarrow> m k \<noteq> None"
  by (auto simp: live_def split: option.splits)

text \<open>A contact that was just added is found within a day.\<close>

lemma added_then_found:
  assumes "store_wf t1 s" and "t1 \<le> t2" and "t2 \<le> t3" and "length (expires s) < MAX_ITEMS_STORED" and "t3 - t2 < 24 * 3600000000000"
    and find1: "find_items t1 i1 s = (items1, s1)" and add: "add_item t2 i a s1 = (ok, s2)" and find2: "find_items t3 i s2 = (items2, s3)"
  shows "ok \<and> a \<in> set items2"
proof -
  note f1 = storage_find_refines [OF assms(1) find1]
  then have wf1: "store_wf t2 s1" using store_wf_later [OF _ assms(2)] by blast
  let ?m = "Dht_Storage.live t2 (store_abs s1)"
  have "dom ?m \<subseteq> dom (store_abs s)"
  proof
    fix k assume "k \<in> dom ?m"
    then have "Dht_Storage.live t1 (store_abs s) k \<noteq> None" using f1 live_mono [of t2 "store_abs s1" k] by auto
    then show "k \<in> dom (store_abs s)" using live_mono by blast
  qed
  then have "card (dom ?m) \<le> length (expires s)"
    using card_store_abs [OF assms(1)] card_mono [of "dom (store_abs s)" "dom ?m"] store_abs_dom [of s] by simp
  with assms(4) storage_add_refines [OF wf1 add] have a: "ok" "store_abs s2 = ?m((i, a) \<mapsto> t2)" "store_wf t2 s2" by auto
  have "Dht_Storage.live t3 (store_abs s2) (i, a) = Some t2"
    using assms(5) by (simp add: a live_def duration_hours_def EXPIRATION_TIME_HOURS_def)
  with storage_find_refines [OF store_wf_later [OF a(3) assms(3)] find2] a(1) show ?thesis by simp
qed

section \<open>Exchanges\<close>

text \<open>A request as bytes, the step it causes, and the reply as it is read.\<close>

lemma get_peers_exchange:
  assumes wf: "handler_wf E (range SockV4) h" and out: "out_open E" and sha: "\<forall>bs. length (env_sha1 E bs) = 20"
    and g: "message_wf (MtRequest (RqGetPeers g))" "\<not> read_only h"
  obtains h' reply token bs items where
    "run_one E (InMessage (get_peers_encode g) addr) h = Ok h'" "sent h' = sent h @ [(reply, addr)]"
    "reads_as reply (get_peers_message (gp_trans_id g) (rt_node_id (dh_table h)) token (contact_info bs (concat (map v4_of items))))"
    "quiet E (range SockV4) h h'" "dh_ticks h' = dh_ticks h + 5" "rt_node_id (dh_table h') = rt_node_id (dh_table h)" "\<not> read_only h'"
    "find_items (env_utc E (dh_ticks h + 1)) (gp_info_hash g) (active_stores h) = (items, active_stores h')"
    "checkout (env_minutes E) (env_sha1 E) (env_utc E (dh_ticks h + 3)) (env_secret E (dh_ticks h + 3))
       (ip_of_socket_addr addr) (token_store h) = (token, token_store h')"
    "length token = 20"
proof (rule get_peers_reply [OF wf out, of g addr])
  fix h' bs token items
  assume r: "handle_get_peers E g addr h = Ok h'" and q: "quiet E (range SockV4) h h'" "dh_ticks h' = dh_ticks h + 5"
      "rt_node_id (dh_table h') = rt_node_id (dh_table h)" "read_only h' = read_only h" and bs: "length bs mod 26 = 0" "length bs \<le> 208"
    and s: "sent h' = sent h @ [(message_encode (get_peers_message (gp_trans_id g) (rt_node_id (dh_table h)) token
       (contact_info bs (concat (map v4_of items)))), addr)]"
    and f: "find_items (env_utc E (dh_ticks h + 1)) (gp_info_hash g) (active_stores h) = (items, active_stores h')"
    and c: "checkout (env_minutes E) (env_sha1 E) (env_utc E (dh_ticks h + 3)) (env_secret E (dh_ticks h + 3))
       (ip_of_socket_addr addr) (token_store h) = (token, token_store h')"
  have len: "length token = 20" by (rule token_length [OF sha c])
  have "run_one E (InMessage (get_peers_encode g) addr) h = Ok h'"
    using request_run [OF g] r by (simp add: handle_incoming_request_def)
  moreover have "\<not> read_only h'" using q(4) g(2) by simp
  moreover have "fits (gp_trans_id g)" using g(1) by simp
  note get_peers_message_reads [OF this handler_own [OF wf] len bs]
  ultimately show thesis using that s q(1-3) f c len by metis
qed

lemma announce_exchange:
  assumes wf: "handler_wf E A h" and out: "out_open E" and a: "message_wf (MtRequest (RqAnnouncePeer a))" "\<not> read_only h"
    and len: "length (ap_token a) = 20" and valid: "fst (checkin (env_minutes E) (env_sha1 E) (env_utc E (dh_ticks h + 1))
      (env_secret E (dh_ticks h + 1)) (ip_of_socket_addr addr) (ap_token a) (token_store h))"
    and add: "add_item (env_utc E (dh_ticks h + 2)) (ap_info_hash a) (connect_addr (ap_port a) addr) (active_stores h) = (True, store)"
  obtains h' reply where
    "run_one E (InMessage (announce_peer_encode a) addr) h = Ok h'" "sent h' = sent h @ [(reply, addr)]"
    "reads_as reply (MtResponse (RsActing \<lparr>act_trans_id = ap_trans_id a, act_node_id = rt_node_id (dh_table h)\<rparr>))"
    "quiet E A h h'" "dh_ticks h' = dh_ticks h + 4" "rt_node_id (dh_table h') = rt_node_id (dh_table h)" "\<not> read_only h'"
    "active_stores h' = store"
proof (rule announce_reply [OF wf out token_new_20 [OF len] valid add])
  let ?r = "\<lparr>act_trans_id = ap_trans_id a, act_node_id = rt_node_id (dh_table h)\<rparr>"
  fix h'
  assume r: "handle_announce_peer E a addr h = Ok h'" and q: "quiet E A h h'" "dh_ticks h' = dh_ticks h + 4"
      "rt_node_id (dh_table h') = rt_node_id (dh_table h)" "active_stores h' = store" "read_only h' = read_only h"
    and s: "sent h' = sent h @ [(message_encode (MtResponse (RsAnnouncePeer ?r)), addr)]"
  have "run_one E (InMessage (announce_peer_encode a) addr) h = Ok h'"
    using request_run [OF a] r by (simp add: handle_incoming_request_def)
  moreover have "reads_as (message_encode (MtResponse (RsAnnouncePeer ?r))) (MtResponse (RsActing ?r))"
    using acting_reads [of ?r] a(1) handler_own [OF wf] by simp
  moreover have "\<not> read_only h'" using q(5) a(2) by simp
  ultimately show thesis using that s q(1-4) by blast
qed

lemma contact_told:
  assumes "a \<in> set items" and "a = SockV4 c"
  obtains ns vs peers where "contact_info bs (concat (map v4_of items)) = InfoBoth ns vs" "compact_values_list vs = Ok peers" "c \<in> set peers"
proof -
  let ?vs = "concat (map v4_of items)"
  have mem: "c \<in> set ?vs" using assms by force
  then obtain v vs' where vs: "?vs = v # vs'" by (cases ?vs) auto
  have "contact_info bs ?vs = InfoBoth \<lparr>cni_nodes = bs\<rparr> \<lparr>cvi_values = map sock_v4_to_bytes_be ?vs\<rparr>" unfolding vs by simp
  moreover have "compact_values_list \<lparr>cvi_values = map sock_v4_to_bytes_be ?vs\<rparr> = Ok ?vs"
    using compact_values_list_ok [of "map sock_v4_to_bytes_be ?vs"]
    by (simp add: compact_values_list_def list_all_iff sock_v4_codec.to_bytes_length sock_v4_codec.from_to comp_def)
  ultimately show thesis using that mem by blast
qed

text \<open>A handler that ends in a response sends one message, to the asker.\<close>

definition replied :: "DhtHandler \<Rightarrow> SocketAddr \<Rightarrow> (MessageType \<Rightarrow> bool) \<Rightarrow> handled \<Rightarrow> bool" where
  "replied h addr Q r \<longleftrightarrow> (\<exists>h' reply m. r = Ok h' \<and> sent h' = sent h @ [(reply, addr)] \<and> reads_as reply m \<and> Q m)"

lemma replied_respond:
  "out_open E \<Longrightarrow> sent h' = sent h \<Longrightarrow> reads_as msg m \<Longrightarrow> Q m \<Longrightarrow> replied h addr Q (respond E msg addr h')"
  by (auto simp: replied_def respond_sent tick_def)

lemma ascii_texts:
  "fits (ascii ''Received An Invalid Token'') \<and> utf8_valid (ascii ''Received An Invalid Token'')"
  "fits (ascii ''Announce Storage Is Full'') \<and> utf8_valid (ascii ''Announce Storage Is Full'')"
  by (simp_all add: fits_def utf8_valid_ascii)

lemma error_reads:
  "fits t \<Longrightarrow> fits s \<and> utf8_valid s \<Longrightarrow> reads_as (error_encode (error_message_new t c s)) (MtError (error_message_new t c s))"
  using error_roundtrip by (simp add: reads_as_def error_message_new_def)

lemma find_node_replied:
  assumes "handler_wf E (range SockV4) h" and "out_open E" and "fits (fn_trans_id f)"
  shows "replied h addr (answers (rt_node_id (dh_table h)) (RqFindNode f)) (handle_find_node E f addr h)"
proof -
  define h1 where "h1 = dh_remote_request E (fn_node_id f) addr h"
  have wf: "handler_wf E (range SockV4) h1" unfolding h1_def by (rule quiet_wf [OF assms(1) quiet_remote_request])
  obtain bs where bs: "closest_nodes_bytes E (fn_target_id f) h1 = Ok bs" "listed (dh_table h1) bs" by (rule closest_listed [OF wf])
  let ?r = "\<lparr>fnr_trans_id = fn_trans_id f, fnr_node_id = rt_node_id (dh_table h1), fnr_nodes = \<lparr>cni_nodes = bs\<rparr>\<rparr>"
  have new: "find_node_response_new (fn_trans_id f) (rt_node_id (dh_table h1)) bs = Ok ?r"
    using listed_length [OF bs(2)] by (simp add: find_node_response_new_def validate_nodes_wf)
  have "reads_as (find_node_response_encode ?r) (MtResponse (RsFindNode ?r))"
    using find_node_response_roundtrip [of ?r] listed_length [OF bs(2)] assms(3) handler_own [OF wf] by (simp add: reads_as_def fits_def)
  then have "replied h addr (answers (rt_node_id (dh_table h)) (RqFindNode f)) (respond E (find_node_response_encode ?r) addr (dh_tick h1))"
    by (rule replied_respond [OF assms(2), rotated]) (simp_all add: h1_def)
  then show ?thesis unfolding handle_find_node_def h1_def [symmetric] Let_def bs(1) by (simp add: new)
qed

lemma announce_replied:
  assumes "handler_wf E A h" and "out_open E" and "fits (ap_trans_id a)"
  shows "replied h addr (answers (rt_node_id (dh_table h)) (RqAnnouncePeer a)) (handle_announce_peer E a addr h)"
proof -
  have ack: "reads_as (acting_encode \<lparr>act_trans_id = ap_trans_id a, act_node_id = rt_node_id (dh_table h)\<rparr>)
      (MtResponse (RsActing \<lparr>act_trans_id = ap_trans_id a, act_node_id = rt_node_id (dh_table h)\<rparr>))"
    using acting_reads assms(3) handler_own [OF assms(1)] by simp
  define invalid where "invalid = error_message_new (ap_trans_id a) ProtocolError (ascii ''Received An Invalid Token'')"
  define full where "full = error_message_new (ap_trans_id a) ServerError (ascii ''Announce Storage Is Full'')"
  have err: "reads_as (error_encode invalid) (MtError invalid)" "reads_as (error_encode full) (MtError full)"
    unfolding invalid_def full_def using error_reads [OF assms(3)] ascii_texts by blast+
  have sel: "err_trans_id invalid = ap_trans_id a" "err_code invalid = ProtocolError" "err_trans_id full = ap_trans_id a" "err_code full = ServerError"
    by (simp_all add: invalid_def full_def error_message_new_def)
  show ?thesis
    unfolding handle_announce_peer_def Let_def invalid_def [symmetric] full_def [symmetric]
    by (auto intro!: replied_respond [OF assms(2) _ ack] replied_respond [OF assms(2) _ err(1)] replied_respond [OF assms(2) _ err(2)]
        simp: sel split: outcome.splits prod.splits)
qed

lemma request_replied:
  assumes wf: "handler_wf E (range SockV4) h" and out: "out_open E" and sha: "\<forall>bs. length (env_sha1 E bs) = 20"
    and rq: "message_wf (MtRequest rq)" "\<not> read_only h"
  shows "replied h addr (answers (rt_node_id (dh_table h)) rq) (run_one E (InMessage (message_encode (MtRequest rq)) addr) h)"
proof (cases rq)
  case (RqPing p)
  then have "reads_as (acting_encode \<lparr>act_trans_id = ping_trans_id p, act_node_id = rt_node_id (dh_table h)\<rparr>)
      (MtResponse (RsActing \<lparr>act_trans_id = ping_trans_id p, act_node_id = rt_node_id (dh_table h)\<rparr>))"
    using acting_reads rq(1) handler_own [OF wf] by simp
  then show ?thesis
    unfolding request_run [OF rq] by (simp add: RqPing handle_incoming_request_def handle_ping_def Let_def replied_respond out)
next
  case (RqFindNode f)
  with find_node_replied [OF wf out] rq(1) show ?thesis
    unfolding request_run [OF rq] by (simp add: handle_incoming_request_def)
next
  case (RqGetPeers g)
  from rq(1) have g: "message_wf (MtRequest (RqGetPeers g))" by (simp add: RqGetPeers)
  show ?thesis by (rule get_peers_exchange [OF wf out sha g rq(2), of addr]) (auto simp: RqGetPeers replied_def)
next
  case (RqAnnouncePeer a)
  with announce_replied [OF wf out] rq(1) show ?thesis
    unfolding request_run [OF rq] by (simp add: handle_incoming_request_def)
qed

section \<open>Properties\<close>

definition sample_get_peers :: GetPeersRequest where
  "sample_get_peers = \<lparr>gp_trans_id = [1, 2], gp_node_id = replicate 20 9, gp_info_hash = replicate 20 8\<rparr>"

text \<open>
  C3. A peer that announces itself with the token it was given is told to the next asker. Over IPv4, in every state a
  DHT that answers requests can be in: a node that sends the bytes of a \<open>get_peers\<close> request gets a reply with a
  token; when it sends the bytes of an \<open>announce_peer\<close> request with that token it gets an acknowledgement; and the next
  node that asks for the same info hash, all within ten minutes, gets a reply whose peers contain the announced
  address, provided the store had room.
\<close>

theorem announced_peer_is_found:
  assumes "sha_wf nid" and "\<forall>inp\<in>set inps. \<forall>buf a. inp = InMessage buf a \<longrightarrow> a \<in> range SockV4"
    and "run E inps (dht_handler_new E (routing_table_new nid) local ro lport) = Ok h"
    and "\<not> read_only h" and "clock_ok E" and "out_open E" and "\<forall>bs. length (env_sha1 E bs) = 20"
    and "env_utc E (dh_ticks h + 14) < env_utc E (dh_ticks h) + 10 * MINUTE"
    and "length (expires (active_stores h)) < MAX_ITEMS_STORED"
    and "message_wf (MtRequest (RqGetPeers g1))" and "message_wf (MtRequest (RqGetPeers g2))" and "fits tid" and "sha_wf i"
  shows "\<exists>h1 token reply1 info h2 reply2 h3 reply3 token' ns vs peers.
    run_one E (InMessage (get_peers_encode g1) (SockV4 a1)) h = Ok h1 \<and> sent h1 = sent h @ [(reply1, SockV4 a1)] \<and>
    reads_as reply1 (get_peers_message (gp_trans_id g1) (rt_node_id (dh_table h)) token info) \<and>
    run_one E (InMessage (announce_peer_encode \<lparr>ap_trans_id = tid, ap_node_id = i, ap_info_hash = gp_info_hash g2,
      ap_token = token, ap_port = port\<rparr>) (SockV4 a1)) h1 = Ok h2 \<and> sent h2 = sent h1 @ [(reply2, SockV4 a1)] \<and>
    reads_as reply2 (MtResponse (RsActing \<lparr>act_trans_id = tid, act_node_id = rt_node_id (dh_table h)\<rparr>)) \<and>
    run_one E (InMessage (get_peers_encode g2) addr2) h2 = Ok h3 \<and> sent h3 = sent h2 @ [(reply3, addr2)] \<and>
    reads_as reply3 (get_peers_message (gp_trans_id g2) (rt_node_id (dh_table h)) token' (InfoBoth ns vs)) \<and>
    compact_values_list vs = Ok peers \<and> (case port of Implied \<Rightarrow> a1 | Explicit p \<Rightarrow> a1\<lparr>v4_port := p\<rparr>) \<in> set peers"
proof -
  have ok: "handler_ok E (range SockV4) h" by (rule reachable_v4 [OF assms(1-3)])
  then have wf: "handler_wf E (range SockV4) h" and st: "stores_ok E h" by (simp_all add: handler_ok_def handler_wf_def)
  have mono: "env_utc E s \<le> env_utc E t" if "s \<le> t" for s t using assms(5) that by (simp add: clock_ok_def mono_def)
  let ?u = "\<lambda>n. env_utc E (dh_ticks h + n)"
  let ?a = "\<lambda>token. \<lparr>ap_trans_id = tid, ap_node_id = i, ap_info_hash = gp_info_hash g2, ap_token = token, ap_port = port\<rparr>"
  define c where "c = (case port of Implied \<Rightarrow> a1 | Explicit p \<Rightarrow> a1\<lparr>v4_port := p\<rparr>)"
  then have c: "connect_addr port (SockV4 a1) = SockV4 c" by (cases port) simp_all
  obtain h1 reply1 token bs1 items1 where one:
    "run_one E (InMessage (get_peers_encode g1) (SockV4 a1)) h = Ok h1" "sent h1 = sent h @ [(reply1, SockV4 a1)]"
    "reads_as reply1 (get_peers_message (gp_trans_id g1) (rt_node_id (dh_table h)) token (contact_info bs1 (concat (map v4_of items1))))"
    "quiet E (range SockV4) h h1" and h1: "dh_ticks h1 = dh_ticks h + 5" "rt_node_id (dh_table h1) = rt_node_id (dh_table h)" "\<not> read_only h1"
    and f1: "find_items (?u 1) (gp_info_hash g1) (active_stores h) = (items1, active_stores h1)"
    and c1: "checkout (env_minutes E) (env_sha1 E) (?u 3) (env_secret E (dh_ticks h + 3)) (ip_of_socket_addr (SockV4 a1)) (token_store h) =
       (token, token_store h1)" and len: "length token = 20"
    by (rule get_peers_exchange [OF wf assms(6,7,10,4)])
  have t: "dh_ticks h1 + 1 = dh_ticks h + 6" "dh_ticks h1 + 2 = dh_ticks h + 7" by (simp_all add: h1)
  have valid: "fst (checkin (env_minutes E) (env_sha1 E) (?u 6) rnd (ip_of_socket_addr (SockV4 a1)) token (token_store h1))" for rnd
  proof -
    have "last_refresh (token_store h) \<le> ?u 3" using st assms(5) mono [of "dh_ticks h" "dh_ticks h + 3"] by (simp add: stores_ok_def)
    moreover have "?u 6 < ?u 3 + 10 * MINUTE"
      using assms(8) mono [of "dh_ticks h" "dh_ticks h + 3"] mono [of "dh_ticks h + 6" "dh_ticks h + 14"] by simp
    ultimately show ?thesis
      using assms(5) mono [of "dh_ticks h + 3" "dh_ticks h + 6"] checkin_within_ten_minutes [OF _ _ c1, of "[]"] by (simp add: clock_ok_def)
  qed
  obtain ok store where add: "add_item (?u 7) (gp_info_hash g2) (connect_addr port (SockV4 a1)) (active_stores h1) = (ok, store)"
    by (cases "add_item (?u 7) (gp_info_hash g2) (connect_addr port (SockV4 a1)) (active_stores h1)")
  obtain items2 store3 where find: "find_items (?u 10) (gp_info_hash g2) store = (items2, store3)"
    by (cases "find_items (?u 10) (gp_info_hash g2) store")
  have found: "ok" "connect_addr port (SockV4 a1) \<in> set items2"
    using added_then_found [OF _ _ _ assms(9) _ f1 add find] st assms(5,8) store_wf_later mono [of "dh_ticks h" "dh_ticks h + 1"]
      mono [of "dh_ticks h" "dh_ticks h + 7"] mono [of "dh_ticks h + 10" "dh_ticks h + 14"] mono [of "dh_ticks h + 7" "dh_ticks h + 10"]
      mono [of "dh_ticks h + 1" "dh_ticks h + 7"]
    by (auto simp: stores_ok_def MINUTE_def)
  have awf: "message_wf (MtRequest (RqAnnouncePeer (?a token)))" using assms(11-13) len by (simp add: fits_def)
  obtain h2 reply2 where two:
    "run_one E (InMessage (announce_peer_encode (?a token)) (SockV4 a1)) h1 = Ok h2" "sent h2 = sent h1 @ [(reply2, SockV4 a1)]"
    "reads_as reply2 (MtResponse (RsActing \<lparr>act_trans_id = ap_trans_id (?a token), act_node_id = rt_node_id (dh_table h1)\<rparr>))"
    "quiet E (range SockV4) h1 h2" and h2: "dh_ticks h2 = dh_ticks h1 + 4" "rt_node_id (dh_table h2) = rt_node_id (dh_table h1)"
    "\<not> read_only h2" "active_stores h2 = store"
    by (rule announce_exchange [OF quiet_wf [OF wf one(4)] assms(6) awf h1(3)]) (use valid add found(1) len in \<open>simp_all only: t, simp_all\<close>)
  obtain h3 reply3 token' bs3 items3 where three: "run_one E (InMessage (get_peers_encode g2) addr2) h2 = Ok h3" "sent h3 = sent h2 @ [(reply3, addr2)]"
    "reads_as reply3 (get_peers_message (gp_trans_id g2) (rt_node_id (dh_table h2)) token' (contact_info bs3 (concat (map v4_of items3))))"
    and f3: "find_items (env_utc E (dh_ticks h2 + 1)) (gp_info_hash g2) (active_stores h2) = (items3, active_stores h3)"
    by (rule get_peers_exchange [OF quiet_wf [OF quiet_wf [OF wf one(4)] two(4)] assms(6,7,11) h2(3)])
  have eq: "dh_ticks h2 + 1 = dh_ticks h + 10" by (simp add: h2 h1)
  have "items3 = items2" using f3 find unfolding eq h2(4) by simp
  with found(2) obtain ns vs peers where told: "contact_info bs3 (concat (map v4_of items3)) = InfoBoth ns vs"
    "compact_values_list vs = Ok peers" "c \<in> set peers" using contact_told [OF _ c] by blast
  from one(1-3) two(1-3) three told(2,3) show ?thesis
    unfolding told(1) h2(2) h1(2) c_def [symmetric] AnnouncePeerRequest.select_convs by (intro exI conjI) (assumption | simp)+
qed

theorem announced_peer_is_found_witness:
  "\<exists>h1 token reply1 info h2 reply2 h3 reply3 token' ns vs peers.
    run_one sample_env (InMessage (get_peers_encode sample_get_peers) sample_addr) sample_start = Ok h1 \<and>
    sent h1 = sent sample_start @ [(reply1, sample_addr)] \<and>
    reads_as reply1 (get_peers_message [1, 2] (rt_node_id (dh_table sample_start)) token info) \<and>
    run_one sample_env (InMessage (announce_peer_encode \<lparr>ap_trans_id = [3, 4], ap_node_id = replicate 20 9,
      ap_info_hash = replicate 20 8, ap_token = token, ap_port = Explicit 51413\<rparr>) sample_addr) h1 = Ok h2 \<and>
    sent h2 = sent h1 @ [(reply2, sample_addr)] \<and>
    reads_as reply2 (MtResponse (RsActing \<lparr>act_trans_id = [3, 4], act_node_id = rt_node_id (dh_table sample_start)\<rparr>)) \<and>
    run_one sample_env (InMessage (get_peers_encode sample_get_peers) sample_addr) h2 = Ok h3 \<and>
    sent h3 = sent h2 @ [(reply3, sample_addr)] \<and>
    reads_as reply3 (get_peers_message [1, 2] (rt_node_id (dh_table sample_start)) token' (InfoBoth ns vs)) \<and>
    compact_values_list vs = Ok peers \<and> \<lparr>v4_ip = Ipv4Addr 1 2 3 4, v4_port = 51413\<rparr> \<in> set peers"
proof -
  have wf: "message_wf (MtRequest (RqGetPeers sample_get_peers))" by (simp add: sample_get_peers_def fits_def sha_wf_def SHA_HASH_LEN_def)
  have start: "\<not> read_only sample_start" "length (expires (active_stores sample_start)) < MAX_ITEMS_STORED"
    by (simp_all add: dht_handler_new_def announce_storage_new_def MAX_ITEMS_STORED_def Let_def split: prod.split)
  have E: "clock_ok sample_env" "out_open sample_env" "\<forall>bs. length (env_sha1 sample_env bs) = 20"
    by (simp_all add: clock_ok_def sample_env_def chrono_minutes_def mono_def MINUTE_def)
  have time: "env_utc sample_env (dh_ticks sample_start + 14) < env_utc sample_env (dh_ticks sample_start) + 10 * MINUTE"
    by (simp add: sample_env_def MINUTE_def)
  have "run sample_env [] sample_start = Ok sample_start" by simp
  note found = announced_peer_is_found [OF _ _ this start(1) E time start(2) wf wf, of "[3, 4]" "replicate 20 9"
      "\<lparr>v4_ip = Ipv4Addr 1 2 3 4, v4_port = 6881\<rparr>" "Explicit 51413" sample_addr]
  have "gp_trans_id sample_get_peers = [1, 2]" "gp_info_hash sample_get_peers = replicate 20 8" by (simp_all add: sample_get_peers_def)
  with found show ?thesis unfolding sample_addr_def [symmetric] by (simp only: fits_def sha_wf_def SHA_HASH_LEN_def) simp
qed

text \<open>
  C4. Every request is answered, once. Over IPv4, in every state a DHT that answers requests can be in, the bytes of
  a well-formed request make it send exactly one more message: to the sender, and read by the sender's parser as a
  reply of the kind asked for, with the request's transaction id and the id of the DHT; an \<open>announce_peer\<close> is
  acknowledged or refused with an error.
\<close>

theorem every_request_answered:
  assumes "sha_wf nid" and "\<forall>inp\<in>set inps. \<forall>buf a. inp = InMessage buf a \<longrightarrow> a \<in> range SockV4"
    and "run E inps (dht_handler_new E (routing_table_new nid) local ro lport) = Ok h"
    and "\<not> read_only h" and "out_open E" and "\<forall>bs. length (env_sha1 E bs) = 20" and "message_wf (MtRequest rq)"
  shows "\<exists>h' reply m. run_one E (InMessage (message_encode (MtRequest rq)) addr) h = Ok h' \<and>
    sent h' = sent h @ [(reply, addr)] \<and> reads_as reply m \<and> answers (rt_node_id (dh_table h)) rq m"
  using request_replied [OF _ assms(5,6,7,4)] reachable_v4 [OF assms(1-3)] by (auto simp: handler_ok_def replied_def)

theorem every_request_answered_witness:
  "\<exists>h' reply m. run_one sample_env (InMessage (message_encode (MtRequest (RqGetPeers sample_get_peers))) sample_addr) sample_start = Ok h' \<and>
    sent h' = sent sample_start @ [(reply, sample_addr)] \<and> reads_as reply m \<and>
    answers (rt_node_id (dh_table sample_start)) (RqGetPeers sample_get_peers) m"
proof (rule every_request_answered)
  show "run sample_env [] sample_start = Ok sample_start" by simp
qed (simp_all add: sample_get_peers_def sample_env_def dht_handler_new_def fits_def sha_wf_def SHA_HASH_LEN_def Let_def split: prod.split)

end
