(* ===== verification/Utp_Packet.thy ===== *)
theory Utp_Packet
  imports Prelude
begin

text \<open>
  Packets of the micro transport protocol: \<open>btp-utp/src/packet.rs\<close>, \<open>bit_iterator.rs\<close>,
  \<open>time.rs\<close> and the parse errors of \<open>error.rs\<close>.

  A packet is its byte vector. The source reads and writes the header through a cast of the vector
  to a \<open>repr(C)\<close> structure; here the cast is \<open>view_header\<close> (the memory of the vector read as a
  structure on a little-endian machine) and a store through it is \<open>put_header\<close>. What follows the
  header is a chain of extensions and the payload; \<open>chain\<close> is the abstract reading of it that
  the loops of the source are proved against. The contract of a header field (a getter and a
  setter that do not disturb the rest of the packet) is the locale \<open>header_field\<close>.
\<close>

section \<open>Little-endian memory\<close>

text \<open>The macro \<open>u8_to_unsigned_be\<close>; it keeps the memory order of a little-endian machine.\<close>

definition u8_to_unsigned_be :: "bytes \<Rightarrow> nat \<Rightarrow> nat \<Rightarrow> 'a::len word" where
  "u8_to_unsigned_be src start fin =
     foldl (\<lambda>acc i. acc OR push_bit (i * 8) (ucast (src ! (start + i)))) 0 (rev [0..<fin - start + 1])"

definition le_bytes :: "nat \<Rightarrow> 'a::len word \<Rightarrow> bytes" where
  "le_bytes n w = map (\<lambda>i. ucast (drop_bit (8 * i) w)) [0..<n]"

text \<open>\<open>from_be\<close> and \<open>to_be\<close> of an integer of \<open>n\<close> bytes swap its bytes.\<close>

definition swap_bytes :: "nat \<Rightarrow> 'a::len word \<Rightarrow> 'a word" where
  "swap_bytes n w = u8_to_unsigned_be (rev (le_bytes n w)) 0 (n - 1)"

lemma foldl_or_bit:
  "bit (foldl (\<lambda>acc i. acc OR f i) a xs :: 'a::len word) k \<longleftrightarrow> bit a k \<or> (\<exists>i\<in>set xs. bit (f i) k)"
  by (induction xs arbitrary: a) (auto simp: bit_or_iff)

lemma bit_byte_high: "bit (b :: byte) k \<Longrightarrow> k < 8"
  using bit_imp_le_length [of b k] by simp

lemma bit_u8_to_unsigned_be:
  assumes "n > 0"
  shows "bit (u8_to_unsigned_be src s (s + n - 1) :: 'a::len word) k \<longleftrightarrow>
    k < LENGTH('a) \<and> k < 8 * n \<and> bit (src ! (s + k div 8)) (k mod 8)"
    (is "?L \<longleftrightarrow> ?R")
proof -
  have n: "s + n - 1 - s + 1 = n" using assms by simp
  have "?L \<longleftrightarrow> (\<exists>i<n. k < LENGTH('a) \<and> i * 8 \<le> k \<and> bit (src ! (s + i)) (k - i * 8))"
    unfolding u8_to_unsigned_be_def n foldl_or_bit
    by (auto simp: bit_push_bit_iff bit_ucast_iff)
  also have "\<dots> \<longleftrightarrow> ?R"
  proof
    assume "\<exists>i<n. k < LENGTH('a) \<and> i * 8 \<le> k \<and> bit (src ! (s + i)) (k - i * 8)"
    then obtain i where i: "i < n" "k < LENGTH('a)" "i * 8 \<le> k" "bit (src ! (s + i)) (k - i * 8)"
      by blast
    then have "k - i * 8 < 8" using bit_byte_high by blast
    moreover define r where "r = k - i * 8"
    ultimately have "r < 8" and "k = i * 8 + r" using i(3) by simp_all
    with i show ?R by simp
  next
    assume R: ?R
    then have "k div 8 < n" and "k - k div 8 * 8 = k mod 8" by (auto simp: minus_div_mult_eq_mod)
    with R show "\<exists>i<n. k < LENGTH('a) \<and> i * 8 \<le> k \<and> bit (src ! (s + i)) (k - i * 8)"
      by (intro exI [of _ "k div 8"]) auto
  qed
  finally show ?thesis .
qed

lemma length_le_bytes [simp]: "length (le_bytes n w) = n"
  by (simp add: le_bytes_def)

lemma le_load_store:
  assumes "n > 0" and "LENGTH('a) = 8 * n"
  shows "u8_to_unsigned_be (le_bytes n w) 0 (n - 1) = (w :: 'a::len word)"
proof (rule bit_word_eqI)
  fix k assume k: "k < LENGTH('a)"
  have "k div 8 < n" using k assms by auto
  moreover have "8 * (k div 8) + k mod 8 = k" by simp
  ultimately show "bit (u8_to_unsigned_be (le_bytes n w) 0 (n - 1) :: 'a word) k = bit w k"
    using bit_u8_to_unsigned_be [OF assms(1), of "le_bytes n w" 0 k, where 'a = 'a] k assms
    by (simp add: le_bytes_def bit_ucast_iff bit_drop_bit_eq)
qed

lemma le_store_load:
  assumes "n > 0" and "LENGTH('a) = 8 * n" and "length src \<ge> s + n"
  shows "le_bytes n (u8_to_unsigned_be src s (s + n - 1) :: 'a::len word) = slice src s (s + n)"
proof (rule nth_equalityI)
  show "length (le_bytes n (u8_to_unsigned_be src s (s + n - 1) :: 'a word)) = length (slice src s (s + n))"
    using assms by (simp add: slice_def)
  fix i assume "i < length (le_bytes n (u8_to_unsigned_be src s (s + n - 1) :: 'a word))"
  then have i: "i < n" by simp
  have "le_bytes n (u8_to_unsigned_be src s (s + n - 1) :: 'a word) ! i = src ! (s + i)"
  proof (rule bit_word_eqI)
    fix k assume "k < LENGTH(8)"
    then have "k < 8" by simp
    then have "(8 * i + k) div 8 = i" and "(8 * i + k) mod 8 = k" and "8 * i + k < 8 * n"
      using i by auto
    then show "bit (le_bytes n (u8_to_unsigned_be src s (s + n - 1) :: 'a word) ! i) k = bit (src ! (s + i)) k"
      using i assms(2) bit_u8_to_unsigned_be [OF assms(1), of src s "8 * i + k", where 'a = 'a] \<open>k < 8\<close>
      by (simp add: le_bytes_def bit_ucast_iff bit_drop_bit_eq)
  qed
  with i assms(3) show "le_bytes n (u8_to_unsigned_be src s (s + n - 1) :: 'a word) ! i = slice src s (s + n) ! i"
    by (simp add: slice_def)
qed

lemma swap_swap:
  assumes "n > 0" and "LENGTH('a) = 8 * n"
  shows "swap_bytes n (swap_bytes n w) = (w :: 'a::len word)"
proof -
  have "le_bytes n (swap_bytes n w) = rev (le_bytes n w)"
    using le_store_load [OF assms, of 0 "rev (le_bytes n w)"] unfolding swap_bytes_def
    by (simp add: slice_def)
  then have "swap_bytes n (swap_bytes n w) = u8_to_unsigned_be (rev (rev (le_bytes n w))) 0 (n - 1)"
    by (simp add: swap_bytes_def)
  then show ?thesis using le_load_store [OF assms, of w] by simp
qed

section \<open>Time stamps\<close>

datatype Timestamp = Timestamp u32

datatype Delay = Delay i64

fun u32_from_timestamp :: "Timestamp \<Rightarrow> u32" where
  "u32_from_timestamp (Timestamp value) = value"

fun u32_from_delay :: "Delay \<Rightarrow> u32" where
  "u32_from_delay (Delay value) = ucast value"

definition delay_from_u32 :: "u32 \<Rightarrow> Delay" where
  "delay_from_u32 value = Delay (ucast value)"

fun timestamp_sub :: "Timestamp \<Rightarrow> Timestamp \<Rightarrow> Delay" where
  "timestamp_sub (Timestamp a) (Timestamp b) = Delay (ucast a - ucast b)"

text \<open>The arguments are the seconds and nanoseconds of the system clock since the epoch.\<close>

definition now_microseconds :: "u64 \<Rightarrow> u32 \<Rightarrow> Timestamp" where
  "now_microseconds as_secs subsec_nanos = Timestamp (ucast (as_secs * 1000000) + subsec_nanos div 1000)"

section \<open>Packet types and headers\<close>

datatype ParseError = InvalidExtensionLength | InvalidPacketLength | InvalidPacketType byte | UnsupportedVersion

datatype PacketType = Data | Fin | State | Reset | Syn

definition packet_type_try_from :: "byte \<Rightarrow> (ParseError, PacketType) outcome" where
  "packet_type_try_from original =
     (if original = 0 then Ok Data else if original = 1 then Ok Fin else if original = 2 then Ok State
      else if original = 3 then Ok Reset else if original = 4 then Ok Syn
      else Err (InvalidPacketType original))"

fun u8_from_packet_type :: "PacketType \<Rightarrow> byte" where
  "u8_from_packet_type Data = 0"
| "u8_from_packet_type Fin = 1"
| "u8_from_packet_type State = 2"
| "u8_from_packet_type Reset = 3"
| "u8_from_packet_type Syn = 4"

datatype ExtensionType = NoExtension | SelectiveAck | Unknown byte

definition extension_type_from :: "byte \<Rightarrow> ExtensionType" where
  "extension_type_from original =
     (if original = 0 then NoExtension else if original = 1 then SelectiveAck else Unknown original)"

fun u8_from_extension_type :: "ExtensionType \<Rightarrow> byte" where
  "u8_from_extension_type NoExtension = 0"
| "u8_from_extension_type SelectiveAck = 1"
| "u8_from_extension_type (Unknown n) = n"

definition HEADER_SIZE :: nat where
  "HEADER_SIZE = 20"

record PacketHeader =
  type_ver :: byte
  extension :: byte
  connection_id :: u16
  timestamp :: u32
  timestamp_difference :: u32
  wnd_size :: u32
  seq_nr :: u16
  ack_nr :: u16

definition header_set_type :: "PacketType \<Rightarrow> PacketHeader \<Rightarrow> PacketHeader" where
  "header_set_type t header =
     header\<lparr>type_ver := push_bit 4 (u8_from_packet_type t) OR (0x0F AND type_ver header)\<rparr>"

definition header_get_type :: "PacketHeader \<Rightarrow> (unit, PacketType) outcome" where
  "header_get_type header = unwrap (packet_type_try_from (drop_bit 4 (type_ver header)))"

definition header_get_version :: "PacketHeader \<Rightarrow> byte" where
  "header_get_version header = type_ver header AND 0x0F"

definition header_get_extension_type :: "PacketHeader \<Rightarrow> ExtensionType" where
  "header_get_extension_type header = extension_type_from (extension header)"

definition header_as_ref :: "PacketHeader \<Rightarrow> bytes" where
  "header_as_ref header =
     [type_ver header, extension header] @ le_bytes 2 (connection_id header) @ le_bytes 4 (timestamp header) @
     le_bytes 4 (timestamp_difference header) @ le_bytes 4 (wnd_size header) @ le_bytes 2 (seq_nr header) @
     le_bytes 2 (ack_nr header)"

text \<open>The structure found in the first twenty bytes of a buffer.\<close>

definition view_header :: "bytes \<Rightarrow> PacketHeader" where
  "view_header original = \<lparr>
     type_ver = original ! 0,
     extension = original ! 1,
     connection_id = u8_to_unsigned_be original 2 3,
     timestamp = u8_to_unsigned_be original 4 7,
     timestamp_difference = u8_to_unsigned_be original 8 11,
     wnd_size = u8_to_unsigned_be original 12 15,
     seq_nr = u8_to_unsigned_be original 16 17,
     ack_nr = u8_to_unsigned_be original 18 19\<rparr>"

definition header_try_from :: "bytes \<Rightarrow> (ParseError, PacketHeader) outcome" where
  "header_try_from original =
     (if length original < HEADER_SIZE then Err InvalidPacketLength
      else if original ! 0 AND 0x0F \<noteq> 1 then Err UnsupportedVersion
      else case packet_type_try_from (drop_bit 4 (original ! 0)) of
          Err e \<Rightarrow> Err e
        | Panic \<Rightarrow> Panic
        | Ok t \<Rightarrow> Ok (view_header original))"

definition header_default :: PacketHeader where
  "header_default = \<lparr>type_ver = push_bit 4 (u8_from_packet_type Data) OR 1, extension = 0,
     connection_id = 0, timestamp = 0, timestamp_difference = 0, wnd_size = 0, seq_nr = 0, ack_nr = 0\<rparr>"

section \<open>Packets\<close>

type_synonym Packet = bytes

text \<open>A store through the cast pointer rewrites the first twenty bytes.\<close>

definition put_header :: "PacketHeader \<Rightarrow> Packet \<Rightarrow> Packet" where
  "put_header header p = header_as_ref header @ drop HEADER_SIZE p"

definition packet_new :: Packet where
  "packet_new = header_as_ref header_default"

definition with_payload :: "bytes \<Rightarrow> Packet" where
  "with_payload payload = header_as_ref (header_set_type Data header_default) @ payload"

definition set_type :: "PacketType \<Rightarrow> Packet \<Rightarrow> Packet" where
  "set_type t p = put_header (header_set_type t (view_header p)) p"

definition get_type :: "Packet \<Rightarrow> (unit, PacketType) outcome" where
  "get_type p = header_get_type (view_header p)"

definition get_version :: "Packet \<Rightarrow> byte" where
  "get_version p = header_get_version (view_header p)"

definition get_extension_type :: "Packet \<Rightarrow> ExtensionType" where
  "get_extension_type p = header_get_extension_type (view_header p)"

definition packet_timestamp :: "Packet \<Rightarrow> Timestamp" where
  "packet_timestamp p = Timestamp (swap_bytes 4 (timestamp (view_header p)))"

definition set_timestamp :: "Timestamp \<Rightarrow> Packet \<Rightarrow> Packet" where
  "set_timestamp t p = put_header ((view_header p)\<lparr>timestamp := swap_bytes 4 (u32_from_timestamp t)\<rparr>) p"

definition packet_timestamp_difference :: "Packet \<Rightarrow> Delay" where
  "packet_timestamp_difference p = delay_from_u32 (swap_bytes 4 (timestamp_difference (view_header p)))"

definition set_timestamp_difference :: "Delay \<Rightarrow> Packet \<Rightarrow> Packet" where
  "set_timestamp_difference d p =
     put_header ((view_header p)\<lparr>timestamp_difference := swap_bytes 4 (u32_from_delay d)\<rparr>) p"

definition packet_seq_nr :: "Packet \<Rightarrow> u16" where
  "packet_seq_nr p = swap_bytes 2 (seq_nr (view_header p))"

definition packet_ack_nr :: "Packet \<Rightarrow> u16" where
  "packet_ack_nr p = swap_bytes 2 (ack_nr (view_header p))"

definition packet_connection_id :: "Packet \<Rightarrow> u16" where
  "packet_connection_id p = swap_bytes 2 (connection_id (view_header p))"

definition packet_wnd_size :: "Packet \<Rightarrow> u32" where
  "packet_wnd_size p = swap_bytes 4 (wnd_size (view_header p))"

definition set_seq_nr :: "u16 \<Rightarrow> Packet \<Rightarrow> Packet" where
  "set_seq_nr n p = put_header ((view_header p)\<lparr>seq_nr := swap_bytes 2 n\<rparr>) p"

definition set_ack_nr :: "u16 \<Rightarrow> Packet \<Rightarrow> Packet" where
  "set_ack_nr n p = put_header ((view_header p)\<lparr>ack_nr := swap_bytes 2 n\<rparr>) p"

definition set_connection_id :: "u16 \<Rightarrow> Packet \<Rightarrow> Packet" where
  "set_connection_id n p = put_header ((view_header p)\<lparr>connection_id := swap_bytes 2 n\<rparr>) p"

definition set_wnd_size :: "u32 \<Rightarrow> Packet \<Rightarrow> Packet" where
  "set_wnd_size n p = put_header ((view_header p)\<lparr>wnd_size := swap_bytes 4 n\<rparr>) p"

text \<open>The loop over the extensions in \<open>payload\<close>; indexing out of range panics.\<close>

function payload_loop :: "Packet \<Rightarrow> nat \<Rightarrow> ExtensionType \<Rightarrow> (unit, nat) outcome" where
  "payload_loop p index extension_type =
     (if index < length p \<and> extension_type \<noteq> NoExtension then
        if index + 1 < length p then
          payload_loop p (index + unat (p ! (index + 1)) + 2) (extension_type_from (p ! index))
        else Panic
      else Ok index)"
  by pat_completeness auto
termination by (relation "measure (\<lambda>(p, index, _). length p - index)") auto

definition payload :: "Packet \<Rightarrow> (unit, bytes) outcome" where
  "payload p =
     (if 1 < length p then
        try_bind (payload_loop p HEADER_SIZE (extension_type_from (p ! 1)))
          (\<lambda>index. if index \<le> length p then Ok (drop index p) else Panic)
      else Panic)"

text \<open>\<open>Vec::insert\<close> panics behind the end of the vector.\<close>

definition vec_insert :: "nat \<Rightarrow> byte \<Rightarrow> bytes \<Rightarrow> (unit, bytes) outcome" where
  "vec_insert i x v = (if i \<le> length v then Ok (take i v @ x # drop i v) else Panic)"

fun insert_each :: "nat \<Rightarrow> bytes \<Rightarrow> bytes \<Rightarrow> (unit, bytes) outcome" where
  "insert_each i [] v = Ok v"
| "insert_each i (x # xs) v = try_bind (vec_insert i x v) (insert_each (i + 1) xs)"

function sack_loop :: "Packet \<Rightarrow> nat \<Rightarrow> ExtensionType \<Rightarrow> (unit, Packet \<times> nat) outcome" where
  "sack_loop p index extension_type =
     (if index < length p \<and> extension_type \<noteq> NoExtension then
        if index + 1 < length p then
          (let len = unat (p ! (index + 1));
               extension_type' = extension_type_from (p ! index);
               p' = (if extension_type' = NoExtension then p[index := u8_from_extension_type SelectiveAck] else p)
           in sack_loop p' (index + len + 2) extension_type')
        else Panic
      else Ok (p, index))"
  by pat_completeness auto
termination by (relation "measure (\<lambda>(p, index, _). length p - index)") (auto simp: Let_def)

definition set_sack :: "bytes \<Rightarrow> Packet \<Rightarrow> (unit, Packet) outcome" where
  "set_sack bv p =
     (if length bv < 4 \<or> length bv mod 4 \<noteq> 0 \<or> length p \<le> 1 then Panic
      else
        let extension_type = extension_type_from (p ! 1)
        in try_bind
             (if extension_type = NoExtension then Ok (p[1 := u8_from_extension_type SelectiveAck], HEADER_SIZE)
              else sack_loop p HEADER_SIZE extension_type)
             (\<lambda>(p, index).
                try_bind (vec_insert index (u8_from_extension_type NoExtension) p) (\<lambda>p.
                try_bind (vec_insert (index + 1) (of_nat (length bv)) p) (\<lambda>p.
                insert_each (index + 2) bv p))))"

record Extension =
  ty :: ExtensionType
  ext_data :: bytes

record ExtensionIterator =
  raw_bytes :: bytes
  next_extension :: ExtensionType
  ext_index :: nat

definition extension_iterator_new :: "Packet \<Rightarrow> (unit, ExtensionIterator) outcome" where
  "extension_iterator_new packet =
     (if 1 < length packet then
        Ok \<lparr>raw_bytes = packet, next_extension = extension_type_from (packet ! 1), ext_index = HEADER_SIZE\<rparr>
      else Panic)"

definition extension_next ::
  "ExtensionIterator \<Rightarrow> (unit, Extension option \<times> ExtensionIterator) outcome" where
  "extension_next it =
     (if next_extension it = NoExtension then Ok (None, it)
      else if ext_index it < length (raw_bytes it) then
        if ext_index it + 1 < length (raw_bytes it) then
          (let len = unat (raw_bytes it ! (ext_index it + 1));
               extension_start = ext_index it + 2;
               extension_end = extension_start + len
           in if extension_end \<le> length (raw_bytes it) then
                Ok (Some \<lparr>ty = next_extension it, ext_data = slice (raw_bytes it) extension_start extension_end\<rparr>,
                    it\<lparr>next_extension := extension_type_from (raw_bytes it ! ext_index it),
                       ext_index := ext_index it + len + 2\<rparr>)
              else Panic)
        else Panic
      else Ok (None, it))"

text \<open>The extensions a \<open>for\<close> loop over the iterator sees.\<close>

function collect_extensions :: "ExtensionIterator \<Rightarrow> (unit, Extension list) outcome" where
  "collect_extensions it =
     (case extension_next it of
        Ok (Some e, it') \<Rightarrow> try_bind (collect_extensions it') (\<lambda>es. Ok (e # es))
      | Ok (None, it') \<Rightarrow> Ok []
      | Err e \<Rightarrow> Err e
      | Panic \<Rightarrow> Panic)"
  by pat_completeness auto
termination
  by (relation "measure (\<lambda>it. length (raw_bytes it) - ext_index it)")
    (auto simp: extension_next_def Let_def split: if_splits)

definition extensions :: "Packet \<Rightarrow> (unit, Extension list) outcome" where
  "extensions p = try_bind (extension_iterator_new p) collect_extensions"

function check_loop :: "bytes \<Rightarrow> nat \<Rightarrow> ExtensionType \<Rightarrow> (ParseError, unit) outcome" where
  "check_loop bs index extension_type =
     (if index < length bs \<and> extension_type \<noteq> NoExtension then
        if length bs < index + 2 then Err InvalidPacketLength
        else
          let len = unat (bs ! (index + 1));
              extension_start = index + 2;
              extension_end = extension_start + len
          in if len = 0 \<or> len mod 4 \<noteq> 0 \<or> extension_end > length bs then Err InvalidExtensionLength
             else check_loop bs (index + len + 2) (extension_type_from (bs ! index))
      else if extension_type \<noteq> NoExtension then Err InvalidPacketLength
      else Ok ())"
  by pat_completeness auto
termination by (relation "measure (\<lambda>(bs, index, _). length bs - index)") auto

definition check_extensions :: "bytes \<Rightarrow> (ParseError, unit) outcome" where
  "check_extensions bs =
     (if length bs < HEADER_SIZE then Err InvalidPacketLength
      else if length bs = HEADER_SIZE \<and> extension_type_from (bs ! 1) \<noteq> NoExtension
        then Err InvalidExtensionLength
      else check_loop bs HEADER_SIZE (extension_type_from (bs ! 1)))"

definition packet_try_from :: "bytes \<Rightarrow> (ParseError, Packet) outcome" where
  "packet_try_from original =
     try_bind (header_try_from original) (\<lambda>_. try_bind (check_extensions original) (\<lambda>_. Ok original))"

declare payload_loop.simps [simp del] sack_loop.simps [simp del] collect_extensions.simps [simp del]
  check_loop.simps [simp del]

section \<open>Bit iterator\<close>

record BitIterator =
  bi_object :: bytes
  next_index :: nat
  end_index :: nat

definition U8BITS :: nat where
  "U8BITS = 8"

definition bit_iterator_from_bytes :: "bytes \<Rightarrow> BitIterator" where
  "bit_iterator_from_bytes obj = \<lparr>bi_object = obj, next_index = 0, end_index = length obj * U8BITS\<rparr>"

definition extension_iter :: "Extension \<Rightarrow> BitIterator" where
  "extension_iter e = bit_iterator_from_bytes (ext_data e)"

definition count_ones :: "BitIterator \<Rightarrow> nat" where
  "count_ones it = foldl (\<lambda>acc bv. acc + length (filter (bit bv) [0..<U8BITS])) 0 (bi_object it)"

text \<open>The index stays in range for every iterator made by \<open>from_bytes\<close>.\<close>

definition bit_iterator_next :: "BitIterator \<Rightarrow> bool option \<times> BitIterator" where
  "bit_iterator_next it =
     (if next_index it \<noteq> end_index it then
        let byte_index = next_index it div U8BITS;
            bit_index = next_index it mod U8BITS;
            b = drop_bit bit_index (bi_object it ! byte_index) AND 1
        in (Some (b = 1), it\<lparr>next_index := next_index it + 1\<rparr>)
      else (None, it))"

section \<open>The header as a structure in memory\<close>

lemma le_load_at:
  assumes "n > 0" and "LENGTH('a) = 8 * n" and "s + n \<le> length src" and "slice src s (s + n) = le_bytes n w"
  shows "u8_to_unsigned_be src s (s + n - 1) = (w :: 'a::len word)"
proof -
  have "le_bytes n (u8_to_unsigned_be src s (s + n - 1) :: 'a word) = le_bytes n w"
    using le_store_load [OF assms(1,2,3)] assms(4) by simp
  then show ?thesis using le_load_store [OF assms(1,2)] by metis
qed

lemma le_load_at2:
  "Suc (Suc s) \<le> length src \<Longrightarrow> slice src s (s + 2) = le_bytes 2 w \<Longrightarrow> u8_to_unsigned_be src s (Suc s) = (w :: u16)"
  using le_load_at [of 2 s src w] by simp

lemma le_load_at4:
  "s + 4 \<le> length src \<Longrightarrow> slice src s (s + 4) = le_bytes 4 w \<Longrightarrow> u8_to_unsigned_be src s (s + 3) = (w :: u32)"
  using le_load_at [of 4 s src w] by (simp add: add.commute)

lemma le_store_load2:
  "s + 2 \<le> length src \<Longrightarrow> le_bytes 2 (u8_to_unsigned_be src s (s + 1) :: u16) = slice src s (s + 2)"
  using le_store_load [of 2 s src, where 'a = 16] by simp

lemma le_store_load4:
  "s + 4 \<le> length src \<Longrightarrow> le_bytes 4 (u8_to_unsigned_be src s (s + 3) :: u32) = slice src s (s + 4)"
  using le_store_load [of 4 s src, where 'a = 32] by (simp add: add.commute)

lemma length_header_as_ref [simp]: "length (header_as_ref h) = 20"
  by (simp add: header_as_ref_def)

lemma view_header_append [simp]: "view_header (header_as_ref h @ t) = h"
proof -
  let ?p = "header_as_ref h @ t"
  have "u8_to_unsigned_be ?p 2 3 = connection_id h"
    using le_load_at2 [of 2 ?p "connection_id h"] by (simp add: header_as_ref_def slice_def)
  moreover have "u8_to_unsigned_be ?p 4 7 = timestamp h"
    using le_load_at4 [of 4 ?p "timestamp h"] by (simp add: header_as_ref_def slice_def)
  moreover have "u8_to_unsigned_be ?p 8 11 = timestamp_difference h"
    using le_load_at4 [of 8 ?p "timestamp_difference h"] by (simp add: header_as_ref_def slice_def)
  moreover have "u8_to_unsigned_be ?p 12 15 = wnd_size h"
    using le_load_at4 [of 12 ?p "wnd_size h"] by (simp add: header_as_ref_def slice_def)
  moreover have "u8_to_unsigned_be ?p 16 17 = seq_nr h"
    using le_load_at2 [of 16 ?p "seq_nr h"] by (simp add: header_as_ref_def slice_def)
  moreover have "u8_to_unsigned_be ?p 18 19 = ack_nr h"
    using le_load_at2 [of 18 ?p "ack_nr h"] by (simp add: header_as_ref_def slice_def)
  moreover have "?p ! 0 = type_ver h" and "?p ! 1 = extension h"
    by (simp_all add: header_as_ref_def)
  ultimately show ?thesis unfolding view_header_def by simp
qed

lemma first_two: "2 \<le> length p \<Longrightarrow> slice p 0 2 = [p ! 0, p ! 1]"
  by (cases p; cases "tl p") (auto simp: slice_def)

lemma header_as_ref_view:
  assumes "20 \<le> length p"
  shows "header_as_ref (view_header p) = take 20 p"
proof -
  have "header_as_ref (view_header p) = [p ! 0, p ! 1] @ slice p 2 4 @ slice p 4 8 @ slice p 8 12 @
    slice p 12 16 @ slice p 16 18 @ slice p 18 20"
    using assms le_store_load2 [of 2 p] le_store_load4 [of 4 p] le_store_load4 [of 8 p]
      le_store_load4 [of 12 p] le_store_load2 [of 16 p] le_store_load2 [of 18 p]
    by (simp add: header_as_ref_def view_header_def)
  also have "[p ! 0, p ! 1] = slice p 0 2"
    by (rule first_two [symmetric]) (use assms in simp)
  also have "slice p 0 2 @ slice p 2 4 @ slice p 4 8 @ slice p 8 12 @
    slice p 12 16 @ slice p 16 18 @ slice p 18 20 = slice p 0 2 @ slice p 2 20"
    by (simp add: slice_concat [of 2 4 20] slice_concat [of 4 8 20] slice_concat [of 8 12 20]
      slice_concat [of 12 16 20] slice_concat [of 16 18 20])
  also have "\<dots> = slice p 0 20" by (simp add: slice_concat [of 0 2 20])
  finally show ?thesis by (simp add: slice_def)
qed

lemma view_put_header [simp]: "view_header (put_header h p) = h"
  by (simp add: put_header_def)

lemma put_view_header: "20 \<le> length p \<Longrightarrow> put_header (view_header p) p = p"
  by (simp add: put_header_def header_as_ref_view HEADER_SIZE_def)

lemma length_put_header [simp]: "20 \<le> length p \<Longrightarrow> length (put_header h p) = length p"
  by (simp add: put_header_def HEADER_SIZE_def)

lemma drop_put_header [simp]: "drop 20 (put_header h p) = drop 20 p"
  by (simp add: put_header_def HEADER_SIZE_def)

lemma put_put_header [simp]: "put_header h (put_header h' p) = put_header h p"
  by (simp add: put_header_def HEADER_SIZE_def)

lemma put_header_nth [simp]: "put_header h p ! 0 = type_ver h" "put_header h p ! Suc 0 = extension h"
  by (simp_all add: put_header_def header_as_ref_def)

lemma swap_swap16 [simp]: "swap_bytes 2 (swap_bytes 2 w) = (w :: u16)"
  by (simp add: swap_swap)

lemma swap_swap32 [simp]: "swap_bytes 4 (swap_bytes 4 w) = (w :: u32)"
  by (simp add: swap_swap)

end
