(* ===== verification/Utp_Extension.thy ===== *)
theory Utp_Extension
  imports Utp_Packet
begin

text \<open>
  Extensions of a uTP packet. The loops of \<open>check_extensions\<close>, \<open>payload\<close>,
  \<open>set_sack\<close> and of the extension iterator are proved against one abstract reading of the bytes
  behind the header, and the header fields against the contract of a field that leaves this
  reading alone.
\<close>

section \<open>The chain of extensions\<close>

text \<open>
  What follows the header, abstractly: every extension starts with the type of its successor and
  the length of its data. The type of the first one is in the header, and \<open>k\<close> is the
  type the last one announces (zero in a complete packet).
\<close>

fun first_type :: "byte \<Rightarrow> (byte \<times> bytes) list \<Rightarrow> byte" where
  "first_type k [] = k"
| "first_type k ((t, d) # es) = t"

fun chain :: "byte \<Rightarrow> (byte \<times> bytes) list \<Rightarrow> bytes \<Rightarrow> bytes" where
  "chain k [] pl = pl"
| "chain k ((t, d) # es) pl = first_type k es # of_nat (length d) # d @ chain k es pl"

fun extension_wf :: "byte \<times> bytes \<Rightarrow> bool" where
  "extension_wf (t, d) \<longleftrightarrow> t \<noteq> 0 \<and> d \<noteq> [] \<and> length d mod 4 = 0 \<and> length d < 256"

definition packet_repr :: "Packet \<Rightarrow> (byte \<times> bytes) list \<Rightarrow> bytes \<Rightarrow> bool" where
  "packet_repr p es pl \<longleftrightarrow>
     20 \<le> length p \<and> p ! 1 = first_type 0 es \<and> drop 20 p = chain 0 es pl \<and> list_all extension_wf es"

definition to_extension :: "byte \<times> bytes \<Rightarrow> Extension" where
  "to_extension e = \<lparr>ty = extension_type_from (fst e), ext_data = snd e\<rparr>"

lemma extension_type_None [simp]: "extension_type_from b = NoExtension \<longleftrightarrow> b = 0"
  by (simp add: extension_type_from_def)

lemma extension_type_0 [simp]: "extension_type_from 0 = NoExtension"
  by simp

lemma unat_of_nat_byte [simp]: "n < 256 \<Longrightarrow> unat (of_nat n :: byte) = n"
  by (simp add: unat_of_nat)

lemma unat_byte_less: "unat (b :: byte) < 256"
  using unsigned_less [of b, where 'a = nat] by simp

lemma drop_Cons2:
  assumes "drop i p = a # b # r"
  shows "Suc i < length p" and "p ! i = a" and "p ! Suc i = b" and "drop (Suc (Suc i)) p = r"
proof -
  have "length (drop i p) = Suc (Suc (length r))" using assms by simp
  then show l: "Suc i < length p" by simp
  define pre where "pre = take i p"
  have p: "p = pre @ a # b # r" and i: "i = length pre"
    using assms l append_take_drop_id [of i p] by (simp_all add: pre_def)
  show "p ! i = a" "p ! Suc i = b" "drop (Suc (Suc i)) p = r"
    unfolding p i by (simp_all add: nth_append)
qed

lemma chain_step:
  assumes "drop i p = chain k ((t, d) # es) pl" and "extension_wf (t, d)"
  shows "Suc i < length p" and "p ! i = first_type k es" and "unat (p ! Suc i) = length d"
    and "i + length d + 2 \<le> length p" and "drop (i + length d + 2) p = chain k es pl"
    and "slice p (i + 2) (i + 2 + length d) = d"
proof -
  let ?r = "d @ chain k es pl"
  have c: "drop i p = first_type k es # of_nat (length d) # ?r" using assms(1) by simp
  note d = drop_Cons2 [OF c]
  then show "Suc i < length p" and "p ! i = first_type k es" by auto
  show "unat (p ! Suc i) = length d" using d(3) assms(2) by simp
  have "length (drop (i + 2) p) = length ?r" using d(4) by simp
  then show "i + length d + 2 \<le> length p" using d(1) by simp
  have "drop (length d) (drop (i + 2) p) = chain k es pl" using d(4) by simp
  then show "drop (i + length d + 2) p = chain k es pl" by (simp add: add.commute add.left_commute)
  show "slice p (i + 2) (i + 2 + length d) = d" using d(4) by (simp add: slice_def)
qed

lemma first_type_not_0: "list_all extension_wf es \<Longrightarrow> first_type 0 es = 0 \<longleftrightarrow> es = []"
  by (cases es rule: list.exhaust) auto

lemma check_loop_chain:
  "drop i p = chain 0 es pl \<Longrightarrow> list_all extension_wf es \<Longrightarrow> i \<le> length p \<Longrightarrow>
   check_loop p i (extension_type_from (first_type 0 es)) = Ok ()"
proof (induction es arbitrary: i)
  case Nil
  then show ?case by (subst check_loop.simps) simp
next
  case (Cons e es)
  obtain t d where e: "e = (t, d)" by (cases e)
  note st = chain_step [OF Cons.prems(1) [unfolded e]]
  have wf: "extension_wf (t, d)" "list_all extension_wf es" using Cons.prems(2) e by simp_all
  have "check_loop p (i + length d + 2) (extension_type_from (first_type 0 es)) = Ok ()"
    using Cons.IH st(5) [OF wf(1)] wf(2) st(4) [OF wf(1)] by blast
  then show ?case using wf(1) st(1-4) [OF wf(1)] e
    by (subst check_loop.simps) (auto simp: Let_def)
qed

lemma check_loop_Ok:
  "check_loop p i (extension_type_from b) = Ok () \<Longrightarrow> i \<le> length p \<Longrightarrow>
   \<exists>es pl. b = first_type 0 es \<and> drop i p = chain 0 es pl \<and> list_all extension_wf es"
proof (induction "length p - i" arbitrary: i b rule: less_induct)
  case less
  show ?case
  proof (cases "b = 0")
    case True
    then show ?thesis by (intro exI [of _ "[]"] exI [of _ "drop i p"]) simp
  next
    case False
    let ?n = "unat (p ! (i + 1))"
    note loop = less.prems(1) [unfolded check_loop.simps [of p i "extension_type_from b"] Let_def]
    have c: "i + 2 \<le> length p" "?n \<noteq> 0" "?n mod 4 = 0" "i + 2 + ?n \<le> length p"
      "check_loop p (i + ?n + 2) (extension_type_from (p ! i)) = Ok ()"
      using loop False by (auto split: if_splits)
    have "length p - (i + ?n + 2) < length p - i" and "i + ?n + 2 \<le> length p" using c(4) by simp_all
    then obtain es pl where es: "p ! i = first_type 0 es" "drop (i + ?n + 2) p = chain 0 es pl" "list_all extension_wf es"
      using less.hyps c(5) by blast
    define d where "d = slice p (i + 2) (i + 2 + ?n)"
    have ld: "length d = ?n" using c(4) by (simp add: d_def length_slice)
    have "drop i p = p ! i # p ! (i + 1) # drop (i + 2) p"
      using c(1) by (simp add: Cons_nth_drop_Suc)
    moreover have "drop (i + 2) p = d @ drop (i + ?n + 2) p"
      using append_take_drop_id [of ?n "drop (i + 2) p"] by (simp add: d_def slice_def add.commute add.left_commute)
    ultimately have "drop i p = chain 0 ((b, d) # es) pl" using es ld by simp
    moreover have "extension_wf (b, d)" using False c ld unat_byte_less [of "p ! (i + 1)"] by auto
    ultimately show ?thesis using es(3) by (intro exI [of _ "(b, d) # es"] exI [of _ pl]) simp
  qed
qed

lemma payload_loop_chain:
  "drop i p = chain 0 es pl \<Longrightarrow> list_all extension_wf es \<Longrightarrow> i \<le> length p \<Longrightarrow>
   payload_loop p i (extension_type_from (first_type 0 es)) = Ok (length p - length pl)"
proof (induction es arbitrary: i)
  case Nil
  then have "length p - i = length pl" by (metis chain.simps(1) length_drop)
  with Nil.prems(3) show ?case by (subst payload_loop.simps) simp
next
  case (Cons e es)
  obtain t d where e: "e = (t, d)" by (cases e)
  have wf: "extension_wf (t, d)" "list_all extension_wf es" using Cons.prems(2) e by simp_all
  note st = chain_step [OF Cons.prems(1) [unfolded e] wf(1)]
  have "payload_loop p (i + length d + 2) (extension_type_from (first_type 0 es)) = Ok (length p - length pl)"
    using Cons.IH st(4,5) wf(2) by blast
  then show ?case using wf(1) st(1-4) e
    by (subst payload_loop.simps) (auto simp: Let_def)
qed

lemma length_chain: "length pl \<le> length (chain k es pl)"
  by (induction k es pl rule: chain.induct) auto

lemma collect_extensions_chain:
  "drop i p = chain 0 es pl \<Longrightarrow> list_all extension_wf es \<Longrightarrow> i \<le> length p \<Longrightarrow>
   collect_extensions \<lparr>raw_bytes = p, next_extension = extension_type_from (first_type 0 es), ext_index = i\<rparr> =
     Ok (map to_extension es)"
proof (induction es arbitrary: i)
  case Nil
  then show ?case by (subst collect_extensions.simps) (simp add: extension_next_def)
next
  case (Cons e es)
  obtain t d where e: "e = (t, d)" by (cases e)
  have wf: "extension_wf (t, d)" "list_all extension_wf es" using Cons.prems(2) e by simp_all
  note st = chain_step [OF Cons.prems(1) [unfolded e] wf(1)]
  note IH = Cons.IH [OF st(5) wf(2) st(4)]
  have "extension_next \<lparr>raw_bytes = p, next_extension = extension_type_from t, ext_index = i\<rparr> =
    Ok (Some (to_extension (t, d)),
        \<lparr>raw_bytes = p, next_extension = extension_type_from (first_type 0 es), ext_index = i + length d + 2\<rparr>)"
    using st wf(1) by (simp add: extension_next_def to_extension_def Let_def)
  then show ?case using e IH by (subst collect_extensions.simps) simp
qed

section \<open>Adding an extension\<close>

lemma chain_append: "chain k es pl = chain k es [] @ pl"
  by (induction k es pl rule: chain.induct) auto

lemma first_type_snoc: "first_type 0 (es @ [(t, d)]) = first_type t es"
  by (cases es rule: list.exhaust) auto

lemma chain_snoc:
  "chain 0 (es @ [(t, d)]) pl = chain t es [] @ 0 # of_nat (length d) # d @ pl"
  by (induction es) (auto simp: first_type_snoc)

lemma sack_loop_chain:
  "drop i p = chain 0 es pl \<Longrightarrow> list_all extension_wf es \<Longrightarrow> es \<noteq> [] \<Longrightarrow>
   sack_loop p i (extension_type_from (first_type 0 es)) = Ok (take i p @ chain 1 es pl, length p - length pl)"
proof (induction es arbitrary: i)
  case (Cons e es)
  obtain t d where e: "e = (t, d)" by (cases e)
  have wf: "extension_wf (t, d)" "list_all extension_wf es" using Cons.prems(2) e by simp_all
  note st = chain_step [OF Cons.prems(1) [unfolded e] wf(1)]
  let ?j = "i + length d + 2"
  show ?case
  proof (cases "es = []")
    case True
    have "length p - ?j = length pl" using st(5) True by (metis chain.simps(1) length_drop)
    then have j: "?j = length p - length pl" using st(4) by simp
    have "p[i := 1] = take i p @ 1 # drop (Suc i) p" using st(1) by (simp add: upd_conv_take_nth_drop)
    moreover have "drop (Suc i) p = of_nat (length d) # d @ pl"
      using Cons.prems(1) e True by (simp add: drop_Suc tl_drop [symmetric])
    ultimately have p': "p[i := 1] = take i p @ chain 1 [(t, d)] pl" by simp
    have "sack_loop (p[i := 1]) ?j NoExtension = Ok (p[i := 1], ?j)"
      by (subst sack_loop.simps) simp
    then show ?thesis using wf(1) st(1-3) e True j p'
      by (subst sack_loop.simps) (simp add: Let_def)
  next
    case False
    then have "first_type 0 es \<noteq> 0" using wf(2) first_type_not_0 by blast
    moreover have "sack_loop p ?j (extension_type_from (first_type 0 es)) =
        Ok (take ?j p @ chain 1 es pl, length p - length pl)"
      using Cons.IH [OF st(5) wf(2) False] .
    moreover have "take ?j p = take i p @ first_type 0 es # of_nat (length d) # d"
      using take_add [of i "length d + 2" p] Cons.prems(1) e by (simp add: add.assoc)
    moreover have "first_type 0 es = first_type 1 es" using False by (cases es rule: list.exhaust) auto
    ultimately show ?thesis using wf(1) st(1-3) e
      by (subst sack_loop.simps) (simp add: Let_def)
  qed
qed simp

lemma vec_insert_middle: "vec_insert (length a) x (a @ b) = Ok (a @ x # b)"
  by (simp add: vec_insert_def)

lemma insert_each_middle: "insert_each (length a) xs (a @ b) = Ok (a @ xs @ b)"
proof (induction xs arbitrary: a)
  case (Cons x xs)
  then show ?case using Cons.IH [of "a @ [x]"] by (simp add: vec_insert_middle)
qed simp

lemma set_sack_tail:
  "try_bind (vec_insert (length a) (u8_from_extension_type NoExtension) (a @ pl)) (\<lambda>p.
     try_bind (vec_insert (length a + 1) (of_nat (length bv)) p) (\<lambda>p. insert_each (length a + 2) bv p)) =
   Ok (a @ 0 # of_nat (length bv) # bv @ pl)"
  using vec_insert_middle [of "a @ [0]" "of_nat (length bv)" pl]
    insert_each_middle [of "a @ [0, of_nat (length bv)]" bv pl]
  by (simp add: vec_insert_middle)

lemma set_sack_repr:
  assumes repr: "packet_repr p es pl" and bv: "4 \<le> length bv" "length bv mod 4 = 0"
  shows "set_sack bv p = Ok (take 20 (if es = [] then p[1 := 1] else p) @ chain 0 (es @ [(1, bv)]) pl)"
proof (cases "es = []")
  case True
  then have p: "p[1 := 1] = take 20 (p[1 := 1]) @ pl" and "p ! 1 = 0" and l: "20 \<le> length p"
    using repr append_take_drop_id [of 20 "p[1 := 1]"] by (simp_all add: packet_repr_def)
  have "length (take 20 (p[1 := 1])) = HEADER_SIZE" using l by (simp add: HEADER_SIZE_def)
  then show ?thesis using set_sack_tail [of "take 20 (p[1 := 1])" pl bv] p \<open>p ! 1 = 0\<close> l bv True
    by (simp add: set_sack_def)
next
  case False
  let ?a = "take 20 p @ chain 1 es []"
  have r: "drop HEADER_SIZE p = chain 0 es pl" "list_all extension_wf es" "p ! 1 = first_type 0 es" "20 \<le> length p"
    using repr by (simp_all add: packet_repr_def HEADER_SIZE_def)
  then have nz: "p ! 1 \<noteq> 0" using False first_type_not_0 by simp
  have "length p - length pl = length ?a"
  proof -
    have "length (chain 0 es []) = length (chain 1 es [])"
      by (induction es) auto
    then have "length (drop 20 p) = length (chain 1 es []) + length pl"
      using r(1) chain_append [of 0 es pl] by (simp add: HEADER_SIZE_def)
    then show ?thesis using r(4) by simp
  qed
  then have "sack_loop p HEADER_SIZE (extension_type_from (p ! 1)) = Ok (?a @ pl, length ?a)"
    using sack_loop_chain [OF r(1,2) False] r(3) chain_append [of 1 es pl] by (simp add: HEADER_SIZE_def)
  then show ?thesis using set_sack_tail [of ?a pl bv] nz r(4) bv False
    by (simp add: set_sack_def chain_snoc)
qed

section \<open>Parsing\<close>

lemma check_extensions_repr:
  "check_extensions bs = Ok () \<longleftrightarrow> (\<exists>es pl. packet_repr bs es pl)"
proof
  assume c: "check_extensions bs = Ok ()"
  then have "20 \<le> length bs" and "check_loop bs 20 (extension_type_from (bs ! 1)) = Ok ()"
    by (auto simp: check_extensions_def HEADER_SIZE_def split: if_splits)
  then show "\<exists>es pl. packet_repr bs es pl"
    using check_loop_Ok [of bs 20 "bs ! 1"] by (auto simp: packet_repr_def)
next
  assume "\<exists>es pl. packet_repr bs es pl"
  then obtain es pl where r: "20 \<le> length bs" "bs ! 1 = first_type 0 es" "drop 20 bs = chain 0 es pl"
    "list_all extension_wf es"
    by (auto simp: packet_repr_def)
  have "es = []" if "length bs = 20"
    using r(3) that by (cases es rule: list.exhaust) auto
  then have "length bs = 20 \<Longrightarrow> bs ! 1 = 0" using r(2) by auto
  moreover have "check_loop bs 20 (extension_type_from (bs ! 1)) = Ok ()"
    using check_loop_chain [OF r(3,4)] r by simp
  ultimately show "check_extensions bs = Ok ()"
    using r(1) by (simp add: check_extensions_def HEADER_SIZE_def)
qed

definition header_ok :: "byte \<Rightarrow> bool" where
  "header_ok b \<longleftrightarrow> b AND 0x0F = 1 \<and> is_ok (packet_type_try_from (drop_bit 4 b))"

lemma packet_type_no_panic [simp]: "packet_type_try_from b \<noteq> Panic"
  by (simp add: packet_type_try_from_def)

lemma header_try_from_ok: "is_ok (header_try_from bs) \<longleftrightarrow> 20 \<le> length bs \<and> header_ok (bs ! 0)"
  by (auto simp: header_try_from_def header_ok_def HEADER_SIZE_def split: outcome.split)

lemma packet_try_from_Ok:
  "packet_try_from bs = Ok p \<longleftrightarrow> p = bs \<and> header_ok (bs ! 0) \<and> (\<exists>es pl. packet_repr bs es pl)"
proof -
  have "(\<exists>h. header_try_from bs = Ok h) \<longleftrightarrow> 20 \<le> length bs \<and> header_ok (bs ! 0)"
    unfolding header_try_from_ok [symmetric] by (cases "header_try_from bs") auto
  moreover have "\<exists>es pl. packet_repr bs es pl \<Longrightarrow> 20 \<le> length bs" by (auto simp: packet_repr_def)
  ultimately show ?thesis
    by (auto simp: packet_try_from_def outcome_simps check_extensions_repr)
qed

lemma check_loop_no_panic: "check_loop bs i t \<noteq> Panic"
  by (induction bs i t rule: check_loop.induct) (subst check_loop.simps, simp add: Let_def)

lemma packet_try_from_no_panic [simp]: "packet_try_from bs \<noteq> Panic"
  by (auto simp: packet_try_from_def header_try_from_def check_extensions_def outcome_simps check_loop_no_panic
      split: if_splits outcome.splits)

lemma payload_repr: "packet_repr p es pl \<Longrightarrow> payload p = Ok pl"
proof -
  assume r: "packet_repr p es pl"
  then have "length pl \<le> length (drop 20 p)" using length_chain by (simp add: packet_repr_def)
  moreover have "drop (length p - length pl) p = pl"
  proof -
    have "drop 20 p = chain 0 es [] @ pl" using r chain_append [of 0 es pl] by (simp add: packet_repr_def)
    then have "p = (take 20 p @ chain 0 es []) @ pl" using append_take_drop_id [of 20 p] by simp
    then show ?thesis by (metis append_eq_conv_conj diff_add_inverse2 length_append)
  qed
  ultimately show ?thesis
    using r payload_loop_chain [of 20 p es pl] by (auto simp: payload_def packet_repr_def HEADER_SIZE_def)
qed

lemma extensions_repr: "packet_repr p es pl \<Longrightarrow> extensions p = Ok (map to_extension es)"
  using collect_extensions_chain [of 20 p es pl]
  by (simp add: extensions_def extension_iterator_new_def packet_repr_def HEADER_SIZE_def)

section \<open>Header fields\<close>

text \<open>
  The contract of a setter of the header: it writes the header only, and neither the extension byte
  nor the version, and leaves a valid packet type valid. What a reader finds behind the header is then
  unchanged.
\<close>

locale header_field =
  fixes put :: "'v \<Rightarrow> Packet \<Rightarrow> Packet"
  assumes put_is_put_header: "20 \<le> length p \<Longrightarrow> \<exists>h. put v p = put_header h p \<and> extension h = extension (view_header p)"
    and put_header_ok: "20 \<le> length p \<Longrightarrow> header_ok (p ! 0) \<Longrightarrow> header_ok (put v p ! 0)"
begin

lemma repr: "packet_repr p es pl \<Longrightarrow> packet_repr (put v p) es pl"
  using put_is_put_header [of p v] by (auto simp: packet_repr_def view_header_def)

lemma parses: "packet_try_from p = Ok p \<Longrightarrow> packet_try_from (put v p) = Ok (put v p)"
  using repr put_header_ok by (fastforce simp: packet_try_from_Ok packet_repr_def)

lemma same_payload: "packet_try_from p = Ok p \<Longrightarrow> payload (put v p) = payload p"
  using repr payload_repr by (metis packet_try_from_Ok)

lemma same_extensions: "packet_try_from p = Ok p \<Longrightarrow> extensions (put v p) = extensions p"
  using repr extensions_repr by (metis packet_try_from_Ok)

lemmas keeps = parses same_payload same_extensions

end

lemma view_header_nth: "type_ver (view_header p) = p ! 0" "extension (view_header p) = p ! 1"
  by (simp_all add: view_header_def)

lemmas setter_defs = set_type_def header_set_type_def set_timestamp_def set_timestamp_difference_def set_seq_nr_def set_ack_nr_def
  set_connection_id_def set_wnd_size_def

lemma type_ver_bits:
  "drop_bit 4 (push_bit 4 (u8_from_packet_type t) OR (0x0F AND b)) = u8_from_packet_type t"
  "(push_bit 4 (u8_from_packet_type t) OR (0x0F AND b)) AND 0x0F = b AND 0x0F"
proof -
  have m: "(0x0F :: byte) = mask 4" by (simp add: mask_numeral)
  show "drop_bit 4 (push_bit 4 (u8_from_packet_type t) OR (0x0F AND b)) = u8_from_packet_type t"
  proof (rule bit_word_eqI)
    fix k assume "k < LENGTH(8)"
    moreover have "take_bit 4 (u8_from_packet_type t) = u8_from_packet_type t" by (cases t) simp_all
    then have "bit (u8_from_packet_type t) k \<longrightarrow> k < 4"
      using bit_take_bit_iff [of 4 "u8_from_packet_type t" k] by auto
    ultimately show "bit (drop_bit 4 (push_bit 4 (u8_from_packet_type t) OR (0x0F AND b))) k =
      bit (u8_from_packet_type t) k"
      unfolding m by (auto simp: bit_drop_bit_eq bit_or_iff bit_push_bit_iff bit_and_iff bit_mask_iff)
  qed
  show "(push_bit 4 (u8_from_packet_type t) OR (0x0F AND b)) AND 0x0F = b AND 0x0F"
    unfolding m by (rule bit_word_eqI) (auto simp: bit_or_iff bit_push_bit_iff bit_and_iff bit_mask_iff)
qed

lemma packet_type_roundtrip [simp]: "packet_type_try_from (u8_from_packet_type t) = Ok t"
  by (cases t) (simp_all add: packet_type_try_from_def)

lemma header_ok_set_type:
  "header_ok b \<Longrightarrow> header_ok (push_bit 4 (u8_from_packet_type t) OR (0x0F AND b))"
  unfolding header_ok_def type_ver_bits by simp

interpretation field_type: header_field set_type
  by unfold_locales (auto simp: setter_defs view_header_nth intro: header_ok_set_type)

interpretation field_timestamp: header_field set_timestamp
  by unfold_locales (auto simp: setter_defs view_header_nth)

interpretation field_timestamp_difference: header_field set_timestamp_difference
  by unfold_locales (auto simp: setter_defs view_header_nth)

interpretation field_seq_nr: header_field set_seq_nr
  by unfold_locales (auto simp: setter_defs view_header_nth)

interpretation field_ack_nr: header_field set_ack_nr
  by unfold_locales (auto simp: setter_defs view_header_nth)

interpretation field_connection_id: header_field set_connection_id
  by unfold_locales (auto simp: setter_defs view_header_nth)

interpretation field_wnd_size: header_field set_wnd_size
  by unfold_locales (auto simp: setter_defs view_header_nth)

lemmas fields_keep = field_type.keeps field_timestamp.keeps field_timestamp_difference.keeps field_seq_nr.keeps
  field_ack_nr.keeps field_connection_id.keeps field_wnd_size.keeps

lemmas getter_defs = get_type_def header_get_type_def packet_timestamp_def packet_timestamp_difference_def packet_seq_nr_def
  packet_ack_nr_def packet_connection_id_def packet_wnd_size_def

lemma view_header_take: "20 \<le> length p \<Longrightarrow> view_header (take 20 p @ t) = view_header p"
  by (metis header_as_ref_view view_header_append)

lemma view_header_extension:
  assumes "20 \<le> length p"
  shows "view_header (p[1 := x]) = (view_header p)\<lparr>extension := x\<rparr>"
proof -
  have "take 20 (p[1 := x]) = (header_as_ref (view_header p))[1 := x]"
    using assms by (simp add: header_as_ref_view take_update_swap)
  also have "\<dots> = header_as_ref ((view_header p)\<lparr>extension := x\<rparr>)" by (simp add: header_as_ref_def)
  finally have "p[1 := x] = header_as_ref ((view_header p)\<lparr>extension := x\<rparr>) @ drop 20 (p[1 := x])"
    using append_take_drop_id [of 20 "p[1 := x]"] by metis
  then show ?thesis by (metis view_header_append)
qed

section \<open>Properties\<close>

text \<open>
  C13. A byte sequence is accepted as a packet exactly when it has a header of version one with a
  known type and the bytes behind the header are a chain of extensions, each with data of a positive
  multiple of four bytes, and a payload. Reading the payload and the extensions of such a packet
  never panics and gives the parts of that chain.
\<close>

theorem packet_parse_correct:
  "(packet_try_from bs = Ok p \<longleftrightarrow>
      p = bs \<and> get_version bs = 1 \<and> is_ok (get_type bs) \<and> (\<exists>es pl. packet_repr bs es pl)) \<and>
   (packet_repr bs es pl \<longrightarrow> payload bs = Ok pl \<and> extensions bs = Ok (map to_extension es))"
proof -
  have "is_ok (unwrap m :: (unit, PacketType) outcome) \<longleftrightarrow> is_ok m" for m :: "(ParseError, PacketType) outcome"
    by (cases m) auto
  then show ?thesis
    by (auto simp: packet_try_from_Ok header_ok_def get_version_def header_get_version_def get_type_def
        header_get_type_def view_header_nth payload_repr extensions_repr)
qed

definition sample_packet :: Packet where
  "sample_packet = [0x21, 1, 0x41, 0xa8, 0x99, 0x2f, 0xd0, 0x2a, 0x9f, 0x4a, 0x26, 0x21, 0, 0x10, 0, 0,
     0x3a, 0xf2, 0x6c, 0x79, 0, 4, 1, 2, 3, 4, 9, 9]"

theorem packet_parse_correct_witness:
  "packet_repr sample_packet [(1, [1, 2, 3, 4])] [9, 9] \<and> payload sample_packet = Ok [9, 9]"
proof -
  have "packet_repr sample_packet [(1, [1, 2, 3, 4])] [9, 9]" by code_simp
  with packet_parse_correct [of sample_packet sample_packet "[(1, [1, 2, 3, 4])]" "[9, 9]"]
  show ?thesis by simp
qed

text \<open>
  C15. Adding a selective acknowledgement of four to 252 bytes to an accepted packet appends it to the
  extensions and keeps the payload and every header field; the result is again an accepted packet.
\<close>

theorem set_sack_correct:
  assumes "packet_try_from p = Ok p" and "payload p = Ok pl" and "extensions p = Ok es"
    and "4 \<le> length bv" and "length bv mod 4 = 0" and "length bv < 256"
  shows "\<exists>p'. set_sack bv p = Ok p' \<and> packet_try_from p' = Ok p' \<and> payload p' = Ok pl \<and>
    extensions p' = Ok (es @ [\<lparr>ty = SelectiveAck, ext_data = bv\<rparr>]) \<and>
    (\<exists>x. view_header p' = (view_header p)\<lparr>extension := x\<rparr>)"
proof -
  obtain es' where r: "packet_repr p es' pl" and es: "es = map to_extension es'" and h: "header_ok (p ! 0)"
    using assms(1-3) by (metis packet_try_from_Ok payload_repr extensions_repr outcome.inject(1))
  let ?q = "if es' = [] then p[1 := 1] else p"
  let ?p = "take 20 ?q @ chain 0 (es' @ [(1, bv)]) pl"
  have l: "20 \<le> length p" and lq: "length (take 20 ?q) = 20" using r by (auto simp: packet_repr_def)
  have "?q ! 1 = first_type 1 es'" and q0: "?q ! 0 = p ! 0"
    using r l by (auto simp: packet_repr_def neq_Nil_conv)
  then have r': "packet_repr ?p (es' @ [(1, bv)]) pl"
    using r l lq assms(4-6) by (auto simp: packet_repr_def nth_append first_type_snoc)
  moreover have "header_ok (?p ! 0)" using h q0 lq by (simp add: nth_append)
  ultimately have "packet_try_from ?p = Ok ?p" by (auto simp only: packet_try_from_Ok)
  moreover have "extensions ?p = Ok (es @ [\<lparr>ty = SelectiveAck, ext_data = bv\<rparr>])"
    using extensions_repr [OF r'] by (simp add: es to_extension_def extension_type_from_def)
  moreover have "view_header ?p = (view_header p)\<lparr>extension := ?q ! 1\<rparr>"
    using view_header_take [of ?q] view_header_extension [OF l] l
    by (cases "es' = []") (simp_all, metis list_update_id)
  ultimately show ?thesis using set_sack_repr [OF r assms(4,5)] payload_repr [OF r'] by blast
qed

definition sample_sack :: bytes where
  "sample_sack = [1, 0, 0, 0]"

theorem set_sack_correct_witness:
  "\<exists>p'. set_sack sample_sack sample_packet = Ok p' \<and> payload p' = Ok [9, 9]"
proof -
  have "packet_try_from sample_packet = Ok sample_packet" by code_simp
  moreover have "payload sample_packet = Ok [9, 9]" by code_simp
  moreover have "extensions sample_packet = Ok [\<lparr>ty = SelectiveAck, ext_data = [1, 2, 3, 4]\<rparr>]" by code_simp
  ultimately have "\<exists>p'. set_sack sample_sack sample_packet = Ok p' \<and> packet_try_from p' = Ok p' \<and> payload p' = Ok [9, 9] \<and>
    extensions p' = Ok ([\<lparr>ty = SelectiveAck, ext_data = [1, 2, 3, 4]\<rparr>] @ [\<lparr>ty = SelectiveAck, ext_data = sample_sack\<rparr>]) \<and>
    (\<exists>x. view_header p' = (view_header sample_packet)\<lparr>extension := x\<rparr>)"
    by (rule set_sack_correct) (simp_all add: sample_sack_def)
  then show ?thesis by blast
qed

text \<open>
  Filling the header of an accepted packet gives an accepted packet that reads back the values
  (the delay at the width of its field) with the payload and the extensions unchanged.
\<close>

theorem header_fields_roundtrip:
  assumes "packet_try_from p = Ok p"
    and "p' = set_type t (set_connection_id c (set_timestamp ts (set_timestamp_difference d
      (set_wnd_size w (set_seq_nr s (set_ack_nr a p))))))"
  shows "packet_try_from p' = Ok p' \<and> payload p' = payload p \<and> extensions p' = extensions p \<and>
    get_type p' = Ok t \<and> packet_connection_id p' = c \<and> packet_timestamp p' = ts \<and>
    packet_timestamp_difference p' = delay_from_u32 (u32_from_delay d) \<and> packet_wnd_size p' = w \<and>
    packet_seq_nr p' = s \<and> packet_ack_nr p' = a"
proof -
  have "packet_try_from p' = Ok p' \<and> payload p' = payload p \<and> extensions p' = extensions p"
    unfolding assms(2) using assms(1) by (simp add: fields_keep)
  moreover have "get_type p' = Ok t"
    unfolding assms(2) by (simp add: getter_defs set_type_def header_set_type_def type_ver_bits del: drop_bit_or drop_bit_and)
  moreover have "Timestamp (u32_from_timestamp ts) = ts" by (cases ts) simp
  ultimately show ?thesis unfolding assms(2) by (simp add: getter_defs setter_defs)
qed

theorem header_fields_roundtrip_witness:
  "packet_try_from sample_packet = Ok sample_packet \<and>
   get_type (set_type Fin (set_connection_id 7 (set_timestamp (Timestamp 8) (set_timestamp_difference (Delay 9)
     (set_wnd_size 10 (set_seq_nr 11 (set_ack_nr 12 sample_packet))))))) = Ok Fin"
proof -
  have "packet_try_from sample_packet = Ok sample_packet" by code_simp
  then show ?thesis
    using header_fields_roundtrip [OF _ refl, of sample_packet Fin 7 "Timestamp 8" "Delay 9" 10 11 12] by simp
qed

end
