(* ===== verification/Utp_Socket.thy ===== *)
theory Utp_Socket
  imports Utp_Packet Util_Convert "HOL-Library.Signed_Division"
begin

text \<open>
  The uTP socket: \<open>btp-utp/src/socket.rs\<close>, with \<open>util.rs\<close> and the socket errors of
  \<open>error.rs\<close>.

  The operations pass a pair: the socket record, with the fields of the source, and the outside world.
  The world holds the datagrams and errors the UDP socket will deliver, the results of sending, what has
  been sent, the readings of the system clock and the random numbers; an operation that needs a datagram
  when none is left stops with \<open>Blocked\<close>. The source's arithmetic on \<open>u16\<close>, \<open>u32\<close> and \<open>i32\<close> wraps, as
  in a release build. Floating point numbers are a parameter of the model: a type \<open>'f\<close> and the
  operations the source uses on it.

  The functions \<open>recv\<close>, \<open>handle_packet\<close>, \<open>handle_state_packet\<close>, \<open>resend_lost_packet\<close> and \<open>send_packet\<close>
  call each other in a circle. It is cut at \<open>recv\<close>: the others take the receive operation as an
  argument, and \<open>recv\<close> is defined by recursion over a fuel.
\<close>

section \<open>Constants and data\<close>

definition BUF_SIZE :: nat where "BUF_SIZE = 1500"
definition ALLOWED_INCREASE :: u32 where "ALLOWED_INCREASE = 1"
definition MSS :: u32 where "MSS = 1400"
definition MIN_CWND :: u32 where "MIN_CWND = 2"
definition INIT_CWND :: u32 where "INIT_CWND = 2"
definition INITIAL_CONGESTION_TIMEOUT :: u64 where "INITIAL_CONGESTION_TIMEOUT = 2000"
definition MIN_CONGESTION_TIMEOUT :: u64 where "MIN_CONGESTION_TIMEOUT = 500"
definition MAX_CONGESTION_TIMEOUT :: u64 where "MAX_CONGESTION_TIMEOUT = 60000"
definition BASE_HISTORY :: nat where "BASE_HISTORY = 10"
definition MAX_SYN_RETRIES :: nat where "MAX_SYN_RETRIES = 5"
definition MAX_RETRANSMISSION_RETRIES :: u32 where "MAX_RETRANSMISSION_RETRIES = 5"
definition WINDOW_SIZE :: u32 where "WINDOW_SIZE = 1024 * 1024"
definition PRE_SEND_TIMEOUT :: u32 where "PRE_SEND_TIMEOUT = 500000"
definition MAX_BASE_DELAY_AGE :: Delay where "MAX_BASE_DELAY_AGE = Delay 60000000"

datatype SocketState = New | Connected | SynSent | FinSent | ResetReceived | Closed

record DelayDifferenceSample =
  received_at :: Timestamp
  difference :: Delay

text \<open>The kinds of \<open>io::Error\<close> the socket distinguishes; the number stands for any other error of the system.\<close>

datatype ErrorKind = NotConnected | ConnectionReset | TimedOut | WouldBlock | InvalidInput | ConnectionRefused | OtherKind | SystemError nat

datatype SocketError = SeConnectionClosed | SeConnectionReset | SeConnectionTimedOut | SeInvalidAddress | SeInvalidReply | SeNotConnected | SeOther

fun io_error_from :: "SocketError \<Rightarrow> ErrorKind" where
  "io_error_from SeConnectionClosed = NotConnected"
| "io_error_from SeNotConnected = NotConnected"
| "io_error_from SeConnectionReset = ConnectionReset"
| "io_error_from SeConnectionTimedOut = TimedOut"
| "io_error_from SeInvalidAddress = InvalidInput"
| "io_error_from SeInvalidReply = ConnectionRefused"
| "io_error_from SeOther = OtherKind"

definition io_error_from_parse :: "ParseError \<Rightarrow> ErrorKind" where
  "io_error_from_parse e = OtherKind"

record UtpSocket =
  connected_to :: SocketAddr
  sender_connection_id :: u16
  receiver_connection_id :: u16
  sock_seq_nr :: u16
  sock_ack_nr :: u16
  sock_state :: SocketState
  incoming_buffer :: "Packet list"
  send_window :: "Packet list"
  unsent_queue :: "Packet list"
  duplicate_ack_count :: u32
  last_acked :: u16
  last_acked_timestamp :: Timestamp
  last_dropped :: u16
  rtt :: u32
  rtt_variance :: u32
  pending_data :: bytes
  curr_window :: u32
  remote_wnd_size :: u32
  base_delays :: "Delay list"
  current_delays :: "DelayDifferenceSample list"
  their_delay :: Delay
  last_rollover :: Timestamp
  congestion_timeout :: u64
  cwnd :: u32
  max_retransmission_retries :: u32

section \<open>Helpers of the source\<close>

fun timestamp_greater :: "Timestamp \<Rightarrow> Timestamp \<Rightarrow> bool" where
  "timestamp_greater (Timestamp a) (Timestamp b) \<longleftrightarrow> b < a"

definition abs_diff :: "Timestamp \<Rightarrow> Timestamp \<Rightarrow> Delay" where
  "abs_diff a b = (if timestamp_greater a b then timestamp_sub a b else timestamp_sub b a)"

fun delay_less :: "Delay \<Rightarrow> Delay \<Rightarrow> bool" where
  "delay_less (Delay a) (Delay b) \<longleftrightarrow> sint a < sint b"

fun delay_sub :: "Delay \<Rightarrow> Delay \<Rightarrow> Delay" where
  "delay_sub (Delay a) (Delay b) = Delay (a - b)"

text \<open>The argument is the random number drawn.\<close>

definition generate_sequential_identifiers :: "u16 \<Rightarrow> u16 \<times> u16" where
  "generate_sequential_identifiers rid = (if rid \<noteq> -1 then (rid, rid + 1) else (rid - 1, rid))"

text \<open>The operations of \<open>f64\<close> that the source uses.\<close>

record 'f f64 =
  f_lit :: "nat \<Rightarrow> nat \<Rightarrow> 'f"
  f_add :: "'f \<Rightarrow> 'f \<Rightarrow> 'f"
  f_sub :: "'f \<Rightarrow> 'f \<Rightarrow> 'f"
  f_mul :: "'f \<Rightarrow> 'f \<Rightarrow> 'f"
  f_div :: "'f \<Rightarrow> 'f \<Rightarrow> 'f"
  f_of_u32 :: "u32 \<Rightarrow> 'f"
  f_of_i64 :: "i64 \<Rightarrow> 'f"
  f_to_u32 :: "'f \<Rightarrow> u32"
  f_to_i64 :: "'f \<Rightarrow> i64"

definition ewma :: "'f f64 \<Rightarrow> 'f list \<Rightarrow> 'f \<Rightarrow> 'f" where
  "ewma fl samples alpha =
     (let first = (case samples of [] \<Rightarrow> f_lit fl 0 1 | v # _ \<Rightarrow> v)
      in foldl (\<lambda>avg sample. f_add fl (f_mul fl alpha sample) (f_mul fl (f_sub fl (f_lit fl 1 1) alpha) avg))
           first (drop 1 samples))"

definition GAIN :: "'f f64 \<Rightarrow> 'f" where
  "GAIN fl = f_lit fl 1 1"

definition TARGET :: "'f f64 \<Rightarrow> 'f" where
  "TARGET fl = f_lit fl 100000 1"

section \<open>The world and the operations on it\<close>

datatype recv_event = Datagram bytes SocketAddr | RecvError ErrorKind

record 'f World =
  float_ops :: "'f f64"
  udp_in :: "recv_event list"
  udp_send_results :: "ErrorKind option list"
  udp_out :: "(bytes \<times> SocketAddr) list"
  clock :: "nat \<Rightarrow> Timestamp"
  ticks :: nat
  random_u16 :: "nat \<Rightarrow> u16"
  drawn :: nat

text \<open>Why an operation ends without a result, besides a panic.\<close>

datatype stop = Io ErrorKind | Blocked | OutOfFuel

type_synonym ('f, 'a) utp = "UtpSocket \<times> 'f World \<Rightarrow> (stop, 'a) outcome \<times> UtpSocket \<times> 'f World"

definition ret :: "'a \<Rightarrow> ('f, 'a) utp" where
  "ret a = (\<lambda>st. (Ok a, st))"

definition bindM :: "('f, 'a) utp \<Rightarrow> ('a \<Rightarrow> ('f, 'b) utp) \<Rightarrow> ('f, 'b) utp" where
  "bindM m f = (\<lambda>st. case m st of
       (Ok a, st') \<Rightarrow> f a st'
     | (Err e, st') \<Rightarrow> (Err e, st')
     | (Panic, st') \<Rightarrow> (Panic, st'))"

definition thenM :: "('f, unit) utp \<Rightarrow> ('f, 'b) utp \<Rightarrow> ('f, 'b) utp" where
  "thenM m k = bindM m (\<lambda>_. k)"

definition stopM :: "stop \<Rightarrow> ('f, 'a) utp" where
  "stopM e = (\<lambda>st. (Err e, st))"

definition failM :: "SocketError \<Rightarrow> ('f, 'a) utp" where
  "failM e = stopM (Io (io_error_from e))"

definition panicM :: "('f, 'a) utp" where
  "panicM = (\<lambda>st. (Panic, st))"

definition whenM :: "bool \<Rightarrow> ('f, unit) utp \<Rightarrow> ('f, unit) utp" where
  "whenM b m = (if b then m else ret ())"

definition getsM :: "(UtpSocket \<Rightarrow> 'a) \<Rightarrow> ('f, 'a) utp" where
  "getsM g = (\<lambda>(s, w). (Ok (g s), s, w))"

definition modifyM :: "(UtpSocket \<Rightarrow> UtpSocket) \<Rightarrow> ('f, unit) utp" where
  "modifyM g = (\<lambda>(s, w). (Ok (), g s, w))"

text \<open>A computation that can only panic.\<close>

definition liftM :: "(unit, 'a) outcome \<Rightarrow> ('f, 'a) utp" where
  "liftM r = (case r of Ok a \<Rightarrow> ret a | Err e \<Rightarrow> panicM | Panic \<Rightarrow> panicM)"

text \<open>\<open>let _ = m;\<close> drops an error of the operating system.\<close>

definition ignoreM :: "('f, 'a) utp \<Rightarrow> ('f, unit) utp" where
  "ignoreM m = (\<lambda>st. case m st of
       (Ok a, st') \<Rightarrow> (Ok (), st')
     | (Err (Io e), st') \<Rightarrow> (Ok (), st')
     | (Err e, st') \<Rightarrow> (Err e, st')
     | (Panic, st') \<Rightarrow> (Panic, st'))"

definition nowM :: "('f, Timestamp) utp" where
  "nowM = (\<lambda>(s, w). (Ok (clock w (ticks w)), s, w\<lparr>ticks := ticks w + 1\<rparr>))"

definition randomM :: "('f, u16) utp" where
  "randomM = (\<lambda>(s, w). (Ok (random_u16 w (drawn w)), s, w\<lparr>drawn := drawn w + 1\<rparr>))"

definition floatM :: "('f, 'f f64) utp" where
  "floatM = (\<lambda>(s, w). (Ok (float_ops w), s, w))"

text \<open>\<open>UdpSocket::send_to\<close>; once the listed results are used up it succeeds.\<close>

definition udp_send_to :: "bytes \<Rightarrow> SocketAddr \<Rightarrow> ('f, unit) utp" where
  "udp_send_to bs addr = (\<lambda>(s, w).
     case udp_send_results w of
       Some e # rs \<Rightarrow> (Err (Io e), s, w\<lparr>udp_send_results := rs\<rparr>)
     | rs \<Rightarrow> (Ok (), s, w\<lparr>udp_send_results := drop 1 rs, udp_out := udp_out w @ [(bs, addr)]\<rparr>))"

text \<open>\<open>UdpSocket::recv_from\<close> into a buffer of \<open>n\<close> bytes; the rest of a longer datagram is lost.\<close>

definition udp_recv_from :: "nat \<Rightarrow> ('f, (ErrorKind, bytes \<times> SocketAddr) outcome) utp" where
  "udp_recv_from n = (\<lambda>(s, w).
     case udp_in w of
       [] \<Rightarrow> (Err Blocked, s, w)
     | Datagram bs src # es \<Rightarrow> (Ok (Ok (take n bs, src)), s, w\<lparr>udp_in := es\<rparr>)
     | RecvError e # es \<Rightarrow> (Ok (Err e), s, w\<lparr>udp_in := es\<rparr>))"

text \<open>\<open>set_read_timeout(..).expect(..)\<close>; a zero duration is refused.\<close>

definition set_read_timeout :: "u64 option \<Rightarrow> ('f, unit) utp" where
  "set_read_timeout timeout = (if timeout = Some 0 then panicM else ret ())"

definition is_timeout :: "ErrorKind \<Rightarrow> bool" where
  "is_timeout e \<longleftrightarrow> e = WouldBlock \<or> e = TimedOut"

section \<open>Buffers and windows\<close>

definition advance_incoming_buffer :: "UtpSocket \<Rightarrow> Packet option \<times> UtpSocket" where
  "advance_incoming_buffer s =
     (case incoming_buffer s of
        packet # rest \<Rightarrow>
          (Some packet, s\<lparr>incoming_buffer := rest, sock_ack_nr := packet_seq_nr packet, last_dropped := packet_seq_nr packet\<rparr>)
      | [] \<Rightarrow> (None, s))"

text \<open>The argument \<open>n\<close> is the length of the caller's buffer, the result what is copied into it.\<close>

definition flush_incoming_buffer :: "nat \<Rightarrow> UtpSocket \<Rightarrow> (unit, bytes \<times> UtpSocket) outcome" where
  "flush_incoming_buffer n s =
     (if pending_data s \<noteq> [] then
        let flushed = take n (pending_data s)
        in if length flushed = length (pending_data s) then
             (case advance_incoming_buffer (s\<lparr>pending_data := []\<rparr>) of
                (Some package, s') \<Rightarrow> try_bind (payload package) (\<lambda>pl. Ok (flushed, s'\<lparr>pending_data := pl\<rparr>))
              | (None, s') \<Rightarrow> Ok (flushed, s'))
           else Ok (flushed, s\<lparr>pending_data := drop (length flushed) (pending_data s)\<rparr>)
      else
        case incoming_buffer s of
          p # _ \<Rightarrow>
            if sock_ack_nr s = packet_seq_nr p \<or> sock_ack_nr s + 1 = packet_seq_nr p then
              try_bind (payload p) (\<lambda>pl.
                let flushed = take n pl
                in if length flushed = length pl then Ok (flushed, snd (advance_incoming_buffer s))
                   else Ok (flushed, snd (advance_incoming_buffer (s\<lparr>pending_data := drop (length flushed) pl\<rparr>))))
            else Ok ([], s)
        | [] \<Rightarrow> Ok ([], s))"

definition insert_into_buffer :: "Packet \<Rightarrow> UtpSocket \<Rightarrow> UtpSocket" where
  "insert_into_buffer packet s =
     (let buf = incoming_buffer s
      in if buf \<noteq> [] \<and> packet_seq_nr packet > packet_seq_nr (last buf) then s\<lparr>incoming_buffer := buf @ [packet]\<rparr>
         else
           let i = length (filter (\<lambda>p. packet_seq_nr p < packet_seq_nr packet) buf)
           in if i < length buf \<and> packet_seq_nr (buf ! i) = packet_seq_nr packet then s
              else s\<lparr>incoming_buffer := take i buf @ packet # drop i buf\<rparr>)"

definition advance_send_window :: "UtpSocket \<Rightarrow> UtpSocket" where
  "advance_send_window s =
     (case position (\<lambda>packet. packet_seq_nr packet = last_acked s) (send_window s) of
        Some i \<Rightarrow> s\<lparr>send_window := drop (i + 1) (send_window s),
                    curr_window := foldl (\<lambda>c packet. c - of_nat (length packet)) (curr_window s) (take (i + 1) (send_window s))\<rparr>
      | None \<Rightarrow> s)"

definition sack_measure :: "nat \<Rightarrow> nat \<Rightarrow> nat" where
  "sack_measure b l = (if b \<ge> l then 8 + (b - l) else 3 - (l + 3) mod 4)"

lemma sack_measure_less:
  assumes "b \<ge> l \<or> l mod 4 \<noteq> 0"
  shows "sack_measure b (Suc l) < sack_measure b l"
proof (cases "b \<ge> l")
  case True
  then show ?thesis by (auto simp: sack_measure_def)
next
  case False
  then have "l mod 4 = Suc ((l + 3) mod 4)"
    using assms mod_Suc [of "l + 3" 4] by (auto split: if_splits)
  moreover have "l mod 4 < 4" and "(Suc l + 3) mod 4 = l mod 4" by simp_all
  ultimately show ?thesis using False by (simp add: sack_measure_def)
qed

function sack_pad :: "nat \<Rightarrow> bytes \<Rightarrow> bytes" where
  "sack_pad b sack = (if b \<ge> length sack \<or> length sack mod 4 \<noteq> 0 then sack_pad b (sack @ [0]) else sack)"
  by pat_completeness auto
termination
  by (relation "measure (\<lambda>(b, sack). sack_measure b (length sack))") (simp_all only: wf_measure in_measure split_conv length_append list.size add_Suc_right add_0_right One_nat_def sack_measure_less)

declare sack_pad.simps [simp del]

definition build_selective_ack :: "UtpSocket \<Rightarrow> bytes" where
  "build_selective_ack s =
     (let stashed = map (\<lambda>diff. (diff div 8, diff mod 8))
            (map (\<lambda>pkt. unat (packet_seq_nr pkt - sock_ack_nr s - 2))
              (filter (\<lambda>pkt. packet_seq_nr pkt > sock_ack_nr s + 1) (incoming_buffer s)))
      in foldl (\<lambda>sack (b, k). let sack = sack_pad b sack in sack[b := sack ! b OR push_bit k 1]) [] stashed)"

section \<open>Delays and congestion\<close>

definition i32_div :: "u32 \<Rightarrow> int \<Rightarrow> u32" where
  "i32_div a n = word_of_int (sint a sdiv n)"

definition i32_abs :: "u32 \<Rightarrow> u32" where
  "i32_abs a = (if sint a < 0 then - a else a)"

definition update_base_delay :: "Delay \<Rightarrow> Timestamp \<Rightarrow> UtpSocket \<Rightarrow> UtpSocket" where
  "update_base_delay base_delay now s =
     (if base_delays s = [] \<or> delay_less MAX_BASE_DELAY_AGE (timestamp_sub now (last_rollover s)) then
        let ds = (if length (base_delays s) = BASE_HISTORY then tl (base_delays s) else base_delays s)
        in s\<lparr>last_rollover := now, base_delays := ds @ [base_delay]\<rparr>
      else
        let last_idx = length (base_delays s) - 1
        in if delay_less base_delay (base_delays s ! last_idx)
           then s\<lparr>base_delays := (base_delays s)[last_idx := base_delay]\<rparr> else s)"

definition update_current_delay :: "Delay \<Rightarrow> Timestamp \<Rightarrow> UtpSocket \<Rightarrow> UtpSocket" where
  "update_current_delay v now s =
     (let rtt_delay = Delay (scast (rtt s) * 100);
          kept = dropWhile (\<lambda>d. delay_less rtt_delay (timestamp_sub now (received_at d))) (current_delays s)
      in s\<lparr>current_delays := kept @ [\<lparr>received_at = now, difference = v\<rparr>]\<rparr>)"

definition update_congestion_timeout :: "u32 \<Rightarrow> UtpSocket \<Rightarrow> UtpSocket" where
  "update_congestion_timeout current_delay s =
     (let delta = rtt s - current_delay;
          variance = rtt_variance s + i32_div (i32_abs delta - rtt_variance s) 4;
          rtt' = rtt s + i32_div (current_delay - rtt s) 8;
          timeout = max (scast (rtt' + variance * 4)) MIN_CONGESTION_TIMEOUT
      in s\<lparr>rtt_variance := variance, rtt := rtt', congestion_timeout := min timeout MAX_CONGESTION_TIMEOUT\<rparr>)"

fun delay_value :: "Delay \<Rightarrow> i64" where
  "delay_value (Delay v) = v"

definition filtered_current_delay :: "'f f64 \<Rightarrow> UtpSocket \<Rightarrow> Delay" where
  "filtered_current_delay fl s =
     Delay (f_to_i64 fl (ewma fl (map (\<lambda>d. f_of_i64 fl (delay_value (difference d))) (current_delays s)) (f_lit fl 333 1000)))"

definition min_base_delay :: "UtpSocket \<Rightarrow> Delay" where
  "min_base_delay s =
     (case base_delays s of
        [] \<Rightarrow> Delay 0
      | d # ds \<Rightarrow> foldl (\<lambda>m x. if delay_less x m then x else m) d ds)"

definition queuing_delay :: "'f f64 \<Rightarrow> UtpSocket \<Rightarrow> Delay" where
  "queuing_delay fl s = delay_sub (filtered_current_delay fl s) (min_base_delay s)"

definition update_congestion_window :: "'f f64 \<Rightarrow> 'f \<Rightarrow> u32 \<Rightarrow> UtpSocket \<Rightarrow> UtpSocket" where
  "update_congestion_window fl off_target bytes_newly_acked s =
     (let flightsize = curr_window s;
          cwnd_increase = f_mul fl (f_mul fl (f_mul fl (GAIN fl) off_target) (f_of_u32 fl bytes_newly_acked)) (f_of_u32 fl MSS);
          cwnd_increase = f_div fl cwnd_increase (f_of_u32 fl (cwnd s));
          grown = f_to_u32 fl (f_add fl (f_of_u32 fl (cwnd s)) cwnd_increase);
          max_allowed_cwnd = flightsize + ALLOWED_INCREASE * MSS
      in s\<lparr>cwnd := max (min grown max_allowed_cwnd) (MIN_CWND * MSS)\<rparr>)"

section \<open>Handling packets\<close>

definition prepare_reply :: "Packet \<Rightarrow> PacketType \<Rightarrow> ('f, Packet) utp" where
  "prepare_reply original t =
     bindM nowM (\<lambda>self_t_micro.
     getsM (\<lambda>s.
       set_ack_nr (sock_ack_nr s) (set_seq_nr (sock_seq_nr s) (set_connection_id (sender_connection_id s)
         (set_timestamp_difference (abs_diff self_t_micro (packet_timestamp original))
           (set_timestamp self_t_micro (set_type t packet_new)))))))"

definition fin_packet :: "('f, Packet) utp" where
  "fin_packet =
     bindM nowM (\<lambda>now.
     getsM (\<lambda>s.
       set_type Fin (set_timestamp now (set_ack_nr (sock_ack_nr s) (set_seq_nr (sock_seq_nr s)
         (set_connection_id (sender_connection_id s) packet_new))))))"

primrec forM :: "'x list \<Rightarrow> ('x \<Rightarrow> ('f, unit) utp) \<Rightarrow> ('f, unit) utp" where
  "forM [] f = ret ()"
| "forM (x # xs) f = thenM (f x) (forM xs f)"

definition send_fast_resend_request :: "('f, unit) utp" where
  "send_fast_resend_request =
     forM [0..<3] (\<lambda>_.
       bindM nowM (\<lambda>self_t_micro.
       bindM (getsM id) (\<lambda>s.
         ignoreM (udp_send_to
           (set_ack_nr (sock_ack_nr s) (set_seq_nr (sock_seq_nr s) (set_connection_id (sender_connection_id s)
             (set_timestamp_difference (their_delay s) (set_timestamp self_t_micro (set_type State packet_new))))))
           (connected_to s)))))"

definition handle_receive_timeout :: "('f, unit) utp" where
  "handle_receive_timeout =
     thenM (modifyM (\<lambda>s. s\<lparr>congestion_timeout := congestion_timeout s * 2, cwnd := MSS\<rparr>))
     (bindM (getsM id) (\<lambda>s.
       case send_window s of
         [] \<Rightarrow>
           if sock_state s = FinSent then bindM fin_packet (\<lambda>packet. udp_send_to packet (connected_to s))
           else whenM (sock_state s \<noteq> New) send_fast_resend_request
       | p # ps \<Rightarrow>
           bindM nowM (\<lambda>now.
           thenM (modifyM (\<lambda>s. s\<lparr>send_window := set_timestamp now p # ps\<rparr>))
           (udp_send_to (set_timestamp now p) (connected_to s)))))"

type_synonym 'f receiver = "nat \<Rightarrow> ('f, bytes \<times> SocketAddr) utp"

text \<open>The waiting loop of \<open>send_packet\<close>, for at most \<open>k\<close> rounds. The data it receives is dropped.\<close>

primrec wait_window :: "nat \<Rightarrow> 'f receiver \<Rightarrow> u32 \<Rightarrow> Timestamp \<Rightarrow> ('f, unit) utp" where
  "wait_window 0 rcv max_inflight now = stopM OutOfFuel"
| "wait_window (Suc k) rcv max_inflight now =
     bindM (getsM curr_window) (\<lambda>in_flight.
       if in_flight \<ge> max_inflight then
         bindM nowM (\<lambda>t.
           if delay_less (timestamp_sub t now) (delay_from_u32 PRE_SEND_TIMEOUT) then
             bindM (rcv BUF_SIZE) (\<lambda>_. wait_window k rcv max_inflight now)
           else ret ())
       else ret ())"

definition send_packet :: "nat \<Rightarrow> 'f receiver \<Rightarrow> Packet \<Rightarrow> ('f, Packet) utp" where
  "send_packet k rcv packet =
     bindM (getsM (\<lambda>s. max (MIN_CWND * MSS) (min (cwnd s) (remote_wnd_size s)))) (\<lambda>max_inflight.
     bindM nowM (\<lambda>now.
     thenM (wait_window k rcv max_inflight now)
     (bindM nowM (\<lambda>now.
      bindM (getsM id) (\<lambda>s.
        let packet = set_timestamp_difference (their_delay s) (set_timestamp now packet)
        in thenM (udp_send_to packet (connected_to s)) (ret packet))))))"

definition resend_lost_packet :: "nat \<Rightarrow> 'f receiver \<Rightarrow> u16 \<Rightarrow> ('f, unit) utp" where
  "resend_lost_packet k rcv lost_packet_nr =
     bindM (getsM send_window) (\<lambda>sw.
       case position (\<lambda>pkt. packet_seq_nr pkt = lost_packet_nr) sw of
         None \<Rightarrow> ret ()
       | Some i \<Rightarrow> ignoreM (send_packet k rcv (sw ! i)))"

text \<open>The bits an iterator yields.\<close>

primrec take_bits :: "nat \<Rightarrow> BitIterator \<Rightarrow> bool list" where
  "take_bits 0 it = []"
| "take_bits (Suc n) it =
     (case bit_iterator_next it of (Some b, it') \<Rightarrow> b # take_bits n it' | (None, it') \<Rightarrow> [])"

definition iter_bits :: "BitIterator \<Rightarrow> bool list" where
  "iter_bits it = take_bits (end_index it - next_index it) it"

definition lost_packets :: "Packet \<Rightarrow> Extension \<Rightarrow> u16 \<Rightarrow> u16 list" where
  "lost_packets packet ext last_seq_nr =
     takeWhile (\<lambda>nr. nr < last_seq_nr)
       (map (\<lambda>(idx, _). packet_ack_nr packet + 2 + of_nat idx)
         (filter (\<lambda>(_, received). \<not> received) (enumerate 0 (iter_bits (extension_iter ext)))))"

definition process_extension :: "nat \<Rightarrow> 'f receiver \<Rightarrow> Packet \<Rightarrow> Extension \<Rightarrow> bool \<Rightarrow> ('f, bool) utp" where
  "process_extension k rcv packet ext packet_loss_detected =
     (if ty ext = SelectiveAck then
        bindM (if 3 \<le> count_ones (extension_iter ext)
               then thenM (resend_lost_packet k rcv (packet_ack_nr packet + 1)) (ret True)
               else ret packet_loss_detected) (\<lambda>packet_loss_detected.
        bindM (getsM send_window) (\<lambda>sw.
          if sw = [] then ret packet_loss_detected
          else
            let lost = lost_packets packet ext (packet_seq_nr (last sw))
            in thenM (forM lost (resend_lost_packet k rcv)) (ret (packet_loss_detected \<or> lost \<noteq> []))))
      else ret packet_loss_detected)"

primrec process_extensions :: "nat \<Rightarrow> 'f receiver \<Rightarrow> Packet \<Rightarrow> Extension list \<Rightarrow> bool \<Rightarrow> ('f, bool) utp" where
  "process_extensions k rcv packet [] detected = ret detected"
| "process_extensions k rcv packet (e # es) detected =
     bindM (process_extension k rcv packet e detected) (process_extensions k rcv packet es)"

definition count_ack :: "Packet \<Rightarrow> ('f, unit) utp" where
  "count_ack packet =
     bindM (getsM last_acked) (\<lambda>acked.
       if packet_ack_nr packet = acked then modifyM (\<lambda>s. s\<lparr>duplicate_ack_count := duplicate_ack_count s + 1\<rparr>)
       else
         thenM (modifyM (\<lambda>s. s\<lparr>last_acked := packet_ack_nr packet\<rparr>))
         (bindM nowM (\<lambda>now.
          modifyM (\<lambda>s. s\<lparr>last_acked_timestamp := now, duplicate_ack_count := 1\<rparr>))))"

definition update_congestion :: "Packet \<Rightarrow> ('f, unit) utp" where
  "update_congestion packet =
     bindM (getsM send_window) (\<lambda>sw.
       case position (\<lambda>p. packet_ack_nr packet = packet_seq_nr p) sw of
         None \<Rightarrow> ret ()
       | Some index \<Rightarrow>
           let bytes_newly_acked = foldl (\<lambda>acc p. acc + length p) 0 (take (index + 1) sw)
           in bindM nowM (\<lambda>now.
              let our_delay = timestamp_sub now (packet_timestamp (sw ! index))
              in thenM (modifyM (\<lambda>s. update_current_delay our_delay now (update_base_delay our_delay now s)))
                 (bindM floatM (\<lambda>fl.
                  bindM (getsM (\<lambda>s. f_div fl (f_sub fl (TARGET fl) (f_of_u32 fl (u32_from_delay (queuing_delay fl s)))) (TARGET fl)))
                    (\<lambda>off_target.
                  thenM (modifyM (update_congestion_window fl off_target (of_nat bytes_newly_acked)))
                  (bindM (getsM (queuing_delay fl)) (\<lambda>queuing.
                   modifyM (update_congestion_timeout (u32_from_delay (delay_sub our_delay queuing) div 1000)))))))))"

definition handle_state_packet :: "nat \<Rightarrow> 'f receiver \<Rightarrow> Packet \<Rightarrow> ('f, unit) utp" where
  "handle_state_packet k rcv packet =
     thenM (count_ack packet)
     (thenM (update_congestion packet)
     (bindM (getsM (\<lambda>s. send_window s \<noteq> [] \<and> duplicate_ack_count s = 3)) (\<lambda>packet_loss_detected.
      bindM (liftM (extensions packet)) (\<lambda>exts.
      bindM (process_extensions k rcv packet exts packet_loss_detected) (\<lambda>packet_loss_detected.
      bindM (getsM (\<lambda>s. send_window s \<noteq> [] \<and> duplicate_ack_count s = 3)) (\<lambda>again.
      thenM (whenM (again \<and> \<not> (\<exists>e\<in>set exts. ty e = SelectiveAck)) (resend_lost_packet k rcv (packet_ack_nr packet + 1)))
      (thenM (whenM packet_loss_detected (modifyM (\<lambda>s. s\<lparr>cwnd := max (cwnd s div 2) (MIN_CWND * MSS)\<rparr>)))
      (modifyM advance_send_window))))))))"

definition with_sack :: "Packet \<Rightarrow> Packet \<Rightarrow> ('f, Packet) utp" where
  "with_sack packet reply =
     bindM (getsM id) (\<lambda>s.
       if packet_seq_nr packet - sock_ack_nr s > 1 \<and> build_selective_ack s \<noteq> []
       then liftM (set_sack (build_selective_ack s) reply) else ret reply)"

definition handle_data_packet :: "Packet \<Rightarrow> ('f, Packet option) utp" where
  "handle_data_packet packet =
     bindM (getsM (\<lambda>s. if sock_state s = FinSent then Fin else State)) (\<lambda>packet_type.
     bindM (prepare_reply packet packet_type) (\<lambda>reply.
     bindM (with_sack packet reply) (\<lambda>reply. ret (Some reply))))"

definition reply_some :: "Packet \<Rightarrow> PacketType \<Rightarrow> ('f, Packet option) utp" where
  "reply_some packet t = bindM (prepare_reply packet t) (\<lambda>reply. ret (Some reply))"

definition accept_syn :: "Packet \<Rightarrow> SocketAddr \<Rightarrow> ('f, Packet option) utp" where
  "accept_syn packet src =
     bindM randomM (\<lambda>r.
     thenM (modifyM (\<lambda>s. s\<lparr>connected_to := src, sock_ack_nr := packet_seq_nr packet, sock_seq_nr := r,
         receiver_connection_id := packet_connection_id packet + 1,
         sender_connection_id := packet_connection_id packet,
         sock_state := Connected, last_dropped := packet_seq_nr packet\<rparr>))
     (reply_some packet State))"

definition complete_syn :: "Packet \<Rightarrow> SocketAddr \<Rightarrow> ('f, Packet option) utp" where
  "complete_syn packet src =
     thenM (modifyM (\<lambda>s. s\<lparr>connected_to := src, sock_ack_nr := packet_seq_nr packet - 1, sock_seq_nr := sock_seq_nr s + 1,
         sock_state := Connected, last_acked := packet_ack_nr packet\<rparr>))
     (bindM nowM (\<lambda>now.
      thenM (modifyM (\<lambda>s. s\<lparr>last_acked_timestamp := now\<rparr>)) (ret None)))"

definition handle_fin :: "Packet \<Rightarrow> ('f, Packet option) utp" where
  "handle_fin packet =
     bindM (prepare_reply packet State) (\<lambda>reply.
     bindM (with_sack packet reply) (\<lambda>reply.
     thenM (modifyM (\<lambda>s. s\<lparr>sock_state := Closed\<rparr>)) (ret (Some reply))))"

definition dispatch :: "nat \<Rightarrow> 'f receiver \<Rightarrow> Packet \<Rightarrow> SocketAddr \<Rightarrow> PacketType \<Rightarrow> ('f, Packet option) utp" where
  "dispatch k rcv packet src t =
     bindM (getsM sock_state) (\<lambda>state.
       case (state, t) of
         (New, Syn) \<Rightarrow> accept_syn packet src
       | (_, Syn) \<Rightarrow> reply_some packet Reset
       | (SynSent, State) \<Rightarrow> complete_syn packet src
       | (SynSent, _) \<Rightarrow> failM SeInvalidReply
       | (Connected, Data) \<Rightarrow> handle_data_packet packet
       | (FinSent, Data) \<Rightarrow> handle_data_packet packet
       | (Connected, State) \<Rightarrow> thenM (handle_state_packet k rcv packet) (ret None)
       | (Connected, Fin) \<Rightarrow> handle_fin packet
       | (FinSent, Fin) \<Rightarrow> handle_fin packet
       | (Closed, Fin) \<Rightarrow> reply_some packet State
       | (FinSent, State) \<Rightarrow>
           bindM (getsM sock_seq_nr) (\<lambda>seq.
             thenM (if packet_ack_nr packet = seq then modifyM (\<lambda>s. s\<lparr>sock_state := Closed\<rparr>)
                    else handle_state_packet k rcv packet) (ret None))
       | (_, Reset) \<Rightarrow> thenM (modifyM (\<lambda>s. s\<lparr>sock_state := ResetReceived\<rparr>)) (failM SeConnectionReset)
       | (_, _) \<Rightarrow> failM SeOther)"

definition handle_packet :: "nat \<Rightarrow> 'f receiver \<Rightarrow> Packet \<Rightarrow> SocketAddr \<Rightarrow> ('f, Packet option) utp" where
  "handle_packet k rcv packet src =
     thenM (modifyM (\<lambda>s. if packet_seq_nr packet - sock_ack_nr s = 1 then s\<lparr>sock_ack_nr := packet_seq_nr packet\<rparr> else s))
     (bindM (liftM (get_type packet)) (\<lambda>t.
      bindM (getsM id) (\<lambda>s.
        if t \<noteq> Syn \<and> sock_state s \<noteq> SynSent \<and>
           \<not> (packet_connection_id packet = sender_connection_id s \<or> packet_connection_id packet = receiver_connection_id s)
        then reply_some packet Reset
        else
          thenM (modifyM (\<lambda>s. s\<lparr>remote_wnd_size := packet_wnd_size packet\<rparr>))
          (bindM nowM (\<lambda>now.
           thenM (modifyM (\<lambda>s. s\<lparr>their_delay := abs_diff now (packet_timestamp packet)\<rparr>))
           (dispatch k rcv packet src t))))))"

section \<open>Receiving\<close>

definition stepM :: "(UtpSocket \<Rightarrow> (unit, 'a \<times> UtpSocket) outcome) \<Rightarrow> ('f, 'a) utp" where
  "stepM g = (\<lambda>(s, w). case g s of Ok (a, s') \<Rightarrow> (Ok a, s', w) | Err e \<Rightarrow> (Panic, s, w) | Panic \<Rightarrow> (Panic, s, w))"

text \<open>The receive loop; \<open>n\<close> is what is left of the allowed number of retries.\<close>

primrec recv_loop :: "nat \<Rightarrow> ('f, bytes \<times> SocketAddr) utp" where
  "recv_loop 0 = thenM (modifyM (\<lambda>s. s\<lparr>sock_state := Closed\<rparr>)) (failM SeConnectionTimedOut)"
| "recv_loop (Suc n) =
     bindM (getsM (\<lambda>s. if sock_state s \<noteq> New then Some (congestion_timeout s) else None)) (\<lambda>timeout.
     thenM (set_read_timeout timeout)
     (bindM (udp_recv_from (BUF_SIZE + HEADER_SIZE)) (\<lambda>r.
        case r of
          Ok (b, src) \<Rightarrow> ret (b, src)
        | Err e \<Rightarrow> if is_timeout e then thenM handle_receive_timeout (recv_loop n) else stopM (Io e)
        | Panic \<Rightarrow> panicM)))"

definition recv_body :: "nat \<Rightarrow> 'f receiver \<Rightarrow> nat \<Rightarrow> ('f, bytes \<times> SocketAddr) utp" where
  "recv_body k rcv n =
     bindM (getsM (\<lambda>s. unat (max_retransmission_retries s))) (\<lambda>retries.
     bindM (recv_loop retries) (\<lambda>(b, src).
       case packet_try_from b of
         Ok packet \<Rightarrow>
           bindM (handle_packet k rcv packet src) (\<lambda>reply.
           thenM (case reply of
                    Some pkt \<Rightarrow> udp_send_to (set_wnd_size WINDOW_SIZE pkt) src
                  | None \<Rightarrow> ret ())
           (bindM (liftM (get_type packet)) (\<lambda>t.
            thenM (modifyM (\<lambda>s. if t = Data \<and> packet_seq_nr packet - last_dropped s > 0
                                then insert_into_buffer packet s else s))
            (bindM (stepM (flush_incoming_buffer n)) (\<lambda>read. ret (read, src))))))
       | Err e \<Rightarrow> getsM (\<lambda>s. ([], connected_to s))
       | Panic \<Rightarrow> panicM))"

primrec recv :: "nat \<Rightarrow> 'f receiver" where
  "recv 0 = (\<lambda>n. stopM OutOfFuel)"
| "recv (Suc k) = recv_body k (recv k)"

primrec recv_from_loop :: "nat \<Rightarrow> nat \<Rightarrow> nat \<Rightarrow> ('f, bytes \<times> SocketAddr) utp" where
  "recv_from_loop 0 k n = stopM OutOfFuel"
| "recv_from_loop (Suc j) k n =
     bindM (getsM id) (\<lambda>s.
       if sock_state s = Closed then ret ([], connected_to s)
       else bindM (recv k n) (\<lambda>(read, src). if read = [] then recv_from_loop j k n else ret (read, src)))"

definition recv_from :: "nat \<Rightarrow> nat \<Rightarrow> ('f, bytes \<times> SocketAddr) utp" where
  "recv_from k n =
     bindM (stepM (flush_incoming_buffer n)) (\<lambda>read.
     bindM (getsM id) (\<lambda>s.
       if read \<noteq> [] then ret (read, connected_to s)
       else if sock_state s = ResetReceived then failM SeConnectionReset
       else recv_from_loop k k n))"

section \<open>Sending\<close>

primrec send_loop :: "nat \<Rightarrow> nat \<Rightarrow> ('f, unit) utp" where
  "send_loop 0 k = stopM OutOfFuel"
| "send_loop (Suc j) k =
     bindM (getsM unsent_queue) (\<lambda>q.
       case q of
         [] \<Rightarrow> ret ()
       | packet # rest \<Rightarrow>
           thenM (modifyM (\<lambda>s. s\<lparr>unsent_queue := rest\<rparr>))
           (bindM (send_packet k (recv k) packet) (\<lambda>packet.
            thenM (modifyM (\<lambda>s. s\<lparr>curr_window := curr_window s + of_nat (length packet), send_window := send_window s @ [packet]\<rparr>))
            (send_loop j k))))"

definition send :: "nat \<Rightarrow> ('f, unit) utp" where
  "send k = bindM (getsM (\<lambda>s. length (unsent_queue s))) (\<lambda>len. send_loop (len + 1) k)"

text \<open>\<open>buf.chunks(n)\<close>\<close>

function chunks :: "nat \<Rightarrow> 'a list \<Rightarrow> 'a list list" where
  "chunks n xs = (if xs = [] \<or> n = 0 then [] else take n xs # chunks n (drop n xs))"
  by pat_completeness auto
termination by (relation "measure (\<lambda>(n, xs). length xs)") auto

declare chunks.simps [simp del]

definition queue_chunk :: "bytes \<Rightarrow> UtpSocket \<Rightarrow> UtpSocket" where
  "queue_chunk chunk s =
     (let packet = set_connection_id (sender_connection_id s) (set_ack_nr (sock_ack_nr s) (set_seq_nr (sock_seq_nr s)
        (set_wnd_size (WINDOW_SIZE - of_nat (length (send_window s))) (with_payload chunk))))
      in s\<lparr>unsent_queue := unsent_queue s @ [packet], sock_seq_nr := sock_seq_nr s + 1\<rparr>)"

definition queue_data :: "bytes \<Rightarrow> UtpSocket \<Rightarrow> UtpSocket" where
  "queue_data buf s = fold queue_chunk (chunks (unat MSS - HEADER_SIZE) buf) s"

definition send_to :: "nat \<Rightarrow> bytes \<Rightarrow> ('f, nat) utp" where
  "send_to k buf =
     bindM (getsM sock_state) (\<lambda>state.
       if state = Closed then failM SeConnectionClosed
       else thenM (modifyM (queue_data buf)) (thenM (send k) (ret (length buf))))"

primrec flush_loop :: "nat \<Rightarrow> nat \<Rightarrow> ('f, unit) utp" where
  "flush_loop 0 k = stopM OutOfFuel"
| "flush_loop (Suc j) k =
     bindM (getsM send_window) (\<lambda>sw. if sw = [] then ret () else bindM (recv k 0) (\<lambda>_. flush_loop j k))"

definition flush :: "nat \<Rightarrow> ('f, unit) utp" where
  "flush k = flush_loop k k"

primrec close_loop :: "nat \<Rightarrow> nat \<Rightarrow> ('f, unit) utp" where
  "close_loop 0 k = stopM OutOfFuel"
| "close_loop (Suc j) k =
     bindM (getsM sock_state) (\<lambda>state. if state = Closed then ret () else bindM (recv k BUF_SIZE) (\<lambda>_. close_loop j k))"

definition close :: "nat \<Rightarrow> ('f, unit) utp" where
  "close k =
     bindM (getsM sock_state) (\<lambda>state.
       if state = Closed \<or> state = New \<or> state = SynSent then ret ()
       else
         thenM (flush k)
         (bindM fin_packet (\<lambda>packet.
          bindM (getsM connected_to) (\<lambda>addr.
          thenM (udp_send_to packet addr)
          (thenM (modifyM (\<lambda>s. s\<lparr>sock_state := FinSent\<rparr>)) (close_loop k k))))))"

section \<open>Opening connections\<close>

definition from_raw_parts :: "SocketAddr \<Rightarrow> u16 \<Rightarrow> UtpSocket" where
  "from_raw_parts src rid =
     (let (receiver_id, sender_id) = generate_sequential_identifiers rid
      in \<lparr>connected_to = src, sender_connection_id = sender_id, receiver_connection_id = receiver_id,
          sock_seq_nr = 1, sock_ack_nr = 0, sock_state = New, incoming_buffer = [], send_window = [], unsent_queue = [],
          duplicate_ack_count = 0, last_acked = 0, last_acked_timestamp = Timestamp 0, last_dropped = 0, rtt = 0,
          rtt_variance = 0, pending_data = [], curr_window = 0, remote_wnd_size = 0, base_delays = [],
          current_delays = [], their_delay = Delay 0, last_rollover = Timestamp 0,
          congestion_timeout = INITIAL_CONGESTION_TIMEOUT, cwnd = INIT_CWND * MSS,
          max_retransmission_retries = MAX_RETRANSMISSION_RETRIES\<rparr>)"

definition peer_addr :: "UtpSocket \<Rightarrow> (ErrorKind, SocketAddr) outcome" where
  "peer_addr s = (if sock_state s = Connected \<or> sock_state s = FinSent then Ok (connected_to s)
     else Err (io_error_from SeNotConnected))"

text \<open>The attempts of \<open>connect\<close>; without an answer nothing has been read.\<close>

primrec connect_loop :: "nat \<Rightarrow> Packet \<Rightarrow> u64 \<Rightarrow> ('f, bytes) utp" where
  "connect_loop 0 packet syn_timeout = ret []"
| "connect_loop (Suc n) packet syn_timeout =
     bindM nowM (\<lambda>now.
       let packet = set_timestamp now packet
       in bindM (getsM connected_to) (\<lambda>addr.
          thenM (udp_send_to packet addr)
          (thenM (modifyM (\<lambda>s. s\<lparr>sock_state := SynSent\<rparr>))
          (thenM (set_read_timeout (Some syn_timeout))
          (bindM (udp_recv_from BUF_SIZE) (\<lambda>r.
             case r of
               Ok (b, src) \<Rightarrow> thenM (modifyM (\<lambda>s. s\<lparr>connected_to := src\<rparr>)) (ret b)
             | Err e \<Rightarrow> if is_timeout e then connect_loop n packet (syn_timeout * 2) else stopM (Io e)
             | Panic \<Rightarrow> panicM))))))"

text \<open>\<open>connect\<close> from the point where the local socket is bound; it starts from \<open>from_raw_parts\<close>.\<close>

definition connect_bound :: "nat \<Rightarrow> SocketAddr \<Rightarrow> ('f, unit) utp" where
  "connect_bound k addr =
     thenM (modifyM (\<lambda>s. s\<lparr>connected_to := addr\<rparr>))
     (bindM (getsM id) (\<lambda>s.
      bindM (connect_loop MAX_SYN_RETRIES
          (set_seq_nr (sock_seq_nr s) (set_connection_id (receiver_connection_id s) (set_type Syn packet_new)))
          (congestion_timeout s)) (\<lambda>b.
      bindM (getsM connected_to) (\<lambda>addr.
        case packet_try_from b of
          Ok packet \<Rightarrow> bindM (handle_packet k (recv k) packet addr) (\<lambda>_. ret ())
        | Err e \<Rightarrow> stopM (Io (io_error_from_parse e))
        | Panic \<Rightarrow> panicM))))"

text \<open>\<open>accept\<close> from the point where the datagram has been read and the new socket is bound.\<close>

definition accept_bound :: "nat \<Rightarrow> bytes \<Rightarrow> SocketAddr \<Rightarrow> ('f, SocketAddr) utp" where
  "accept_bound k buf src =
     (case packet_try_from buf of
        Ok packet \<Rightarrow>
          bindM (liftM (get_type packet)) (\<lambda>t.
            if t \<noteq> Syn then failM SeOther
            else
              (\<lambda>st. case handle_packet k (recv k) packet src st of
                 (Ok (Some reply), st') \<Rightarrow> thenM (udp_send_to reply src) (ret src) st'
               | (Ok None, st') \<Rightarrow> failM SeOther st'
               | (Err (Io e), st') \<Rightarrow> failM SeOther st'
               | (Err e, st') \<Rightarrow> (Err e, st')
               | (Panic, st') \<Rightarrow> (Panic, st')))
      | Err e \<Rightarrow> stopM (Io (io_error_from_parse e))
      | Panic \<Rightarrow> panicM)"

end
