(* ===== verification/Utp_Window.thy ===== *)
theory Utp_Window
  imports Utp_Socket Utp_Extension
begin

text \<open>
  The invariant of the uTP socket and its preservation by every operation, nested receives included:
  the bytes counted as in flight are those of the send window, the congestion window stays above one
  packet, the delay history within its bound, and the incoming buffer holds accepted packets in
  strictly ascending order. The operations are followed with a Hoare triple \<open>valid\<close>; its error
  conditions say that an operation which stops or panics leaves the invariant intact too, and that a
  panic comes only from a read timeout that has wrapped to zero.
\<close>

named_theorems keeps_rules \<open>operations that keep the invariant of the socket\<close>

section \<open>The invariant\<close>

definition in_flight :: "UtpSocket \<Rightarrow> u32" where
  "in_flight s = of_nat (sum_list (map length (send_window s)))"

definition sock_inv :: "UtpSocket \<Rightarrow> bool" where
  "sock_inv s \<longleftrightarrow>
     curr_window s = in_flight s \<and> MSS \<le> cwnd s \<and> length (base_delays s) \<le> BASE_HISTORY \<and>
     sorted_wrt (\<lambda>p q. packet_seq_nr p < packet_seq_nr q) (incoming_buffer s) \<and>
     (\<forall>p\<in>set (incoming_buffer s). packet_try_from p = Ok p) \<and>
     (\<forall>p\<in>set (send_window s) \<union> set (unsent_queue s). 20 \<le> length p)"

section \<open>Hoare triples\<close>

definition valid :: "(UtpSocket \<Rightarrow> bool) \<Rightarrow> ('f, 'a) utp \<Rightarrow> ('a \<Rightarrow> UtpSocket \<Rightarrow> bool) \<Rightarrow> bool" where
  "valid P m Q \<longleftrightarrow> (\<forall>s w. P s \<longrightarrow>
     (case m (s, w) of
        (Ok a, s', w') \<Rightarrow> Q a s'
      | (Err e, s', w') \<Rightarrow> sock_inv s'
      | (Panic, s', w') \<Rightarrow> sock_inv s' \<and> congestion_timeout s' = 0))"

abbreviation keeps :: "('f, 'a) utp \<Rightarrow> bool" where
  "keeps m \<equiv> valid sock_inv m (\<lambda>_. sock_inv)"

lemma valid_ret: "(\<And>s. P s \<Longrightarrow> Q a s) \<Longrightarrow> valid P (ret a) Q"
  by (simp add: valid_def ret_def)

lemma valid_bind:
  assumes "valid P m R" and "\<And>a. valid (R a) (f a) Q"
  shows "valid P (bindM m f) Q"
  unfolding valid_def
proof (intro allI impI)
  fix s w assume "P s"
  obtain r s' w' where m: "m (s, w) = (r, s', w')" by (metis prod.collapse)
  show "case bindM m f (s, w) of (Ok a, s', w') \<Rightarrow> Q a s' | (Err e, s', w') \<Rightarrow> sock_inv s'
      | (Panic, s', w') \<Rightarrow> sock_inv s' \<and> congestion_timeout s' = 0"
  proof (cases r)
    case (Ok a)
    then have "R a s'" using assms(1) [unfolded valid_def, rule_format, OF \<open>P s\<close>, of w] m by simp
    with assms(2) [of a] m Ok show ?thesis by (simp add: valid_def bindM_def)
  qed (use assms(1) [unfolded valid_def, rule_format, OF \<open>P s\<close>, of w] m in \<open>simp_all add: bindM_def\<close>)
qed

lemma valid_then: "valid P m (\<lambda>_. R) \<Longrightarrow> valid R k Q \<Longrightarrow> valid P (thenM m k) Q"
  unfolding thenM_def by (erule valid_bind)

lemma valid_gets: "(\<And>a. valid (\<lambda>s. P s \<and> g s = a) (f a) Q) \<Longrightarrow> valid P (bindM (getsM g) f) Q"
  by (fastforce simp: valid_def bindM_def getsM_def)

lemma valid_getsM: "(\<And>s. P s \<Longrightarrow> Q (g s) s) \<Longrightarrow> valid P (getsM g) Q"
  by (auto simp: valid_def getsM_def)

lemma valid_modify: "(\<And>s. P s \<Longrightarrow> Q () (g s)) \<Longrightarrow> valid P (modifyM g) Q"
  by (auto simp: valid_def modifyM_def)

lemma valid_stop: "(\<And>s. P s \<Longrightarrow> sock_inv s) \<Longrightarrow> valid P (stopM e) Q"
  by (auto simp: valid_def stopM_def)

lemma valid_fail: "(\<And>s. P s \<Longrightarrow> sock_inv s) \<Longrightarrow> valid P (failM e) Q"
  by (simp add: failM_def valid_stop)

lemma valid_lift: "r = Ok a \<Longrightarrow> (\<And>s. P s \<Longrightarrow> Q a s) \<Longrightarrow> valid P (liftM r) Q"
  by (simp add: liftM_def valid_ret)

lemma valid_ignore: "valid P m (\<lambda>_. R) \<Longrightarrow> (\<And>s. sock_inv s \<Longrightarrow> R s) \<Longrightarrow> valid P (ignoreM m) (\<lambda>_. R)"
  unfolding valid_def ignoreM_def
  by (auto split: outcome.splits stop.splits prod.splits) (metis (no_types) old.prod.inject)+

lemma valid_now: "(\<And>s t. P s \<Longrightarrow> Q t s) \<Longrightarrow> valid P nowM Q"
  by (auto simp: valid_def nowM_def)

lemma valid_random: "(\<And>s t. P s \<Longrightarrow> Q t s) \<Longrightarrow> valid P randomM Q"
  by (auto simp: valid_def randomM_def)

lemma valid_float: "(\<And>s t. P s \<Longrightarrow> Q t s) \<Longrightarrow> valid P floatM Q"
  by (auto simp: valid_def floatM_def)

lemma valid_send: "(\<And>s. P s \<Longrightarrow> sock_inv s \<and> Q () s) \<Longrightarrow> valid P (udp_send_to b a) Q"
  by (auto simp: valid_def udp_send_to_def split: list.splits option.splits)

lemma valid_recv_from:
  "(\<And>s r. P s \<Longrightarrow> sock_inv s \<and> (r \<noteq> Panic \<longrightarrow> Q r s)) \<Longrightarrow> valid P (udp_recv_from n) Q"
  by (auto simp: valid_def udp_recv_from_def split: list.splits recv_event.splits)

lemma valid_read_timeout:
  "(\<And>s. P s \<Longrightarrow> sock_inv s \<and> (t = Some 0 \<longrightarrow> congestion_timeout s = 0) \<and> Q () s) \<Longrightarrow> valid P (set_read_timeout t) Q"
  by (auto simp: valid_def set_read_timeout_def panicM_def ret_def)

lemma valid_when: "(b \<Longrightarrow> valid P m (\<lambda>_. Q)) \<Longrightarrow> (\<not> b \<Longrightarrow> (\<And>s. P s \<Longrightarrow> Q s)) \<Longrightarrow> valid P (whenM b m) (\<lambda>_. Q)"
  by (auto simp: whenM_def valid_ret)

lemma valid_pre: "valid P m Q \<Longrightarrow> (\<And>s. P' s \<Longrightarrow> P s) \<Longrightarrow> valid P' m Q"
  by (auto simp: valid_def)

lemma valid_given: "(C \<Longrightarrow> valid P m Q) \<Longrightarrow> valid (\<lambda>s. P s \<and> C) m Q"
  by (auto simp: valid_def)

lemma valid_for: "(\<And>x. x \<in> set xs \<Longrightarrow> valid P (f x) (\<lambda>_. P)) \<Longrightarrow> valid P (forM xs f) (\<lambda>_. P)"
  by (induction xs) (auto intro: valid_ret valid_then)

lemma valid_step:
  "(\<And>s. P s \<Longrightarrow> \<exists>a s'. g s = Ok (a, s') \<and> Q a s') \<Longrightarrow> valid P (stepM g) Q"
  by (fastforce simp: valid_def stepM_def split: outcome.splits)

section \<open>Pure operations\<close>

lemma window_bound: "MSS \<le> MIN_CWND * MSS"
  by (simp add: MSS_def MIN_CWND_def)

lemma max_window: "MSS \<le> max c (MIN_CWND * MSS)" "MSS \<le> max (MIN_CWND * MSS) c"
  using window_bound by (simp_all add: le_max_iff_disj)

lemma foldl_minus: "foldl (\<lambda>c p. c - of_nat (length p)) (a :: u32) ps = a - of_nat (sum_list (map length ps))"
  by (induction ps arbitrary: a) (simp_all add: algebra_simps)

lemma sum_take_drop: "sum_list (map length xs) = sum_list (map length (take n xs)) + sum_list (map length (drop n xs))"
  by (metis append_take_drop_id map_append sum_list_append)

lemma inv_advance_send_window: "sock_inv s \<Longrightarrow> sock_inv (advance_send_window s)"
proof (cases "position (\<lambda>packet. packet_seq_nr packet = last_acked s) (send_window s)")
  case (Some i)
  assume "sock_inv s"
  moreover have "in_flight s - of_nat (sum_list (map length (take (i + 1) (send_window s)))) =
      of_nat (sum_list (map length (drop (i + 1) (send_window s))))"
    using sum_take_drop [of "send_window s" "i + 1"] by (simp add: in_flight_def)
  ultimately show ?thesis
    using Some by (auto simp: sock_inv_def advance_send_window_def foldl_minus in_flight_def dest: in_set_dropD)
qed (simp add: advance_send_window_def)

lemma inv_advance_incoming:
  "sock_inv s \<Longrightarrow> advance_incoming_buffer s = (p, s') \<Longrightarrow>
   sock_inv s' \<and> (\<forall>packet. p = Some packet \<longrightarrow> packet_try_from packet = Ok packet)"
  by (auto simp: advance_incoming_buffer_def sock_inv_def in_flight_def split: list.splits)

lemma payload_ok: "packet_try_from p = Ok p \<Longrightarrow> \<exists>pl. payload p = Ok pl"
  using packet_try_from_Ok payload_repr by blast

lemma inv_pending: "sock_inv (s\<lparr>pending_data := d\<rparr>) \<longleftrightarrow> sock_inv s"
  by (simp add: sock_inv_def in_flight_def)

lemma inv_flush_incoming:
  assumes "sock_inv s"
  shows "\<exists>a s'. flush_incoming_buffer n s = Ok (a, s') \<and> sock_inv s'"
proof (cases "pending_data s = []")
  case False
  obtain p s' where adv: "advance_incoming_buffer (s\<lparr>pending_data := []\<rparr>) = (p, s')"
    by (meson surj_pair)
  have inv: "sock_inv s' \<and> (\<forall>packet. p = Some packet \<longrightarrow> packet_try_from packet = Ok packet)"
    by (rule inv_advance_incoming [OF _ adv]) (simp add: inv_pending assms)
  then show ?thesis
    using False adv assms payload_ok by (cases p) (fastforce simp: flush_incoming_buffer_def Let_def inv_pending)+
next
  case True
  show ?thesis
  proof (cases "incoming_buffer s")
    case (Cons p ps)
    then have "packet_try_from p = Ok p" using assms by (simp add: sock_inv_def)
    then obtain pl where pl: "payload p = Ok pl" using payload_ok by blast
    have "sock_inv (snd (advance_incoming_buffer (s\<lparr>pending_data := d\<rparr>)))" for d
      using inv_advance_incoming [of "s\<lparr>pending_data := d\<rparr>"] assms by (metis inv_pending prod.collapse)
    moreover have "sock_inv (snd (advance_incoming_buffer s))"
      using inv_advance_incoming [of s] assms by (metis prod.collapse)
    ultimately show ?thesis
      using True Cons pl assms by (simp add: flush_incoming_buffer_def Let_def)
  qed (simp add: flush_incoming_buffer_def True assms)
qed

lemma inv_insert_into_buffer:
  assumes "sock_inv s" and "packet_try_from packet = Ok packet"
  shows "sock_inv (insert_into_buffer packet s)"
proof -
  let ?buf = "incoming_buffer s"
  let ?i = "length (filter (\<lambda>p. packet_seq_nr p < packet_seq_nr packet) ?buf)"
  have sorted: "sorted_wrt (\<lambda>p q. packet_seq_nr p < packet_seq_nr q) ?buf" using assms(1) by (simp add: sock_inv_def)
  have "set (take ?i ?buf) \<union> set (drop ?i ?buf) \<subseteq> set ?buf"
    using set_take_subset set_drop_subset by fastforce
  then show ?thesis
    using assms ascending_insert [OF sorted refl, of packet] ascending_snoc [OF sorted, of packet]
    by (auto simp: sock_inv_def insert_into_buffer_def in_flight_def Let_def)
qed

lemma inv_update_base_delay: "sock_inv s \<Longrightarrow> sock_inv (update_base_delay d now s)"
  by (auto simp: sock_inv_def update_base_delay_def in_flight_def Let_def BASE_HISTORY_def)

lemma inv_update_current_delay: "sock_inv s \<Longrightarrow> sock_inv (update_current_delay d now s)"
  by (simp add: sock_inv_def update_current_delay_def in_flight_def Let_def)

lemma inv_update_congestion_timeout: "sock_inv s \<Longrightarrow> sock_inv (update_congestion_timeout d s)"
  by (simp add: sock_inv_def update_congestion_timeout_def in_flight_def Let_def)

lemma inv_update_congestion_window: "sock_inv s \<Longrightarrow> sock_inv (update_congestion_window fl off n s)"
  by (simp add: sock_inv_def update_congestion_window_def in_flight_def Let_def max_window)

section \<open>Operations that keep the invariant\<close>

lemma keeps_simple [keeps_rules]:
  "keeps (ret a)" "keeps nowM" "keeps randomM" "keeps floatM" "keeps (getsM g)" "keeps (stopM e)" "keeps (failM se)"
  "keeps (udp_send_to b addr)" "keeps (udp_recv_from n)"
  by (auto intro: valid_ret valid_now valid_random valid_float valid_getsM valid_stop valid_fail valid_send valid_recv_from)

lemma keeps_bind [keeps_rules]: "keeps m \<Longrightarrow> (\<And>a. keeps (f a)) \<Longrightarrow> keeps (bindM m f)"
  by (rule valid_bind)

lemma keeps_then [keeps_rules]: "keeps m \<Longrightarrow> keeps k \<Longrightarrow> keeps (thenM m k)"
  by (rule valid_then)

lemma keeps_modify [keeps_rules]: "(\<And>s. sock_inv s \<Longrightarrow> sock_inv (g s)) \<Longrightarrow> keeps (modifyM g)"
  by (rule valid_modify)

lemma keeps_when [keeps_rules]: "keeps m \<Longrightarrow> keeps (whenM b m)"
  by (auto intro: valid_when)

lemma keeps_ignore [keeps_rules]: "keeps m \<Longrightarrow> keeps (ignoreM m)"
  by (auto intro: valid_ignore)

lemma keeps_for [keeps_rules]: "(\<And>x. keeps (f x)) \<Longrightarrow> keeps (forM xs f)"
  by (auto intro: valid_for)

lemma keeps_if [keeps_rules]: "(b \<Longrightarrow> keeps m) \<Longrightarrow> (\<not> b \<Longrightarrow> keeps k) \<Longrightarrow> keeps (if b then m else k)"
  by simp

lemma keeps_option [keeps_rules]: "keeps m \<Longrightarrow> (\<And>a. keeps (f a)) \<Longrightarrow> keeps (case x of None \<Rightarrow> m | Some a \<Rightarrow> f a)"
  by (cases x) auto

lemma keeps_let [keeps_rules]: "keeps (f x) \<Longrightarrow> keeps (let a = x in f a)"
  by simp

lemma keeps_lift: "r = Ok a \<Longrightarrow> keeps (liftM r)"
  by (auto intro: valid_lift)

lemmas inv_updates = inv_update_base_delay inv_update_current_delay inv_update_congestion_timeout inv_update_congestion_window
  inv_advance_send_window

lemma inv_frame [simp]:
  "sock_inv (s\<lparr>connected_to := a\<rparr>) = sock_inv s"
  "sock_inv (s\<lparr>sender_connection_id := i\<rparr>) = sock_inv s"
  "sock_inv (s\<lparr>receiver_connection_id := i\<rparr>) = sock_inv s"
  "sock_inv (s\<lparr>sock_seq_nr := i\<rparr>) = sock_inv s"
  "sock_inv (s\<lparr>sock_ack_nr := i\<rparr>) = sock_inv s"
  "sock_inv (s\<lparr>sock_state := st\<rparr>) = sock_inv s"
  "sock_inv (s\<lparr>duplicate_ack_count := c\<rparr>) = sock_inv s"
  "sock_inv (s\<lparr>last_acked := i\<rparr>) = sock_inv s"
  "sock_inv (s\<lparr>last_acked_timestamp := t\<rparr>) = sock_inv s"
  "sock_inv (s\<lparr>last_dropped := i\<rparr>) = sock_inv s"
  "sock_inv (s\<lparr>remote_wnd_size := c\<rparr>) = sock_inv s"
  "sock_inv (s\<lparr>their_delay := d\<rparr>) = sock_inv s"
  "sock_inv (s\<lparr>congestion_timeout := ct\<rparr>) = sock_inv s"
  by (simp_all add: sock_inv_def in_flight_def)

lemma inv_cwnd: "sock_inv s \<Longrightarrow> MSS \<le> c \<Longrightarrow> sock_inv (s\<lparr>cwnd := c\<rparr>)"
  by (simp add: sock_inv_def in_flight_def)

lemma keeps_prepare_reply [keeps_rules]: "keeps (prepare_reply p t)"
  unfolding prepare_reply_def by (intro keeps_rules)

lemma keeps_reply_some [keeps_rules]: "keeps (reply_some p t)"
  unfolding reply_some_def by (intro keeps_rules)

lemma keeps_fin_packet [keeps_rules]: "keeps fin_packet"
  unfolding fin_packet_def by (intro keeps_rules)

lemma keeps_fast_resend [keeps_rules]: "keeps send_fast_resend_request"
  unfolding send_fast_resend_request_def by (intro keeps_rules)

lemma inv_touch_first:
  "sock_inv s \<Longrightarrow> send_window s = p # ps \<Longrightarrow> sock_inv (s\<lparr>send_window := set_timestamp t p # ps\<rparr>)"
  by (auto simp: sock_inv_def in_flight_def set_timestamp_def)

lemma keeps_handle_receive_timeout [keeps_rules]: "keeps handle_receive_timeout"
  unfolding handle_receive_timeout_def
proof (intro keeps_then keeps_modify valid_gets)
  fix s assume "sock_inv s"
  then show "sock_inv (s\<lparr>congestion_timeout := congestion_timeout s * 2, cwnd := MSS\<rparr>)"
    by (simp add: inv_cwnd)
next
  fix a
  show "valid (\<lambda>s. sock_inv s \<and> id s = a)
    (case send_window a of
       [] \<Rightarrow> if sock_state a = FinSent then bindM fin_packet (\<lambda>packet. udp_send_to packet (connected_to a))
          else whenM (sock_state a \<noteq> New) send_fast_resend_request
     | p # ps \<Rightarrow> bindM nowM (\<lambda>now. thenM (modifyM (\<lambda>s. s\<lparr>send_window := set_timestamp now p # ps\<rparr>))
          (udp_send_to (set_timestamp now p) (connected_to a)))) (\<lambda>_. sock_inv)"
  proof (cases "send_window a")
    case Nil
    have "keeps (if sock_state a = FinSent then bindM fin_packet (\<lambda>packet. udp_send_to packet (connected_to a))
          else whenM (sock_state a \<noteq> New) send_fast_resend_request)"
      by (intro keeps_rules)
    then show ?thesis unfolding Nil list.case by (rule valid_pre) simp
  next
    case (Cons p ps)
    have "valid (\<lambda>s. sock_inv s \<and> id s = a) (bindM nowM (\<lambda>now. thenM (modifyM (\<lambda>s. s\<lparr>send_window := set_timestamp now p # ps\<rparr>))
          (udp_send_to (set_timestamp now p) (connected_to a)))) (\<lambda>_. sock_inv)"
      by (rule valid_bind [where R = "\<lambda>_ s. sock_inv s \<and> id s = a"], rule valid_now, simp,
          rule valid_then [where R = sock_inv], rule valid_modify, use Cons inv_touch_first in force, intro keeps_rules)
    then show ?thesis unfolding Cons list.case .
  qed
qed

lemma keeps_recv_loop [keeps_rules]: "keeps (recv_loop n :: ('f, bytes \<times> SocketAddr) utp)"
proof (induction n)
  case (Suc n)
  show ?case unfolding recv_loop.simps
  proof (rule valid_gets, rule valid_then [where R = sock_inv])
    fix a :: "u64 option"
    show "valid (\<lambda>s. sock_inv s \<and> (if sock_state s \<noteq> New then Some (congestion_timeout s) else None) = a) (set_read_timeout a) (\<lambda>_. sock_inv)"
      by (rule valid_read_timeout) (auto split: if_splits)
    let ?k = "\<lambda>r. case r of Ok (b, src) \<Rightarrow> ret (b, src)
        | Err e \<Rightarrow> if is_timeout e then thenM handle_receive_timeout (recv_loop n :: ('f, bytes \<times> SocketAddr) utp) else stopM (Io e)
        | Panic \<Rightarrow> panicM"
    have "keeps (?k r)" if "r \<noteq> Panic" for r
      using that Suc by (cases r) (auto intro!: keeps_rules)
    then show "keeps (bindM (udp_recv_from (BUF_SIZE + HEADER_SIZE)) ?k)"
      by (intro valid_bind [where R = "\<lambda>r s. sock_inv s \<and> r \<noteq> Panic"] valid_recv_from valid_given) simp_all
  qed
qed (auto intro!: keeps_rules)

section \<open>Replies\<close>

lemma sack_pad_step:
  "b \<ge> length sack \<or> length sack mod 4 \<noteq> 0 \<Longrightarrow> sack_pad b sack = sack_pad b (sack @ [0])"
  by (subst sack_pad.simps) (rule if_P)

lemma sack_pad_done:
  "\<not> (b \<ge> length sack \<or> length sack mod 4 \<noteq> 0) \<Longrightarrow> sack_pad b sack = sack"
  by (subst sack_pad.simps) (rule if_not_P)

lemma sack_pad_length: "b < length (sack_pad b sack) \<and> length (sack_pad b sack) mod 4 = 0"
proof (induction b sack rule: sack_pad.induct)
  case (1 b sack)
  show ?case
  proof (cases "b \<ge> length sack \<or> length sack mod 4 \<noteq> 0")
    case True
    then show ?thesis using 1 [OF True] sack_pad_step [OF True] by metis
  next
    case False
    then have "b < length sack" and "length sack mod 4 = 0" by (metis not_less)+
    then show ?thesis using sack_pad_done [OF False] by metis
  qed
qed

lemma sack_pad_zeros: "\<exists>n. sack_pad b sack = sack @ replicate n 0"
proof (induction b sack rule: sack_pad.induct)
  case (1 b sack)
  show ?case
  proof (cases "b \<ge> length sack \<or> length sack mod 4 \<noteq> 0")
    case True
    obtain n where "sack_pad b (sack @ [0]) = (sack @ [0]) @ replicate n 0" using 1 [OF True] by blast
    also have "\<dots> = sack @ replicate (Suc n) 0" by (simp only: replicate.simps append_assoc append_Cons append_Nil)
    finally show ?thesis using sack_pad_step [OF True] by metis
  next
    case False
    then show ?thesis using sack_pad_done [OF False] by (metis append_Nil2 replicate_0)
  qed
qed

definition set_sack_bit :: "bytes \<Rightarrow> nat \<times> nat \<Rightarrow> bytes" where
  "set_sack_bit = (\<lambda>sack (b, k). let sack = sack_pad b sack in sack[b := sack ! b OR push_bit k 1])"

lemma length_set_sack_bit: "length (set_sack_bit sack x) = length (sack_pad (fst x) sack)"
  by (simp only: set_sack_bit_def case_prod_beta Let_def length_list_update)

lemma sack_fold_length: "length sack mod 4 = 0 \<Longrightarrow> length (foldl set_sack_bit sack bits) mod 4 = 0"
proof (induction bits arbitrary: sack)
  case Nil
  then show ?case by (simp only: foldl_Nil)
next
  case (Cons x xs)
  show ?case unfolding foldl_Cons
    by (rule Cons.IH) (simp only: length_set_sack_bit sack_pad_length)
qed

lemma build_selective_ack_fold:
  "build_selective_ack s = foldl set_sack_bit [] (map (\<lambda>diff. (diff div 8, diff mod 8))
     (map (\<lambda>pkt. unat (packet_seq_nr pkt - sock_ack_nr s - 2))
       (filter (\<lambda>pkt. packet_seq_nr pkt > sock_ack_nr s + 1) (incoming_buffer s))))"
  by (simp only: build_selective_ack_def set_sack_bit_def Let_def)

lemma build_selective_ack_length:
  "length (build_selective_ack s) mod 4 = 0" "build_selective_ack s \<noteq> [] \<Longrightarrow> 4 \<le> length (build_selective_ack s)"
proof -
  show m: "length (build_selective_ack s) mod 4 = 0"
    unfolding build_selective_ack_fold by (rule sack_fold_length) (simp only: list.size mod_0)
  assume "build_selective_ack s \<noteq> []"
  then have "length (build_selective_ack s) \<noteq> 0" by simp
  with m show "4 \<le> length (build_selective_ack s)" by (metis mod_less not_less)
qed

lemma packet_new_ok: "packet_try_from packet_new = Ok packet_new"
  by code_simp

lemma valid_prepare_reply:
  "valid sock_inv (prepare_reply p t) (\<lambda>reply s. sock_inv s \<and> packet_try_from reply = Ok reply)"
  unfolding prepare_reply_def
  by (rule valid_bind [OF keeps_simple(2)], rule valid_getsM) (simp add: fields_keep packet_new_ok)

lemma valid_with_sack:
  "valid (\<lambda>s. sock_inv s \<and> packet_try_from reply = Ok reply) (with_sack p reply) (\<lambda>_. sock_inv)"
  unfolding with_sack_def
proof (rule valid_gets)
  fix a
  have "\<exists>p'. set_sack (build_selective_ack a) reply = Ok p'"
    if ok: "packet_try_from reply = Ok reply" and ne: "build_selective_ack a \<noteq> []"
  proof -
    from ok obtain es pl where "packet_repr reply es pl" using packet_try_from_Ok by blast
    then show ?thesis
      using set_sack_repr [OF _ build_selective_ack_length(2) [OF ne] build_selective_ack_length(1)] by blast
  qed
  then show "valid (\<lambda>s. (sock_inv s \<and> packet_try_from reply = Ok reply) \<and> id s = a)
    (if 1 < packet_seq_nr p - sock_ack_nr a \<and> build_selective_ack a \<noteq> []
     then liftM (set_sack (build_selective_ack a) reply) else ret reply) (\<lambda>_. sock_inv)"
    by (auto simp: valid_def liftM_def ret_def panicM_def split: outcome.splits)
qed

lemma keeps_reply_with_sack:
  assumes "\<And>reply. keeps (f reply)"
  shows "keeps (bindM (prepare_reply p t) (\<lambda>reply. bindM (with_sack q reply) f))"
  by (rule valid_bind [OF valid_prepare_reply], rule valid_bind [OF valid_with_sack]) (rule assms)

lemma keeps_handle_data_packet [keeps_rules]: "keeps (handle_data_packet p)"
  unfolding handle_data_packet_def
  by (rule keeps_bind, rule keeps_rules, rule keeps_reply_with_sack, rule keeps_rules)

lemma keeps_handle_fin [keeps_rules]: "keeps (handle_fin p)"
  unfolding handle_fin_def by (rule keeps_reply_with_sack, intro keeps_rules) simp

lemma keeps_accept_syn [keeps_rules]: "keeps (accept_syn p src)"
  unfolding accept_syn_def by (intro keeps_rules) simp

lemma keeps_complete_syn [keeps_rules]: "keeps (complete_syn p src)"
  unfolding complete_syn_def by (intro keeps_rules) simp_all

lemma keeps_count_ack [keeps_rules]: "keeps (count_ack p)"
  unfolding count_ack_def by (intro keeps_rules) simp_all

lemma keeps_update_congestion [keeps_rules]: "keeps (update_congestion p)"
  unfolding update_congestion_def by (intro keeps_rules) (simp_all add: inv_updates)

section \<open>Operations that receive\<close>

lemma keeps_wait_window [keeps_rules]:
  "(\<And>n. keeps (rcv n :: ('f, bytes \<times> SocketAddr) utp)) \<Longrightarrow> keeps (wait_window k rcv m now)"
  by (induction k) (auto intro!: keeps_rules)

lemma keeps_send_packet [keeps_rules]: "(\<And>n. keeps (rcv n :: ('f, bytes \<times> SocketAddr) utp)) \<Longrightarrow> keeps (send_packet k rcv p)"
  unfolding send_packet_def by (intro keeps_rules)

lemma keeps_resend [keeps_rules]: "(\<And>n. keeps (rcv n :: ('f, bytes \<times> SocketAddr) utp)) \<Longrightarrow> keeps (resend_lost_packet k rcv nr)"
  unfolding resend_lost_packet_def by (intro keeps_rules)

lemma keeps_process_extensions [keeps_rules]:
  "(\<And>n. keeps (rcv n :: ('f, bytes \<times> SocketAddr) utp)) \<Longrightarrow> keeps (process_extensions k rcv p es d)"
  by (induction es arbitrary: d) (auto simp: process_extension_def intro!: keeps_rules)

lemma extensions_ok: "packet_try_from p = Ok p \<Longrightarrow> \<exists>es. extensions p = Ok es"
  using packet_try_from_Ok extensions_repr by blast

lemma get_type_ok: "packet_try_from p = Ok p \<Longrightarrow> \<exists>t. get_type p = Ok t"
  by (auto simp: packet_try_from_Ok header_ok_def get_type_def header_get_type_def view_header_nth)
    (metis is_ok.elims(2) unwrap.simps(1))

lemma keeps_handle_state_packet [keeps_rules]:
  assumes "\<And>n. keeps (rcv n :: ('f, bytes \<times> SocketAddr) utp)" and "packet_try_from p = Ok p"
  shows "keeps (handle_state_packet k rcv p)"
  using extensions_ok [OF assms(2)] assms(1) unfolding handle_state_packet_def
  by (auto intro!: keeps_rules keeps_lift simp: inv_updates inv_cwnd max_window)

lemma keeps_dispatch [keeps_rules]:
  assumes "\<And>n. keeps (rcv n :: ('f, bytes \<times> SocketAddr) utp)" and "packet_try_from p = Ok p"
  shows "keeps (dispatch k rcv p src t)"
  unfolding dispatch_def
proof (rule keeps_bind, rule keeps_rules)
  fix st
  show "keeps (case (st, t) of
         (New, Syn) \<Rightarrow> accept_syn p src
       | (_, Syn) \<Rightarrow> reply_some p Reset
       | (SynSent, State) \<Rightarrow> complete_syn p src
       | (SynSent, _) \<Rightarrow> failM SeInvalidReply
       | (Connected, Data) \<Rightarrow> handle_data_packet p
       | (FinSent, Data) \<Rightarrow> handle_data_packet p
       | (Connected, State) \<Rightarrow> thenM (handle_state_packet k rcv p) (ret None)
       | (Connected, Fin) \<Rightarrow> handle_fin p
       | (FinSent, Fin) \<Rightarrow> handle_fin p
       | (Closed, Fin) \<Rightarrow> reply_some p State
       | (FinSent, State) \<Rightarrow>
           bindM (getsM sock_seq_nr) (\<lambda>seq.
             thenM (if packet_ack_nr p = seq then modifyM (\<lambda>s. s\<lparr>sock_state := Closed\<rparr>)
                    else handle_state_packet k rcv p) (ret None))
       | (_, Reset) \<Rightarrow> thenM (modifyM (\<lambda>s. s\<lparr>sock_state := ResetReceived\<rparr>)) (failM SeConnectionReset)
       | (_, _) \<Rightarrow> failM SeOther)"
    using assms by (cases st; cases t) (auto intro!: keeps_rules)
qed

lemma keeps_handle_packet [keeps_rules]:
  assumes "\<And>n. keeps (rcv n :: ('f, bytes \<times> SocketAddr) utp)" and "packet_try_from p = Ok p"
  shows "keeps (handle_packet k rcv p src)"
  using get_type_ok [OF assms(2)] assms unfolding handle_packet_def
  by (auto intro!: keeps_rules keeps_lift)

lemma keeps_flush_incoming [keeps_rules]: "keeps (stepM (flush_incoming_buffer n))"
  using inv_flush_incoming by (intro valid_step) blast

lemma keeps_recv_body [keeps_rules]:
  assumes "\<And>n. keeps (rcv n :: ('f, bytes \<times> SocketAddr) utp)"
  shows "keeps (recv_body k rcv n)"
  unfolding recv_body_def
proof (intro keeps_bind keeps_rules, clarify)
  fix b src
  show "keeps (case packet_try_from b of
         Ok packet \<Rightarrow>
           bindM (handle_packet k rcv packet src) (\<lambda>reply.
           thenM (case reply of Some pkt \<Rightarrow> udp_send_to (set_wnd_size WINDOW_SIZE pkt) src | None \<Rightarrow> ret ())
           (bindM (liftM (get_type packet)) (\<lambda>t.
            thenM (modifyM (\<lambda>s. if t = Data \<and> packet_seq_nr packet - last_dropped s > 0 then insert_into_buffer packet s else s))
            (bindM (stepM (flush_incoming_buffer n)) (\<lambda>read. ret (read, src))))))
       | Err e \<Rightarrow> getsM (\<lambda>s. ([], connected_to s))
       | Panic \<Rightarrow> panicM)"
  proof (cases "packet_try_from b")
    case (Ok packet)
    then have ok: "packet_try_from packet = Ok packet" using packet_try_from_Ok by metis
    show ?thesis using get_type_ok [OF ok] assms ok Ok
      by (auto intro!: keeps_rules keeps_lift inv_insert_into_buffer)
  next
    case (Err e)
    then show ?thesis by (auto intro: keeps_rules)
  next
    case Panic
    then show ?thesis by simp
  qed
qed

lemma keeps_recv [keeps_rules]: "keeps (recv k n)"
  by (induction k arbitrary: n) (auto intro!: keeps_rules)

section \<open>The public operations\<close>

lemma keeps_recv_from_loop [keeps_rules]: "keeps (recv_from_loop j k n)"
  by (induction j) (auto intro!: keeps_rules)

lemma keeps_recv_from [keeps_rules]: "keeps (recv_from k n)"
  unfolding recv_from_def by (intro keeps_rules)

lemma valid_send_packet:
  assumes "20 \<le> length p" and "\<And>n. keeps (rcv n :: ('f, bytes \<times> SocketAddr) utp)"
  shows "valid sock_inv (send_packet k rcv p) (\<lambda>p' s. sock_inv s \<and> length p' = length p)"
  unfolding send_packet_def
  by (intro valid_bind [where R = "\<lambda>_. sock_inv"] valid_then [where R = sock_inv] keeps_rules assms(2))
    (auto intro!: valid_then [where R = sock_inv] valid_ret keeps_rules simp: Let_def assms(1) set_timestamp_def
      set_timestamp_difference_def)

lemma inv_push_sent:
  "sock_inv s \<Longrightarrow> 20 \<le> length p \<Longrightarrow>
   sock_inv (s\<lparr>curr_window := curr_window s + of_nat (length p), send_window := send_window s @ [p]\<rparr>)"
  by (auto simp: sock_inv_def in_flight_def)

lemma keeps_send_loop [keeps_rules]: "keeps (send_loop j k :: ('f, unit) utp)"
proof (induction j)
  case (Suc j)
  show ?case unfolding send_loop.simps
  proof (rule valid_gets)
    fix q
    let ?k = "\<lambda>q. case q of [] \<Rightarrow> ret ()
      | packet # rest \<Rightarrow> thenM (modifyM (\<lambda>s. s\<lparr>unsent_queue := rest\<rparr>))
          (bindM (send_packet k (recv k) packet) (\<lambda>packet.
           thenM (modifyM (\<lambda>s. s\<lparr>curr_window := curr_window s + of_nat (length packet), send_window := send_window s @ [packet]\<rparr>))
           (send_loop j k :: ('f, unit) utp)))"
    show "valid (\<lambda>s. sock_inv s \<and> unsent_queue s = q) (?k q) (\<lambda>_. sock_inv)"
    proof (cases q)
      case Nil
      then show ?thesis by (auto intro: valid_ret)
    next
      case (Cons packet rest)
      have "valid (\<lambda>s. sock_inv s \<and> 20 \<le> length packet) (bindM (send_packet k (recv k) packet) (\<lambda>packet.
           thenM (modifyM (\<lambda>s. s\<lparr>curr_window := curr_window s + of_nat (length packet), send_window := send_window s @ [packet]\<rparr>))
           (send_loop j k :: ('f, unit) utp))) (\<lambda>_. sock_inv)"
        by (rule valid_given, rule valid_bind, rule valid_send_packet, assumption, rule keeps_rules)
          (rule valid_then [where R = sock_inv], rule valid_modify, rule inv_push_sent, simp, simp, rule Suc)
      then show ?thesis unfolding Cons list.case
        by (rule valid_then [rotated]) (rule valid_modify, auto simp: sock_inv_def in_flight_def Cons)
    qed
  qed
qed (auto intro: keeps_rules)

lemma inv_queue_chunk: "sock_inv s \<Longrightarrow> sock_inv (queue_chunk c s)"
  by (auto simp: sock_inv_def queue_chunk_def in_flight_def Let_def setter_defs with_payload_def)

lemma inv_queue_data: "sock_inv s \<Longrightarrow> sock_inv (queue_data b s)"
proof -
  have "sock_inv s \<Longrightarrow> sock_inv (fold queue_chunk cs s)" for cs
    by (induction cs arbitrary: s) (simp_all add: inv_queue_chunk)
  then show "sock_inv s \<Longrightarrow> sock_inv (queue_data b s)" by (simp add: queue_data_def)
qed

lemma keeps_send_to [keeps_rules]: "keeps (send_to k b)"
  unfolding send_to_def send_def by (intro keeps_rules) (rule inv_queue_data)

lemma keeps_flush [keeps_rules]: "keeps (flush k)"
proof -
  have "keeps (flush_loop j k :: ('f, unit) utp)" for j by (induction j) (auto intro!: keeps_rules)
  then show ?thesis unfolding flush_def .
qed

lemma keeps_close_loop [keeps_rules]: "keeps (close_loop j k)"
  by (induction j) (auto intro!: keeps_rules)

lemma keeps_close [keeps_rules]: "keeps (close k)"
  unfolding close_def by (intro keeps_rules) simp


lemma keeps_connect_loop:
  "(\<And>i. i < n \<Longrightarrow> t * 2 ^ i \<noteq> 0) \<Longrightarrow> keeps (connect_loop n p t :: ('f, bytes) utp)"
proof (induction n arbitrary: p t)
  case (Suc n)
  have "t \<noteq> 0" using Suc.prems [of 0] by simp
  then have timeout: "keeps (set_read_timeout (Some t))" by (intro valid_read_timeout) simp
  have IH: "keeps (connect_loop n q (t * 2) :: ('f, bytes) utp)" for q
    by (rule Suc.IH) (use Suc.prems [of "Suc _"] in \<open>simp add: mult.assoc\<close>)
  let ?k = "\<lambda>q r. case r of Ok (b, src) \<Rightarrow> thenM (modifyM (\<lambda>s. s\<lparr>connected_to := src\<rparr>)) (ret b)
    | Err e \<Rightarrow> if is_timeout e then connect_loop n q (t * 2) else stopM (Io e) | Panic \<Rightarrow> panicM"
  have "keeps (?k q r :: ('f, bytes) utp)" if "r \<noteq> Panic" for q r
    using that IH by (cases r) (auto intro!: keeps_rules)
  then have step: "keeps (bindM (udp_recv_from BUF_SIZE) (?k q) :: ('f, bytes) utp)" for q
    by (intro valid_bind [where R = "\<lambda>r s. sock_inv s \<and> r \<noteq> Panic"] valid_recv_from valid_given) simp_all
  have "keeps (thenM (set_read_timeout (Some t)) (bindM (udp_recv_from BUF_SIZE) (?k q)) :: ('f, bytes) utp)" for q
    by (rule keeps_then [OF timeout step])
  note tail = keeps_then [OF keeps_modify this]
  show ?case unfolding connect_loop.simps Let_def
    by (rule keeps_bind, rule keeps_rules, rule keeps_bind, rule keeps_rules, rule keeps_then, rule keeps_rules, rule tail) simp
qed (auto intro: keeps_rules)

lemma keeps_connect_bound:
  "valid (\<lambda>s. sock_inv s \<and> congestion_timeout s = INITIAL_CONGESTION_TIMEOUT) (connect_bound k addr :: ('f, unit) utp) (\<lambda>_. sock_inv)"
proof -
  have five: "i < MAX_SYN_RETRIES \<Longrightarrow> INITIAL_CONGESTION_TIMEOUT * 2 ^ i \<noteq> 0" for i
  proof -
    assume "i < MAX_SYN_RETRIES"
    then have "i = 0 \<or> i = 1 \<or> i = 2 \<or> i = 3 \<or> i = 4" by (auto simp: MAX_SYN_RETRIES_def)
    then show ?thesis by (elim disjE) (simp_all add: INITIAL_CONGESTION_TIMEOUT_def)
  qed
  have loop: "valid (\<lambda>s. (sock_inv s \<and> congestion_timeout s = INITIAL_CONGESTION_TIMEOUT) \<and> id s = a)
      (connect_loop MAX_SYN_RETRIES p (congestion_timeout a) :: ('f, bytes) utp) (\<lambda>_. sock_inv)" for a p
  proof (cases "congestion_timeout a = INITIAL_CONGESTION_TIMEOUT")
    case True
    show ?thesis unfolding True by (rule valid_pre [OF keeps_connect_loop]) (use five in auto)
  qed (auto simp: valid_def)
  have rest: "keeps (case packet_try_from b of
          Ok packet \<Rightarrow> bindM (handle_packet k (recv k) packet addr) (\<lambda>_. ret ())
        | Err e \<Rightarrow> stopM (Io (io_error_from_parse e))
        | Panic \<Rightarrow> (panicM :: ('f, unit) utp))" for b addr
  proof (cases "packet_try_from b")
    case (Ok packet)
    then have "packet_try_from packet = Ok packet" using packet_try_from_Ok by metis
    then show ?thesis using Ok by (auto intro!: keeps_rules)
  qed (auto intro: keeps_rules)
  show ?thesis unfolding connect_bound_def
    by (rule valid_then [where R = "\<lambda>s. sock_inv s \<and> congestion_timeout s = INITIAL_CONGESTION_TIMEOUT"], rule valid_modify, simp,
        rule valid_gets, rule valid_bind, rule loop, rule keeps_bind, rule keeps_rules, rule rest)
qed

lemma valid_result:
  assumes "valid P m (\<lambda>_. sock_inv)" and "P s" and "m (s, w) = (r, s', w')"
  shows "sock_inv s' \<and> (r = Panic \<longrightarrow> congestion_timeout s' = 0)"
  using assms(1) [unfolded valid_def, rule_format, OF assms(2), of w] assms(3) by (cases r) simp_all

lemma keeps_accept_bound [keeps_rules]: "keeps (accept_bound k b src :: ('f, SocketAddr) utp)"
proof (cases "packet_try_from b")
  case (Ok packet)
  then have ok: "packet_try_from packet = Ok packet" using packet_try_from_Ok by metis
  then have h: "keeps (handle_packet k (recv k) packet src :: ('f, Packet option) utp)" by (intro keeps_rules)
  have "keeps ((\<lambda>st. case handle_packet k (recv k) packet src st of
                 (Ok (Some reply), st') \<Rightarrow> thenM (udp_send_to reply src) (ret src) st'
               | (Ok None, st') \<Rightarrow> failM SeOther st'
               | (Err (Io e), st') \<Rightarrow> failM SeOther st'
               | (Err e, st') \<Rightarrow> (Err e, st')
               | (Panic, st') \<Rightarrow> (Panic, st')) :: ('f, SocketAddr) utp)"
    (is "keeps ?m")
    unfolding valid_def
  proof (intro allI impI)
    fix s and w :: "'f World" assume inv: "sock_inv s"
    obtain r s' w' where m: "handle_packet k (recv k) packet src (s, w) = (r, s', w')" by (metis prod.collapse)
    have r: "sock_inv s'" "r = Panic \<Longrightarrow> congestion_timeout s' = 0"
      using valid_result [OF h inv m] by simp_all
    have "keeps (thenM (udp_send_to reply src) (ret src) :: ('f, SocketAddr) utp)" for reply by (intro keeps_rules)
    note send = this [unfolded valid_def, rule_format, OF r(1), of _ w']
    show "case ?m (s, w) of (Ok a, s', w') \<Rightarrow> sock_inv s' | (Err e, s', w') \<Rightarrow> sock_inv s'
        | (Panic, s', w') \<Rightarrow> sock_inv s' \<and> congestion_timeout s' = 0"
    proof (cases r)
      case (Ok x)
      then show ?thesis using m r(1) send by (cases x) (simp_all add: failM_def stopM_def)
    next
      case (Err e)
      then show ?thesis using m r(1) by (cases e) (simp_all add: failM_def stopM_def)
    qed (use m r in simp)
  qed
  then show ?thesis using Ok get_type_ok [OF ok] unfolding accept_bound_def
    by (auto intro!: keeps_rules keeps_lift)
qed (auto simp: accept_bound_def intro: keeps_rules)

lemma inv_from_raw_parts: "sock_inv (from_raw_parts src rid)"
  using window_bound
  by (simp add: from_raw_parts_def sock_inv_def in_flight_def INIT_CWND_def MIN_CWND_def split: prod.split)

section \<open>Reachable sockets\<close>

text \<open>
  The sockets a program can hold: a bound, a connecting or an accepted one, after any sequence of calls,
  in any state of the outside world.
\<close>

inductive utp_reachable :: "UtpSocket \<times> 'f World \<Rightarrow> bool" where
  bound: "utp_reachable (from_raw_parts src rid, w)"
| connecting: "connect_bound k addr (from_raw_parts src rid, w) = (r, s', w') \<Longrightarrow> utp_reachable (s', w')"
| accepted: "accept_bound k b src (from_raw_parts src rid, w) = (r, s', w') \<Longrightarrow> utp_reachable (s', w')"
| world: "utp_reachable (s, w) \<Longrightarrow> utp_reachable (s, w')"
| receiving: "utp_reachable (s, w) \<Longrightarrow> recv_from k n (s, w) = (r, s', w') \<Longrightarrow> utp_reachable (s', w')"
| sending: "utp_reachable (s, w) \<Longrightarrow> send_to k b (s, w) = (r, s', w') \<Longrightarrow> utp_reachable (s', w')"
| flushing: "utp_reachable (s, w) \<Longrightarrow> flush k (s, w) = (r, s', w') \<Longrightarrow> utp_reachable (s', w')"
| closing: "utp_reachable (s, w) \<Longrightarrow> close k (s, w) = (r, s', w') \<Longrightarrow> utp_reachable (s', w')"
| retries: "utp_reachable (s, w) \<Longrightarrow> utp_reachable (s\<lparr>max_retransmission_retries := n\<rparr>, w)"

lemma reachable_inv: "utp_reachable (s, w) \<Longrightarrow> sock_inv s"
proof (induction "(s, w)" arbitrary: s w rule: utp_reachable.induct)
  case (connecting k addr src rid w r s' w')
  have "congestion_timeout (from_raw_parts src rid) = INITIAL_CONGESTION_TIMEOUT"
    by (simp add: from_raw_parts_def split: prod.split)
  then show ?case using valid_result [OF keeps_connect_bound _ connecting] inv_from_raw_parts by blast
next
  case (accepted k b src rid w r s' w')
  then show ?case using valid_result [OF keeps_accept_bound] inv_from_raw_parts by blast
next
  case (receiving s w k n r s' w')
  then show ?case using valid_result [OF keeps_recv_from] by blast
next
  case (sending s w k b r s' w')
  then show ?case using valid_result [OF keeps_send_to] by blast
next
  case (flushing s w k r s' w')
  then show ?case using valid_result [OF keeps_flush] by blast
next
  case (closing s w k r s' w')
  then show ?case using valid_result [OF keeps_close] by blast
next
  case (retries s w n)
  then show ?case by (simp add: sock_inv_def in_flight_def)
qed (auto simp: inv_from_raw_parts)


section \<open>Properties\<close>

text \<open>
  C9. Whatever datagrams, errors and clock readings the outside world delivers, and for every sequence of
  calls: the bytes counted as in flight are exactly those of the packets in the send window, the congestion
  window is at least one packet, the delay history has at most ten entries, the incoming buffer holds
  accepted packets in strictly ascending order of sequence numbers, and receiving panics only when the
  doubled read timeout has wrapped to zero.
\<close>

theorem utp_socket_invariant:
  assumes "utp_reachable (s, w)"
  shows "curr_window s = of_nat (sum_list (map length (send_window s))) \<and> MSS \<le> cwnd s \<and>
    length (base_delays s) \<le> BASE_HISTORY \<and>
    sorted_wrt (\<lambda>p q. packet_seq_nr p < packet_seq_nr q) (incoming_buffer s) \<and>
    (\<forall>p\<in>set (incoming_buffer s). packet_try_from p = Ok p) \<and>
    (fst (recv_from k n (s, w)) = Panic \<longrightarrow> congestion_timeout (fst (snd (recv_from k n (s, w)))) = 0)"
  using reachable_inv [OF assms] valid_result [OF keeps_recv_from, of s k n w]
  by (cases "recv_from k n (s, w)") (auto simp: sock_inv_def in_flight_def)

definition sample_floats :: "unit f64" where
  "sample_floats = \<lparr>f_lit = \<lambda>_ _. (), f_add = \<lambda>_ _. (), f_sub = \<lambda>_ _. (), f_mul = \<lambda>_ _. (), f_div = \<lambda>_ _. (),
     f_of_u32 = \<lambda>_. (), f_of_i64 = \<lambda>_. (), f_to_u32 = \<lambda>_. 0, f_to_i64 = \<lambda>_. 0\<rparr>"

definition sample_addr :: SocketAddr where
  "sample_addr = SockV4 \<lparr>v4_ip = Ipv4Addr 127 0 0 1, v4_port = 9000\<rparr>"

definition sample_world :: "recv_event list \<Rightarrow> unit World" where
  "sample_world es = \<lparr>float_ops = sample_floats, udp_in = es, udp_send_results = [], udp_out = [],
     clock = \<lambda>_. Timestamp 5, ticks = 0, random_u16 = \<lambda>_. 40, drawn = 0\<rparr>"

lemmas monad_defs = bindM_def thenM_def ret_def stopM_def failM_def panicM_def whenM_def getsM_def modifyM_def liftM_def nowM_def
  randomM_def floatM_def udp_send_to_def

lemma accept_connects:
  assumes "packet_try_from b = Ok b" and "get_type b = Ok Syn"
  shows "sock_state (fst (snd (accept_bound k b src (from_raw_parts src rid, w)))) = Connected"
  using assms
  by (cases "generate_sequential_identifiers rid")
    (auto simp: accept_bound_def handle_packet_def dispatch_def accept_syn_def reply_some_def prepare_reply_def
      from_raw_parts_def monad_defs split: list.split option.split)

definition sample_accepted :: "recv_event list \<Rightarrow> UtpSocket \<times> unit World" where
  "sample_accepted es =
     snd (accept_bound 1 (set_type Syn packet_new) sample_addr (from_raw_parts sample_addr 7, sample_world es))"

theorem utp_socket_invariant_witness:
  "sock_state (fst (sample_accepted [])) = Connected \<and> MSS \<le> cwnd (fst (sample_accepted []))"
proof -
  have "utp_reachable (fst (sample_accepted []), snd (sample_accepted []))"
    unfolding sample_accepted_def
    by (rule accepted [of 1 "set_type Syn packet_new" sample_addr 7 "sample_world []"])
      (simp only: prod.collapse, rule prod.collapse [symmetric])
  moreover have "packet_try_from (set_type Syn packet_new) = Ok (set_type Syn packet_new)"
    and "get_type (set_type Syn packet_new) = Ok Syn"
    by code_simp+
  then have "sock_state (fst (sample_accepted [])) = Connected"
    unfolding sample_accepted_def by (rule accept_connects)
  ultimately show ?thesis using utp_socket_invariant by blast
qed


end
