(* ===== verification/Utp_Progress.thy ===== *)
theory Utp_Progress
  imports Utp_Window
begin

text \<open>
  Progress of the uTP socket. Every receive consumes a datagram or ends, so the fuel of the model is
  never used up when it exceeds the number of datagrams the world will deliver; along the way the state of
  the connection only moves forward and the queue of unsent packets is left alone. These facts are
  carried together by the predicate \<open>steps\<close>.
\<close>

named_theorems steps_rules \<open>operations that move the socket forward\<close>

section \<open>Moving forward\<close>

text \<open>How the state of a connection can change while packets are received.\<close>

definition evolves :: "SocketState \<Rightarrow> SocketState \<Rightarrow> bool" where
  "evolves a b \<longleftrightarrow> a = b \<or> b = Closed \<or> b = ResetReceived \<or> (b = Connected \<and> (a = New \<or> a = SynSent))"

definition forward :: "UtpSocket \<times> 'f World \<Rightarrow> UtpSocket \<times> 'f World \<Rightarrow> bool" where
  "forward st st' \<longleftrightarrow>
     evolves (sock_state (fst st)) (sock_state (fst st')) \<and> unsent_queue (fst st') = unsent_queue (fst st) \<and>
     length (udp_in (snd st')) \<le> length (udp_in (snd st))"

lemma forward_refl [simp]: "forward st st"
  by (simp add: forward_def evolves_def)

lemma forward_trans: "forward a b \<Longrightarrow> forward b c \<Longrightarrow> forward a c"
  by (auto simp: forward_def evolves_def)

text \<open>
  From a socket with \<open>P\<close> the operation moves forward, and with fewer than \<open>b\<close> datagrams to come it does not
  run out of fuel.
\<close>

definition steps :: "nat \<Rightarrow> (UtpSocket \<Rightarrow> bool) \<Rightarrow> ('f, 'a) utp \<Rightarrow> bool" where
  "steps b P m \<longleftrightarrow> (\<forall>s w. P s \<longrightarrow>
     forward (s, w) (snd (m (s, w))) \<and> (length (udp_in w) < b \<longrightarrow> fst (m (s, w)) \<noteq> Err OutOfFuel))"

abbreviation always :: "UtpSocket \<Rightarrow> bool" where
  "always \<equiv> \<lambda>_. True"

text \<open>An operation that, when it returns, has consumed a datagram.\<close>

definition eats :: "('f, 'a) utp \<Rightarrow> bool" where
  "eats m \<longleftrightarrow> (\<forall>s w a st'. m (s, w) = (Ok a, st') \<longrightarrow> length (udp_in (snd st')) < length (udp_in w))"

lemma stepsD:
  assumes "steps b P m" and "P s" and "m (s, w) = (r, s', w')"
  shows "forward (s, w) (s', w')" and "length (udp_in w) < b \<Longrightarrow> r \<noteq> Err OutOfFuel"
  using assms(1) [unfolded steps_def, rule_format, OF assms(2), of w] assms(3) by simp_all

lemma steps_pre: "steps b always m \<Longrightarrow> steps b P m"
  by (simp add: steps_def)

lemma steps_simple [steps_rules]:
  "steps b P (ret a)" "steps b P nowM" "steps b P randomM" "steps b P floatM" "steps b P (getsM g)"
  "steps b P (failM se)" "steps b P (stopM (Io e))" "steps b P (udp_send_to bs addr)" "steps b P (udp_recv_from n)"
  "steps b P (set_read_timeout t)" "steps b P (liftM r)" "steps b P panicM"
  by (auto simp: steps_def monad_defs udp_recv_from_def set_read_timeout_def forward_def evolves_def
      split: list.split recv_event.split option.split outcome.split)

lemma steps_bind_from:
  assumes "steps b P m" and "\<And>a. steps c always (f a)"
    and "\<And>s w a s' w'. P s \<Longrightarrow> m (s, w) = (Ok a, s', w') \<Longrightarrow> length (udp_in w) < b \<Longrightarrow> length (udp_in w') < c"
  shows "steps b P (bindM m f)"
  unfolding steps_def
proof (intro allI impI)
  fix s w assume "P s"
  obtain r s' w' where m: "m (s, w) = (r, s', w')" by (metis prod.collapse)
  note d = stepsD [OF assms(1) \<open>P s\<close> m]
  show "forward (s, w) (snd (bindM m f (s, w))) \<and> (length (udp_in w) < b \<longrightarrow> fst (bindM m f (s, w)) \<noteq> Err OutOfFuel)"
  proof (cases r)
    case (Ok a)
    obtain r2 s2 w2 where f: "f a (s', w') = (r2, s2, w2)" by (metis prod.collapse)
    note e = stepsD [OF assms(2) TrueI f]
    show ?thesis using m Ok f d e forward_trans [OF d(1) e(1)] assms(3) [OF \<open>P s\<close>] by (auto simp: bindM_def)
  qed (use m d in \<open>auto simp: bindM_def\<close>)
qed

lemma steps_bind [steps_rules]:
  assumes "steps b P m" and "\<And>a. steps b always (f a)"
  shows "steps b P (bindM m f)"
  using assms
proof (rule steps_bind_from)
  fix s w a s' w'
  assume "P s" and "m (s, w) = (Ok a, s', w')" and "length (udp_in w) < b"
  then show "length (udp_in w') < b" using stepsD(1) [OF assms(1)] by (fastforce simp: forward_def)
qed

lemma steps_bind_eats:
  assumes "steps (Suc b) P m" and "eats m" and "\<And>a. steps b always (f a)"
  shows "steps (Suc b) P (bindM m f)"
  using assms(1,3)
proof (rule steps_bind_from)
  fix s w a s' w'
  assume "m (s, w) = (Ok a, s', w')" and "length (udp_in w) < Suc b"
  then show "length (udp_in w') < b" using assms(2) unfolding eats_def by fastforce
qed

lemma steps_then [steps_rules]: "steps b P m \<Longrightarrow> steps b always k \<Longrightarrow> steps b P (thenM m k)"
  unfolding thenM_def by (rule steps_bind)

lemma steps_gets: "(\<And>a. steps b (\<lambda>s. P s \<and> g s = a) (f a)) \<Longrightarrow> steps b P (bindM (getsM g) f)"
  by (fastforce simp: steps_def bindM_def getsM_def)

lemma steps_now:
  assumes "\<And>a. steps b P (f a)"
  shows "steps b P (bindM nowM f)"
  unfolding steps_def
proof (intro allI impI)
  fix s w assume "P s"
  show "forward (s, w) (snd (bindM nowM f (s, w))) \<and> (length (udp_in w) < b \<longrightarrow> fst (bindM nowM f (s, w)) \<noteq> Err OutOfFuel)"
    using assms [unfolded steps_def, rule_format, OF \<open>P s\<close>, of "w\<lparr>ticks := ticks w + 1\<rparr>" "clock w (ticks w)"]
    by (simp add: bindM_def nowM_def forward_def)
qed

lemma steps_random:
  assumes "\<And>a. steps b P (f a)"
  shows "steps b P (bindM randomM f)"
  unfolding steps_def
proof (intro allI impI)
  fix s w assume "P s"
  show "forward (s, w) (snd (bindM randomM f (s, w))) \<and> (length (udp_in w) < b \<longrightarrow> fst (bindM randomM f (s, w)) \<noteq> Err OutOfFuel)"
    using assms [unfolded steps_def, rule_format, OF \<open>P s\<close>, of "w\<lparr>drawn := drawn w + 1\<rparr>" "random_u16 w (drawn w)"]
    by (simp add: bindM_def randomM_def forward_def)
qed

lemma steps_modify:
  "(\<And>s. P s \<Longrightarrow> evolves (sock_state s) (sock_state (g s)) \<and> unsent_queue (g s) = unsent_queue s) \<Longrightarrow> steps b P (modifyM g)"
  by (auto simp: steps_def modifyM_def forward_def)

lemma steps_modify_same [steps_rules]:
  "(\<And>s. sock_state (g s) = sock_state s \<and> unsent_queue (g s) = unsent_queue s) \<Longrightarrow> steps b P (modifyM g)"
  by (rule steps_modify) (simp add: evolves_def)

lemma steps_when [steps_rules]: "steps b P m \<Longrightarrow> steps b P (whenM c m)"
  by (simp add: whenM_def steps_simple)

lemma steps_ignore [steps_rules]:
  assumes "steps b P m"
  shows "steps b P (ignoreM m)"
  unfolding steps_def
proof (intro allI impI)
  fix s w assume "P s"
  obtain r s' w' where m: "m (s, w) = (r, s', w')" by (metis prod.collapse)
  note d = stepsD [OF assms \<open>P s\<close> m]
  show "forward (s, w) (snd (ignoreM m (s, w))) \<and> (length (udp_in w) < b \<longrightarrow> fst (ignoreM m (s, w)) \<noteq> Err OutOfFuel)"
  proof (cases r)
    case (Err e)
    then show ?thesis using m d by (cases e) (auto simp: ignoreM_def)
  qed (use m d in \<open>simp_all add: ignoreM_def\<close>)
qed

lemma steps_for [steps_rules]: "(\<And>x. steps b always (f x)) \<Longrightarrow> steps b always (forM xs f)"
  by (induction xs) (auto intro: steps_rules)

lemma steps_if [steps_rules]: "(c \<Longrightarrow> steps b P m) \<Longrightarrow> (\<not> c \<Longrightarrow> steps b P k) \<Longrightarrow> steps b P (if c then m else k)"
  by simp

lemma steps_option [steps_rules]: "steps b P m \<Longrightarrow> (\<And>a. steps b P (f a)) \<Longrightarrow> steps b P (case x of None \<Rightarrow> m | Some a \<Rightarrow> f a)"
  by (cases x) auto

lemma steps_list [steps_rules]: "steps b P m \<Longrightarrow> (\<And>x xs. steps b P (f x xs)) \<Longrightarrow> steps b P (case l of [] \<Rightarrow> m | x # xs \<Rightarrow> f x xs)"
  by (cases l) auto

lemma steps_outcome [steps_rules]:
  "(\<And>a. steps b P (f a)) \<Longrightarrow> (\<And>e. steps b P (g e)) \<Longrightarrow> steps b P k \<Longrightarrow> steps b P (case x of Ok a \<Rightarrow> f a | Err e \<Rightarrow> g e | Panic \<Rightarrow> k)"
  by (cases x) auto

lemma steps_pair [steps_rules]: "(\<And>x y. steps b P (f x y)) \<Longrightarrow> steps b P (case p of (x, y) \<Rightarrow> f x y)"
  by (cases p) auto

lemma steps_let [steps_rules]: "steps b P (f x) \<Longrightarrow> steps b P (let a = x in f a)"
  by simp

lemma steps_weaken: "steps c P m \<Longrightarrow> b \<le> c \<Longrightarrow> steps b P m"
  by (fastforce simp: steps_def)

section \<open>Handling a packet moves forward\<close>

lemma update_frames:
  "sock_state (update_base_delay d now s) = sock_state s" "unsent_queue (update_base_delay d now s) = unsent_queue s"
  "sock_state (update_current_delay d now s) = sock_state s" "unsent_queue (update_current_delay d now s) = unsent_queue s"
  "sock_state (update_congestion_timeout cd s) = sock_state s" "unsent_queue (update_congestion_timeout cd s) = unsent_queue s"
  "sock_state (update_congestion_window fl off n s) = sock_state s" "unsent_queue (update_congestion_window fl off n s) = unsent_queue s"
  "sock_state (advance_send_window s) = sock_state s" "unsent_queue (advance_send_window s) = unsent_queue s"
  "sock_state (insert_into_buffer p s) = sock_state s" "unsent_queue (insert_into_buffer p s) = unsent_queue s"
  by (simp_all add: update_base_delay_def update_current_delay_def update_congestion_timeout_def
      update_congestion_window_def advance_send_window_def insert_into_buffer_def Let_def split: option.split)

lemma advance_frame:
  "sock_state (snd (advance_incoming_buffer s)) = sock_state s" "unsent_queue (snd (advance_incoming_buffer s)) = unsent_queue s"
  by (simp_all add: advance_incoming_buffer_def split: list.split)

lemma flush_incoming_frame:
  assumes "flush_incoming_buffer n s = Ok (a, s')"
  shows "sock_state s' = sock_state s \<and> unsent_queue s' = unsent_queue s"
proof (cases "pending_data s = []")
  case True
  show ?thesis
  proof (cases "incoming_buffer s")
    case Nil
    then show ?thesis using assms True by (simp add: flush_incoming_buffer_def)
  next
    case (Cons p ps)
    then show ?thesis using assms True advance_frame
      by (auto simp: flush_incoming_buffer_def Let_def outcome_simps split: if_splits)
  qed
next
  case False
  obtain p s1 where adv: "advance_incoming_buffer (s\<lparr>pending_data := []\<rparr>) = (p, s1)" by (metis prod.collapse)
  then show ?thesis using assms False advance_frame [of "s\<lparr>pending_data := []\<rparr>"]
    by (cases p) (auto simp: flush_incoming_buffer_def Let_def outcome_simps split: if_splits)
qed

lemma steps_flush_incoming [steps_rules]: "steps b P (stepM (flush_incoming_buffer n))"
  unfolding steps_def
proof (intro allI impI)
  fix s w
  show "forward (s, w) (snd (stepM (flush_incoming_buffer n) (s, w))) \<and>
    (length (udp_in w) < b \<longrightarrow> fst (stepM (flush_incoming_buffer n) (s, w)) \<noteq> Err OutOfFuel)"
  proof (cases "flush_incoming_buffer n s")
    case (Ok x)
    then show ?thesis using flush_incoming_frame by (cases x) (fastforce simp: stepM_def forward_def evolves_def)
  qed (simp_all add: stepM_def)
qed

lemma steps_replies [steps_rules]:
  "steps b P (prepare_reply p t)" "steps b P (reply_some p t)" "steps b P (fin_packet)" "steps b P (with_sack p q)"
  "steps b P (handle_data_packet p)" "steps b P send_fast_resend_request"
  unfolding reply_some_def prepare_reply_def fin_packet_def with_sack_def handle_data_packet_def send_fast_resend_request_def
  by (intro steps_rules steps_pre; simp)+

lemma steps_congestion [steps_rules]: "steps b P (count_ack p)" "steps b P (update_congestion p)"
  unfolding count_ack_def update_congestion_def by (intro steps_rules; simp add: update_frames)+

lemma steps_receive_timeout [steps_rules]: "steps b P handle_receive_timeout"
  unfolding handle_receive_timeout_def by (intro steps_rules; simp)

lemma steps_wait_window [steps_rules]:
  "(\<And>n. steps b always (rcv n :: ('f, bytes \<times> SocketAddr) utp)) \<Longrightarrow> (\<And>n. eats (rcv n)) \<Longrightarrow> b \<le> k \<Longrightarrow>
   steps b P (wait_window k rcv m now)"
proof (induction k arbitrary: b P)
  case 0
  then show ?case by (simp add: steps_def stopM_def)
next
  case (Suc k)
  show ?case
  proof (cases b)
    case 0
    have "steps 0 P' (wait_window k rcv m now)" for P' using Suc.IH [of 0 P'] Suc.prems steps_weaken by blast
    then show ?thesis using 0 Suc.prems(1) unfolding wait_window.simps by (intro steps_rules) (simp_all add: steps_pre)
  next
    case (Suc c)
    have "steps c always (rcv n)" for n using Suc.prems(1) Suc steps_weaken by (metis le_SucI order_refl)
    then have IH: "steps c always (wait_window k rcv m now)" using Suc.IH [of c always] Suc.prems Suc by simp
    have round: "steps b always (bindM (rcv BUF_SIZE) (\<lambda>_. wait_window k rcv m now))"
      unfolding Suc by (rule steps_bind_eats) (use Suc.prems Suc IH in auto)
    show ?thesis unfolding wait_window.simps
      by (rule steps_bind, rule steps_simple, rule steps_if, rule steps_bind, rule steps_simple, rule steps_if, rule round)
        (rule steps_simple)+
  qed
qed

text \<open>What the operations below need from the receiver they call.\<close>

definition fit_receiver :: "nat \<Rightarrow> nat \<Rightarrow> 'f receiver \<Rightarrow> bool" where
  "fit_receiver b k rcv \<longleftrightarrow> (\<forall>n. steps b always (rcv n) \<and> eats (rcv n)) \<and> b \<le> k"

lemma steps_send_packet [steps_rules]: "fit_receiver b k rcv \<Longrightarrow> steps b P (send_packet k rcv p)"
  unfolding send_packet_def fit_receiver_def by (intro steps_rules) auto

lemma steps_resend [steps_rules]: "fit_receiver b k rcv \<Longrightarrow> steps b P (resend_lost_packet k rcv nr)"
  unfolding resend_lost_packet_def by (intro steps_rules)

lemma steps_process_extensions [steps_rules]: "fit_receiver b k rcv \<Longrightarrow> steps b P (process_extensions k rcv p es d)"
  by (induction es arbitrary: d P) (auto simp: process_extension_def intro!: steps_rules)

lemma steps_handle_state_packet [steps_rules]: "fit_receiver b k rcv \<Longrightarrow> steps b P (handle_state_packet k rcv p)"
  unfolding handle_state_packet_def by (intro steps_rules; simp add: update_frames)

lemma steps_accept_syn: "steps b (\<lambda>s. True \<and> sock_state s = New) (accept_syn p src)"
  unfolding accept_syn_def
  by (rule steps_random, rule steps_then, rule steps_modify, simp add: evolves_def, intro steps_rules)

lemma steps_complete_syn: "steps b (\<lambda>s. True \<and> sock_state s = SynSent) (complete_syn p src)"
  unfolding complete_syn_def
  by (rule steps_then, rule steps_modify, simp add: evolves_def, intro steps_rules) simp

lemma steps_end_state: "st = Closed \<or> st = ResetReceived \<Longrightarrow> steps b P (modifyM (\<lambda>s. s\<lparr>sock_state := st\<rparr>))"
  by (rule steps_modify) (auto simp: evolves_def)

lemma steps_handle_fin [steps_rules]: "steps b P (handle_fin p)"
  unfolding handle_fin_def by (intro steps_rules steps_end_state) simp

lemma steps_dispatch [steps_rules]:
  assumes "fit_receiver b k rcv"
  shows "steps b P (dispatch k rcv p src t)"
proof (rule steps_pre)
  have fin: "steps b P' (bindM (getsM sock_seq_nr) (\<lambda>seq.
      thenM (if packet_ack_nr p = seq then modifyM (\<lambda>s. s\<lparr>sock_state := Closed\<rparr>) else handle_state_packet k rcv p) (ret None)))" for P'
    using assms by (intro steps_rules steps_end_state) simp_all
  have reset: "steps b P' (thenM (modifyM (\<lambda>s. s\<lparr>sock_state := ResetReceived\<rparr>)) (failM SeConnectionReset))" for P'
    by (intro steps_rules steps_end_state) simp
  have state: "steps b P' (thenM (handle_state_packet k rcv p) (ret None))" for P'
    using assms by (intro steps_rules)
  show "steps b always (dispatch k rcv p src t)"
    unfolding dispatch_def
  proof (rule steps_gets)
    fix st
    note cs = fin reset state steps_accept_syn steps_complete_syn steps_replies steps_handle_fin steps_simple
    show "steps b (\<lambda>s. True \<and> sock_state s = st) (case (st, t) of
         (New, Syn) \<Rightarrow> accept_syn p src
       | (_, Syn) \<Rightarrow> reply_some p Reset
       | (SynSent, State) \<Rightarrow> complete_syn p src
       | (SynSent, _) \<Rightarrow> failM SeInvalidReply
       | (Connected, Data) \<Rightarrow> handle_data_packet p
       | (FinSent, Data) \<Rightarrow> handle_data_packet p
       | (Connected, State) \<Rightarrow> thenM (handle_state_packet k rcv p) (ret None)
       | (Connected, Fin) \<Rightarrow> handle_fin p
       | (FinSent, Fin) \<Rightarrow> handle_fin p
       | (Closed, Fin) \<Rightarrow> reply_some p State
       | (FinSent, State) \<Rightarrow>
           bindM (getsM sock_seq_nr) (\<lambda>seq.
             thenM (if packet_ack_nr p = seq then modifyM (\<lambda>s. s\<lparr>sock_state := Closed\<rparr>)
                    else handle_state_packet k rcv p) (ret None))
       | (_, Reset) \<Rightarrow> thenM (modifyM (\<lambda>s. s\<lparr>sock_state := ResetReceived\<rparr>)) (failM SeConnectionReset)
       | (_, _) \<Rightarrow> failM SeOther)"
      by (cases st; cases t; simp only: SocketState.case PacketType.case prod.case cs)
  qed
qed

lemma steps_handle_packet [steps_rules]: "fit_receiver b k rcv \<Longrightarrow> steps b P (handle_packet k rcv p src)"
  unfolding handle_packet_def by (intro steps_rules; simp)

section \<open>Receiving consumes datagrams\<close>

lemma eats_bind: "eats m \<Longrightarrow> (\<And>a. steps b always (f a)) \<Longrightarrow> eats (bindM m f)"
  unfolding eats_def
proof (intro allI impI)
  fix s w a st'
  assume m: "\<forall>s w a st'. m (s, w) = (Ok a, st') \<longrightarrow> length (udp_in (snd st')) < length (udp_in w)"
    and f: "\<And>a. steps b always (f a)" and r: "bindM m f (s, w) = (Ok a, st')"
  obtain x s1 w1 where 1: "m (s, w) = (Ok x, s1, w1)" and 2: "f x (s1, w1) = (Ok a, st')"
    using r by (auto simp: bindM_def split: outcome.splits prod.splits)
  then show "length (udp_in (snd st')) < length (udp_in w)"
    using m stepsD(1) [OF f TrueI, of x s1 w1] by (cases st') (fastforce simp: forward_def)
qed

lemma eats_skip:
  assumes "steps b always m" and "\<And>a. eats (f a)"
  shows "eats (bindM m f)"
  unfolding eats_def
proof (intro allI impI)
  fix s w a st'
  assume r: "bindM m f (s, w) = (Ok a, st')"
  obtain x s1 w1 where 1: "m (s, w) = (Ok x, s1, w1)" and 2: "f x (s1, w1) = (Ok a, st')"
    using r by (auto simp: bindM_def split: outcome.splits prod.splits)
  then show "length (udp_in (snd st')) < length (udp_in w)"
    using assms(2) [of x] stepsD(1) [OF assms(1) TrueI 1] unfolding eats_def by (fastforce simp: forward_def)
qed

lemma steps_recv_loop [steps_rules]: "steps b P (recv_loop n)"
  by (induction n arbitrary: P) (auto intro!: steps_rules steps_end_state)

lemma eats_recv_from: "eats (udp_recv_from n)"
  by (auto simp: eats_def udp_recv_from_def split: list.splits recv_event.splits)

lemma eats_recv_loop: "eats (recv_loop n)"
proof (induction n)
  case 0
  then show ?case by (simp add: eats_def monad_defs)
next
  case (Suc n)
  show ?case unfolding recv_loop.simps thenM_def
    by (rule eats_skip [of 0], rule steps_simple, rule eats_skip [of 0], rule steps_simple, rule eats_bind [of _ 0], rule eats_recv_from)
      (intro steps_rules)
qed

lemma recv_fit:
  assumes "fit_receiver k k rcv"
  shows "steps (Suc k) always (recv_body k rcv n)" and "eats (recv_body k rcv n)"
proof -
  have rest: "steps k always (case x of (b, src) \<Rightarrow> case packet_try_from b of
         Ok packet \<Rightarrow>
           bindM (handle_packet k rcv packet src) (\<lambda>reply.
           thenM (case reply of Some pkt \<Rightarrow> udp_send_to (set_wnd_size WINDOW_SIZE pkt) src | None \<Rightarrow> ret ())
           (bindM (liftM (get_type packet)) (\<lambda>t.
            thenM (modifyM (\<lambda>s. if t = Data \<and> packet_seq_nr packet - last_dropped s > 0 then insert_into_buffer packet s else s))
            (bindM (stepM (flush_incoming_buffer n)) (\<lambda>read. ret (read, src))))))
       | Err e \<Rightarrow> getsM (\<lambda>s. ([], connected_to s))
       | Panic \<Rightarrow> panicM)" for x
    using assms by (intro steps_rules) (simp_all add: update_frames)
  note parts = steps_bind_eats [OF steps_recv_loop eats_recv_loop rest] eats_bind [OF eats_recv_loop rest]
  show "steps (Suc k) always (recv_body k rcv n)"
    unfolding recv_body_def by (rule steps_bind, rule steps_simple, rule parts)
  show "eats (recv_body k rcv n)"
    unfolding recv_body_def by (rule eats_skip [of 0], rule steps_simple, rule parts)
qed

lemma fit_recv: "fit_receiver k k (recv k)"
proof (induction k)
  case 0
  then show ?case by (simp add: fit_receiver_def steps_def eats_def stopM_def)
next
  case (Suc k)
  then show ?case using recv_fit [OF Suc] by (simp add: fit_receiver_def)
qed

lemma steps_recv [steps_rules]: "steps k P (recv k n)"
  using fit_recv [of k, unfolded fit_receiver_def] steps_pre by blast

lemma eats_recv: "eats (recv k n)"
  using fit_recv [of k, unfolded fit_receiver_def] by blast

text \<open>A loop that receives in every round; its fuel \<open>j\<close> is enough for fewer than \<open>j\<close> datagrams.\<close>

lemma steps_receive_loop:
  assumes L0: "L 0 = stopM OutOfFuel"
    and LS: "\<And>j. L (Suc j) = bindM (getsM g) (\<lambda>x. if c x then d x else bindM (rcv :: ('f, 'x) utp) (K j))"
    and d: "\<And>b x. steps b always (d x)" and rcv: "steps B always rcv" "eats rcv"
    and K: "\<And>j y b. steps b always (L j) \<Longrightarrow> steps b always (K j y)"
  shows "b \<le> j \<Longrightarrow> b \<le> B \<Longrightarrow> steps b P (L j)"
proof (induction j arbitrary: b P)
  case 0
  then show ?case by (simp add: L0 steps_def stopM_def)
next
  case (Suc j)
  have round: "steps b always (bindM rcv (K j))"
  proof (cases b)
    case 0
    then show ?thesis using Suc K [of 0] steps_weaken [OF rcv(1)] by (intro steps_bind) auto
  next
    case (Suc b')
    then have "steps (Suc b') always rcv" using Suc.prems steps_weaken [OF rcv(1)] by simp
    moreover have "steps b' always (K j y)" for y using Suc Suc.IH Suc.prems by (intro K) simp
    ultimately show ?thesis unfolding Suc by (intro steps_bind_eats rcv(2))
  qed
  show ?case unfolding LS by (rule steps_bind, rule steps_simple, rule steps_if, rule d, rule round)
qed

lemma steps_recv_from [steps_rules]: "steps k P (recv_from k n)"
proof -
  have "steps k P' (recv_from_loop k k n)" for P'
    by (rule steps_receive_loop [where L = "\<lambda>j. recv_from_loop j k n" and g = id and c = "\<lambda>s. sock_state s = Closed" and B = k
          and d = "\<lambda>s. ret ([], connected_to s)" and rcv = "recv k n"
          and K = "\<lambda>j (read, src). if read = [] then recv_from_loop j k n else ret (read, src)"])
      (auto intro: steps_rules eats_recv simp: case_prod_beta')
  then show ?thesis unfolding recv_from_def by (intro steps_rules)
qed

lemma steps_flush [steps_rules]: "steps k P (flush k)"
  unfolding flush_def
  by (rule steps_receive_loop [where L = "\<lambda>j. flush_loop j k" and g = send_window and c = "\<lambda>sw. sw = []" and B = k
          and d = "\<lambda>_. ret ()" and rcv = "recv k 0" and K = "\<lambda>j _. flush_loop j k"])
    (auto intro: steps_rules eats_recv)

lemma steps_close_loop [steps_rules]: "steps k P (close_loop k k)"
  by (rule steps_receive_loop [where L = "\<lambda>j. close_loop j k" and g = sock_state and c = "\<lambda>st. st = Closed" and B = k
          and d = "\<lambda>_. ret ()" and rcv = "recv k BUF_SIZE" and K = "\<lambda>j _. close_loop j k"])
    (auto intro: steps_rules eats_recv)

section \<open>Enough fuel\<close>

definition enough :: "nat \<Rightarrow> ('f, 'a) utp \<Rightarrow> bool" where
  "enough b m \<longleftrightarrow> (\<forall>s w. length (udp_in w) < b \<longrightarrow>
     fst (m (s, w)) \<noteq> Err OutOfFuel \<and> length (udp_in (snd (snd (m (s, w))))) < b)"

lemma enough_steps: "steps b always m \<Longrightarrow> enough b m"
  unfolding steps_def enough_def forward_def by (simp, meson order_le_less_trans)

lemma enough_modify: "enough b (modifyM g)"
  by (simp add: enough_def modifyM_def)

lemma enough_bind:
  assumes "enough b (m :: ('f, 'a) utp)" and "\<And>a. enough b (f a)"
  shows "enough b (bindM m f)"
  unfolding enough_def
proof (intro allI impI)
  fix s and w :: "'f World" assume w: "length (udp_in w) < b"
  obtain r s' w' where m: "m (s, w) = (r, s', w')" by (metis prod.collapse)
  then have d: "r \<noteq> Err OutOfFuel" "length (udp_in w') < b"
    using assms(1) w unfolding enough_def by (metis fst_conv snd_conv)+
  show "fst (bindM m f (s, w)) \<noteq> Err OutOfFuel \<and> length (udp_in (snd (snd (bindM m f (s, w))))) < b"
    using m d assms(2) [unfolded enough_def] by (cases r) (auto simp: bindM_def)
qed

lemma enough_then: "enough b m \<Longrightarrow> enough b k \<Longrightarrow> enough b (thenM m k)"
  unfolding thenM_def by (rule enough_bind)

lemma enough_if: "enough b m \<Longrightarrow> enough b k \<Longrightarrow> enough b (if c then m else k)"
  by simp

lemma enough_close: "enough k (close k)"
  unfolding close_def
  by (rule enough_bind, rule enough_steps, rule steps_rules, rule enough_if, rule enough_steps, rule steps_rules,
      rule enough_then, rule enough_steps, rule steps_flush, rule enough_bind, rule enough_steps, rule steps_replies,
      rule enough_bind, rule enough_steps, rule steps_rules, rule enough_then, rule enough_steps, rule steps_rules,
      rule enough_then, rule enough_modify, rule enough_steps, rule steps_close_loop)

lemma enough_send_loop:
  assumes "length (unsent_queue s) < j" and "length (udp_in w) < k"
  shows "fst (send_loop j k (s, w)) \<noteq> Err OutOfFuel"
  using assms
proof (induction j arbitrary: s w)
  case (Suc j)
  show ?case
  proof (cases "unsent_queue s")
    case Nil
    then show ?thesis by (simp add: monad_defs)
  next
    case (Cons p ps)
    let ?s = "s\<lparr>unsent_queue := ps\<rparr>"
    obtain r s' w' where m: "send_packet k (recv k) p (?s, w) = (r, s', w')" by (metis prod.collapse)
    note d = stepsD [OF steps_send_packet [OF fit_recv, of k always p] TrueI m]
    have l: "length (unsent_queue s') < j" and w': "length (udp_in w') < k" and "r \<noteq> Err OutOfFuel"
      using d Suc.prems Cons by (auto simp: forward_def)
    have unfolded: "send_loop (Suc j) k (s, w) = bindM (send_packet k (recv k) p) (\<lambda>packet.
        thenM (modifyM (\<lambda>s. s\<lparr>curr_window := curr_window s + of_nat (length packet), send_window := send_window s @ [packet]\<rparr>))
        (send_loop j k)) (?s, w)"
      using Cons by (simp add: bindM_def thenM_def getsM_def modifyM_def)
    show ?thesis
    proof (cases r)
      case (Ok x)
      let ?s' = "s'\<lparr>curr_window := curr_window s' + of_nat (length x), send_window := send_window s' @ [x]\<rparr>"
      have "send_loop (Suc j) k (s, w) = send_loop j k (?s', w')"
        unfolding unfolded using m Ok by (simp add: bindM_def thenM_def modifyM_def)
      then show ?thesis using Suc.IH [of ?s' w'] l w' by simp
    next
      case (Err e)
      then have "send_loop (Suc j) k (s, w) = (Err e, s', w')" unfolding unfolded using m by (simp add: bindM_def)
      then show ?thesis using Err \<open>r \<noteq> Err OutOfFuel\<close> by simp
    next
      case Panic
      then have "send_loop (Suc j) k (s, w) = (Panic, s', w')" unfolding unfolded using m by (simp add: bindM_def)
      then show ?thesis by simp
    qed
  qed
qed simp

lemma recv_from_loop_nothing:
  "recv_from_loop j k n (s, w) = (Ok ([], a), s', w') \<Longrightarrow> sock_state s' = Closed"
proof (induction j arbitrary: s w)
  case (Suc j)
  show ?case
  proof (cases "sock_state s = Closed")
    case True
    then show ?thesis using Suc.prems by (simp add: bindM_def getsM_def ret_def)
  next
    case False
    obtain r s1 w1 where m: "recv k n (s, w) = (r, s1, w1)" by (metis prod.collapse)
    have eq: "recv_from_loop (Suc j) k n (s, w) =
        bindM (recv k n) (\<lambda>(read, src). if read = [] then recv_from_loop j k n else ret (read, src)) (s, w)"
      using False by (simp add: bindM_def getsM_def)
    show ?thesis
    proof (cases r)
      case (Ok x)
      then show ?thesis using Suc m eq by (cases x) (auto simp: bindM_def ret_def split: if_splits)
    qed (use Suc.prems m eq in \<open>simp_all add: bindM_def\<close>)
  qed
qed (simp add: stopM_def)

lemma recv_from_nothing:
  assumes "recv_from k n (s, w) = (Ok ([], a), s', w')"
  shows "sock_state s' = Closed"
proof (cases "flush_incoming_buffer n s")
  case (Ok x)
  obtain read s1 where x: "x = (read, s1)" by (cases x)
  have "recv_from_loop k k n (s1, w) = (Ok ([], a), s', w')"
    using assms Ok x by (auto simp: recv_from_def bindM_def getsM_def stepM_def ret_def failM_def stopM_def split: if_splits)
  then show ?thesis by (rule recv_from_loop_nothing)
qed (use assms in \<open>simp_all add: recv_from_def bindM_def stepM_def\<close>)

section \<open>Properties\<close>

text \<open>
  C14. The calls of a socket come back: with more fuel than datagrams to come, receiving, sending, flushing
  and closing never run out of fuel, although receiving, handling acknowledgements and resending call each
  other.
\<close>

theorem utp_calls_return:
  fixes w :: "'f World"
  assumes "length (udp_in w) < k"
  shows "fst (recv_from k n (s, w)) \<noteq> Err OutOfFuel \<and> fst (send_to k b (s, w)) \<noteq> Err OutOfFuel \<and>
    fst (flush k (s, w)) \<noteq> Err OutOfFuel \<and> fst (close k (s, w)) \<noteq> Err OutOfFuel"
proof -
  have "enough k (recv_from k n)" "enough k (flush k)" "enough k (close k)"
    by (intro enough_steps steps_rules, intro enough_steps steps_rules, rule enough_close)
  then have "fst (recv_from k n (s, w)) \<noteq> Err OutOfFuel" "fst (flush k (s, w)) \<noteq> Err OutOfFuel"
    "fst (close k (s, w)) \<noteq> Err OutOfFuel"
    using assms unfolding enough_def by blast+
  moreover have "fst (send_to k b (s, w)) \<noteq> Err OutOfFuel"
  proof (cases "sock_state s = Closed")
    case False
    let ?s = "queue_data b s"
    define m where "m = (send_loop (length (unsent_queue ?s) + 1) k :: ('f, unit) utp)"
    have "fst (m (?s, w)) \<noteq> Err OutOfFuel" unfolding m_def by (rule enough_send_loop [OF _ assms]) simp
    moreover have "send_to k b (s, w) = bindM m (\<lambda>_. ret (length b)) (?s, w)"
      using False by (simp only: send_to_def send_def bindM_def thenM_def getsM_def modifyM_def m_def [symmetric] prod.case outcome.case if_False)
    ultimately show ?thesis by (cases "m (?s, w)"; cases "fst (m (?s, w))") (auto simp: bindM_def ret_def)
  qed (simp add: send_to_def bindM_def getsM_def failM_def stopM_def)
  ultimately show ?thesis by blast
qed

theorem utp_calls_return_witness:
  "fst (recv_from 2 9 (from_raw_parts sample_addr 7, sample_world [Datagram packet_new sample_addr])) \<noteq> Err OutOfFuel"
  using utp_calls_return [of "sample_world [Datagram packet_new sample_addr]" 2 9 "from_raw_parts sample_addr 7" "[]"]
  by (simp add: sample_world_def)

text \<open>
  C17. While a socket receives, its state only moves forward: a closed or reset connection is never reopened, a
  connection is established only from a new or connecting socket, and unsent packets stay queued. Reading
  returns no bytes only when the socket is closed.
\<close>

theorem utp_receive_forward:
  assumes "recv_from k n (s, w) = (r, s', w')"
  shows "evolves (sock_state s) (sock_state s') \<and> unsent_queue s' = unsent_queue s \<and>
    (\<forall>a. r = Ok ([], a) \<longrightarrow> sock_state s' = Closed)"
  using stepsD(1) [OF steps_recv_from TrueI assms] recv_from_nothing assms by (auto simp: forward_def)

theorem utp_receive_forward_witness:
  "\<exists>r s' w'. recv_from 1 9 (from_raw_parts sample_addr 7, sample_world []) = (r, s', w') \<and> evolves New (sock_state s')"
proof -
  obtain r s' w' where m: "recv_from 1 9 (from_raw_parts sample_addr 7, sample_world []) = (r, s', w')"
    by (metis prod.collapse)
  moreover have "sock_state (from_raw_parts sample_addr 7) = New" by (simp add: from_raw_parts_def split: prod.split)
  ultimately show ?thesis using utp_receive_forward [OF m] by auto
qed

end
