(* ===== verification/Utp_Buffers.thy ===== *)
theory Utp_Buffers
  imports Utp_Window
begin

text \<open>
  The write path of the uTP socket: cutting what is written into packets.
\<close>

section \<open>Writing\<close>

lemma chunks_step: "xs \<noteq> [] \<Longrightarrow> 0 < n \<Longrightarrow> chunks n xs = take n xs # chunks n (drop n xs)"
  by (subst chunks.simps) simp

lemma chunks_Nil: "chunks n [] = []"
  by (subst chunks.simps) simp

lemma concat_chunks: "0 < n \<Longrightarrow> concat (chunks n xs) = xs"
proof (induction "length xs" arbitrary: xs rule: less_induct)
  case less
  show ?case
  proof (cases "xs = []")
    case False
    then have "concat (chunks n (drop n xs)) = drop n xs" using less by simp
    with False less.prems show ?thesis by (simp add: chunks_step)
  qed (simp add: chunks_Nil)
qed

lemma chunks_size: "0 < n \<Longrightarrow> c \<in> set (chunks n xs) \<Longrightarrow> c \<noteq> [] \<and> length c \<le> n"
proof (induction "length xs" arbitrary: xs rule: less_induct)
  case less
  show ?case
  proof (cases "xs = []")
    case False
    then have "c = take n xs \<or> c \<in> set (chunks n (drop n xs))" using less.prems by (simp add: chunks_step)
    then show ?thesis using less.hyps [of "drop n xs"] less.prems(1) False by auto
  qed (use less.prems in \<open>simp add: chunks_Nil\<close>)
qed

lemma with_payload_repr: "packet_repr (with_payload c) [] c"
proof -
  have "(header_as_ref (header_set_type Data header_default) @ c) ! 1 = extension (header_set_type Data header_default)"
    by (simp add: header_as_ref_def)
  then show ?thesis by (simp add: packet_repr_def with_payload_def header_set_type_def header_default_def)
qed

lemma with_payload_ok: "packet_try_from (with_payload c) = Ok (with_payload c)"
proof -
  have "with_payload c ! 0 = 1"
    by (simp add: with_payload_def header_as_ref_def header_set_type_def header_default_def)
  moreover have "header_ok 1" by code_simp
  ultimately show ?thesis using with_payload_repr by (auto simp: packet_try_from_Ok)
qed

definition chunk_packet :: "UtpSocket \<Rightarrow> u16 \<Rightarrow> bytes \<Rightarrow> Packet" where
  "chunk_packet s seq c =
     set_connection_id (sender_connection_id s) (set_ack_nr (sock_ack_nr s) (set_seq_nr seq
       (set_wnd_size (WINDOW_SIZE - of_nat (length (send_window s))) (with_payload c))))"

lemma chunk_packet_facts:
  "packet_try_from (chunk_packet s seq c) = Ok (chunk_packet s seq c)" "payload (chunk_packet s seq c) = Ok c"
  "packet_seq_nr (chunk_packet s seq c) = seq" "length (chunk_packet s seq c) = 20 + length c"
proof -
  show "packet_try_from (chunk_packet s seq c) = Ok (chunk_packet s seq c)" "payload (chunk_packet s seq c) = Ok c"
    using with_payload_ok payload_repr [OF with_payload_repr] by (simp_all add: chunk_packet_def fields_keep)
  show "packet_seq_nr (chunk_packet s seq c) = seq"
    by (simp add: chunk_packet_def packet_seq_nr_def setter_defs)
  show "length (chunk_packet s seq c) = 20 + length c"
    by (simp add: chunk_packet_def setter_defs with_payload_def)
qed

lemma fold_queue_chunk:
  "fold queue_chunk cs s =
     s\<lparr>unsent_queue := unsent_queue s @ map (\<lambda>(i, c). chunk_packet s (sock_seq_nr s + of_nat i) c) (enumerate 0 cs),
       sock_seq_nr := sock_seq_nr s + of_nat (length cs)\<rparr>"
proof (induction cs arbitrary: s)
  case (Cons c cs)
  have q: "queue_chunk c s = s\<lparr>unsent_queue := unsent_queue s @ [chunk_packet s (sock_seq_nr s) c], sock_seq_nr := sock_seq_nr s + 1\<rparr>"
    by (simp add: queue_chunk_def chunk_packet_def Let_def)
  have "chunk_packet (queue_chunk c s) seq d = chunk_packet s seq d" for seq d
    by (simp add: q chunk_packet_def)
  moreover have "enumerate 0 (c # cs) = (0, c) # map (\<lambda>(i, x). (Suc i, x)) (enumerate 0 cs)"
    by (auto simp: enumerate_Suc_eq)
  ultimately show ?case using Cons.IH [of "queue_chunk c s"]
    by (simp add: q o_def case_prod_beta' add.assoc)
qed simp

lemma queue_data_packets:
  "\<exists>ps cs. unsent_queue (queue_data buf s) = unsent_queue s @ ps \<and> map payload ps = map Ok cs \<and> concat cs = buf \<and> [] \<notin> set cs \<and>
     map packet_seq_nr ps = map (\<lambda>i. sock_seq_nr s + of_nat i) [0..<length ps] \<and>
     sock_seq_nr (queue_data buf s) = sock_seq_nr s + of_nat (length ps) \<and>
     list_all (\<lambda>p. packet_try_from p = Ok p \<and> length p \<le> unat MSS) ps"
proof -
  let ?cs = "chunks (unat MSS - HEADER_SIZE) buf"
  define es where "es = enumerate 0 ?cs"
  let ?ps = "map (\<lambda>(i, c). chunk_packet s (sock_seq_nr s + of_nat i) c) es"
  have es: "map fst es = [0..<length ?ps]" "map snd es = ?cs" by (simp_all add: es_def)
  have n: "unat MSS - HEADER_SIZE = 1380" by (simp add: MSS_def HEADER_SIZE_def)
  have small: "c \<in> set ?cs \<Longrightarrow> 20 + length c \<le> unat MSS" for c
    using chunks_size [of 1380 c buf] unfolding n by (simp add: MSS_def)
  have "map payload ?ps = map Ok (map snd es)" by (auto simp: chunk_packet_facts)
  moreover have "map packet_seq_nr ?ps = map (\<lambda>i. sock_seq_nr s + of_nat i) (map fst es)"
    by (auto simp: chunk_packet_facts)
  moreover have "list_all (\<lambda>p. packet_try_from p = Ok p \<and> length p \<le> unat MSS) ?ps"
  proof -
    have "snd e \<in> set ?cs" if "e \<in> set es" for e
      using that es(2) by (metis image_eqI list.set_map)
    then show ?thesis using small by (fastforce simp: list_all_iff chunk_packet_facts)
  qed
  moreover have "[] \<notin> set ?cs" using chunks_size [of 1380 "[]" buf] unfolding n by force
  moreover have "concat ?cs = buf" by (rule concat_chunks) (simp add: n)
  moreover have "unsent_queue (queue_data buf s) = unsent_queue s @ ?ps"
      "sock_seq_nr (queue_data buf s) = sock_seq_nr s + of_nat (length ?ps)"
    by (simp_all add: queue_data_def fold_queue_chunk es_def)
  ultimately show ?thesis unfolding es by blast
qed

text \<open>
  Writing queues packets of at most 1400 bytes whose payloads are the written data in order and whose
  sequence numbers count up, wrapping around; every one of them is accepted by the parser.
\<close>

theorem send_to_queues_data:
  "\<exists>ps cs. unsent_queue (queue_data buf s) = unsent_queue s @ ps \<and> map payload ps = map Ok cs \<and> concat cs = buf \<and>
     map packet_seq_nr ps = map (\<lambda>i. sock_seq_nr s + of_nat i) [0..<length ps] \<and>
     sock_seq_nr (queue_data buf s) = sock_seq_nr s + of_nat (length ps) \<and>
     list_all (\<lambda>p. packet_try_from p = Ok p \<and> length p \<le> unat MSS) ps"
  using queue_data_packets [of buf s] by blast

end
