(* ===== verification/Utp_Stream.thy ===== *)
theory Utp_Stream
  imports Utp_Buffers
begin

text \<open>
  The read path of the uTP socket: packets arrive in any order, are kept in the incoming buffer and are
  read back as the stream that was written.
\<close>

section \<open>Reading the incoming buffer\<close>

text \<open>Repeated reads with a buffer of \<open>n\<close> bytes, and what they return.\<close>

primrec read_all :: "nat \<Rightarrow> nat \<Rightarrow> UtpSocket \<Rightarrow> (unit, bytes \<times> UtpSocket) outcome" where
  "read_all 0 n s = Ok ([], s)"
| "read_all (Suc k) n s =
     try_bind (flush_incoming_buffer n s) (\<lambda>(bs, s'). try_bind (read_all k n s') (\<lambda>(cs, s''). Ok (bs @ cs, s'')))"

fun consecutive :: "u16 \<Rightarrow> Packet list \<Rightarrow> u16 \<Rightarrow> bool" where
  "consecutive a [] e \<longleftrightarrow> a = e"
| "consecutive a (p # ps) e \<longleftrightarrow> packet_seq_nr p = a + 1 \<and> consecutive (a + 1) ps e"

definition readable :: "u16 \<Rightarrow> bytes \<Rightarrow> UtpSocket \<Rightarrow> bool" where
  "readable e bs s \<longleftrightarrow> (\<exists>a cs. consecutive a (incoming_buffer s) e \<and>
     (sock_ack_nr s = a \<or> incoming_buffer s \<noteq> [] \<and> sock_ack_nr s = a + 1) \<and>
     map payload (incoming_buffer s) = map Ok cs \<and> [] \<notin> set cs \<and> bs = pending_data s @ concat cs)"

lemma flush_readable:
  assumes "readable e bs s" and "0 < n"
  shows "\<exists>xs ys s'. flush_incoming_buffer n s = Ok (xs, s') \<and> bs = xs @ ys \<and> readable e ys s' \<and> (bs \<noteq> [] \<longrightarrow> xs \<noteq> [])"
proof -
  obtain a cs where c: "consecutive a (incoming_buffer s) e"
      and a: "sock_ack_nr s = a \<or> incoming_buffer s \<noteq> [] \<and> sock_ack_nr s = a + 1"
      and p: "map payload (incoming_buffer s) = map Ok cs" and ne: "[] \<notin> set cs" and bs: "bs = pending_data s @ concat cs"
    using assms(1) unfolding readable_def by blast
  show ?thesis
  proof (cases "incoming_buffer s")
    case Nil
    then show ?thesis using assms(2) bs p c a
      by (cases "length (pending_data s) \<le> n")
        (auto simp: flush_incoming_buffer_def advance_incoming_buffer_def Let_def readable_def)
  next
    case (Cons q qs)
    then obtain d ds where cs: "cs = d # ds" and d: "payload q = Ok d" and ds: "map payload qs = map Ok ds"
      using p by (cases cs) auto
    have q: "packet_seq_nr q = a + 1" "consecutive (a + 1) qs e" using c Cons by auto
    show ?thesis
    proof (cases "pending_data s = []")
      case True
      let ?s = "s\<lparr>incoming_buffer := qs, sock_ack_nr := a + 1, last_dropped := a + 1, pending_data := drop n d\<rparr>"
      have "readable e (drop n d @ concat ds) ?s"
        using q ds ne cs unfolding readable_def by (intro exI [of _ "a + 1"] exI [of _ ds]) simp
      moreover have "flush_incoming_buffer n s = Ok (take n d, ?s)"
        using True Cons a q d by (cases "length d \<le> n") (auto simp: flush_incoming_buffer_def advance_incoming_buffer_def Let_def)
      moreover have "bs = take n d @ drop n d @ concat ds" using True bs cs by simp
      moreover have "take n d \<noteq> []" using ne cs assms(2) by auto
      ultimately show ?thesis by blast
    next
      case pending: False
      show ?thesis
      proof (cases "length (pending_data s) \<le> n")
        case True
        let ?s = "s\<lparr>incoming_buffer := qs, sock_ack_nr := a + 1, last_dropped := a + 1, pending_data := d\<rparr>"
        have "readable e (d @ concat ds) ?s"
          using q ds ne cs unfolding readable_def by (intro exI [of _ "a + 1"] exI [of _ ds]) simp
        moreover have "flush_incoming_buffer n s = Ok (pending_data s, ?s)"
          using pending True Cons q d by (auto simp: flush_incoming_buffer_def advance_incoming_buffer_def Let_def)
        ultimately show ?thesis using bs cs pending by auto
      next
        case False
        let ?s = "s\<lparr>pending_data := drop n (pending_data s)\<rparr>"
        have "readable e (drop n (pending_data s) @ concat cs) ?s"
          using c a p ne unfolding readable_def by (intro exI [of _ a] exI [of _ cs]) simp
        moreover have "flush_incoming_buffer n s = Ok (take n (pending_data s), ?s)"
          using pending False by (auto simp: flush_incoming_buffer_def Let_def)
        moreover have "bs = take n (pending_data s) @ drop n (pending_data s) @ concat cs" using bs by simp
        moreover have "take n (pending_data s) \<noteq> []" using pending assms(2) by simp
        ultimately show ?thesis by blast
      qed
    qed
  qed
qed

lemma readable_Nil: "readable e [] s \<Longrightarrow> incoming_buffer s = [] \<and> pending_data s = [] \<and> sock_ack_nr s = e"
  unfolding readable_def by (cases "incoming_buffer s") auto

lemma read_all_readable:
  "readable e bs s \<Longrightarrow> 0 < n \<Longrightarrow> length bs \<le> k \<Longrightarrow> \<exists>s'. read_all k n s = Ok (bs, s') \<and> readable e [] s'"
proof (induction k arbitrary: bs s)
  case (Suc k)
  obtain xs ys s' where f: "flush_incoming_buffer n s = Ok (xs, s')" "bs = xs @ ys" "readable e ys s'" "bs \<noteq> [] \<longrightarrow> xs \<noteq> []"
    using flush_readable [OF Suc.prems(1,2)] by blast
  then have "length ys \<le> k" using Suc.prems(3) by (cases xs) auto
  then show ?case using Suc.IH [OF f(3) Suc.prems(2)] f by auto
qed simp

section \<open>Packets that arrive in any order\<close>

abbreviation by_seq :: "Packet list \<Rightarrow> bool" where
  "by_seq \<equiv> sorted_wrt (\<lambda>p q. packet_seq_nr p < packet_seq_nr q)"

lemma buffer_replaced:
  assumes "f = s\<lparr>incoming_buffer := b\<rparr>" and "by_seq b" and "set b = insert p (set (incoming_buffer s))"
  shows "\<exists>b. f = s\<lparr>incoming_buffer := b\<rparr> \<and> by_seq b \<and> set b \<subseteq> insert p (set (incoming_buffer s)) \<and>
     packet_seq_nr ` set b = insert (packet_seq_nr p) (packet_seq_nr ` set (incoming_buffer s))"
  by (rule exI [of _ b]) (simp only: assms image_insert order_refl simp_thms)

lemma insert_into_buffer_sorted:
  assumes "by_seq (incoming_buffer s)"
  shows "\<exists>b. insert_into_buffer p s = s\<lparr>incoming_buffer := b\<rparr> \<and> by_seq b \<and>
     set b \<subseteq> insert p (set (incoming_buffer s)) \<and>
     packet_seq_nr ` set b = insert (packet_seq_nr p) (packet_seq_nr ` set (incoming_buffer s))"
proof -
  let ?buf = "incoming_buffer s"
  define i where "i = length (filter (\<lambda>q. packet_seq_nr q < packet_seq_nr p) ?buf)"
  consider (snoc) "?buf \<noteq> [] \<and> packet_seq_nr p > packet_seq_nr (last ?buf)"
    | (same) "\<not> (?buf \<noteq> [] \<and> packet_seq_nr p > packet_seq_nr (last ?buf))" "i < length ?buf \<and> packet_seq_nr (?buf ! i) = packet_seq_nr p"
    | (ins) "\<not> (?buf \<noteq> [] \<and> packet_seq_nr p > packet_seq_nr (last ?buf))" "\<not> (i < length ?buf \<and> packet_seq_nr (?buf ! i) = packet_seq_nr p)"
    by blast
  then show ?thesis
  proof cases
    case snoc
    have "insert_into_buffer p s = s\<lparr>incoming_buffer := ?buf @ [p]\<rparr>"
      unfolding insert_into_buffer_def Let_def if_P [OF snoc] ..
    moreover have "set (?buf @ [p]) = insert p (set ?buf)" by simp
    moreover have "by_seq (?buf @ [p])" using ascending_snoc [OF assms] snoc by blast
    ultimately show ?thesis by (intro buffer_replaced)
  next
    case same
    then have "packet_seq_nr p \<in> packet_seq_nr ` set ?buf" by (metis image_eqI nth_mem)
    moreover have "insert_into_buffer p s = s\<lparr>incoming_buffer := ?buf\<rparr>"
      unfolding insert_into_buffer_def Let_def i_def [symmetric] if_not_P [OF same(1)] if_P [OF same(2)] by simp
    ultimately show ?thesis using assms by (metis insert_absorb subset_insertI)
  next
    case ins
    have "set (take i ?buf) \<union> set (drop i ?buf) = set ?buf" by (metis append_take_drop_id set_append)
    then have "set (take i ?buf @ p # drop i ?buf) = insert p (set ?buf)"
      unfolding set_append list.set by blast
    moreover have "insert_into_buffer p s = s\<lparr>incoming_buffer := take i ?buf @ p # drop i ?buf\<rparr>"
      unfolding insert_into_buffer_def Let_def i_def [symmetric] if_not_P [OF ins(1)] if_not_P [OF ins(2)] ..
    ultimately show ?thesis using ascending_insert [OF assms i_def ins(2)] by (intro buffer_replaced)
  qed
qed

lemma fold_insert_into_buffer:
  "by_seq (incoming_buffer s) \<Longrightarrow> \<exists>b. fold insert_into_buffer qs s = s\<lparr>incoming_buffer := b\<rparr> \<and> by_seq b \<and>
     set b \<subseteq> set qs \<union> set (incoming_buffer s) \<and>
     packet_seq_nr ` set b = packet_seq_nr ` set qs \<union> packet_seq_nr ` set (incoming_buffer s)"
proof (induction qs arbitrary: s)
  case Nil
  then show ?case by (intro exI [of _ "incoming_buffer s"]) simp
next
  case (Cons q qs)
  obtain b where b: "insert_into_buffer q s = s\<lparr>incoming_buffer := b\<rparr>" "by_seq b" "set b \<subseteq> insert q (set (incoming_buffer s))"
     "packet_seq_nr ` set b = insert (packet_seq_nr q) (packet_seq_nr ` set (incoming_buffer s))"
    using insert_into_buffer_sorted [OF Cons.prems] by blast
  obtain c where "fold insert_into_buffer qs (s\<lparr>incoming_buffer := b\<rparr>) = s\<lparr>incoming_buffer := c\<rparr>" "by_seq c"
      "set c \<subseteq> set qs \<union> set b" "packet_seq_nr ` set c = packet_seq_nr ` set qs \<union> packet_seq_nr ` set b"
    using Cons.IH [of "s\<lparr>incoming_buffer := b\<rparr>"] b(2) by auto
  then show ?case using b by (intro exI [of _ c]) auto
qed

lemma consecutive_nth:
  "(\<And>i. i < length ps \<Longrightarrow> packet_seq_nr (ps ! i) = a + 1 + of_nat i) \<Longrightarrow> consecutive a ps (a + of_nat (length ps))"
proof (induction ps arbitrary: a)
  case (Cons p ps)
  have "packet_seq_nr (ps ! i) = a + 1 + 1 + of_nat i" if "i < length ps" for i
    using Cons.prems [of "Suc i"] that by (simp add: algebra_simps)
  from Cons.IH [OF this] show ?case using Cons.prems [of 0] by (simp add: algebra_simps)
qed simp

lemma seq_numbers_ascend:
  fixes a :: u16
  assumes "unat a + n \<le> 2 ^ 16"
  shows "sorted_wrt (<) (map (\<lambda>i. a + of_nat i) [0..<n])"
proof -
  have "a + of_nat i < a + of_nat j" if "i < j" "j < n" for i j
  proof -
    have u: "unat (a + of_nat k) = unat a + k" if "k < n" for k
      using that assms unat_add_lem [of a "of_nat k"] by (simp add: unat_of_nat take_bit_nat_eq_self)
    show ?thesis using that u [of i] u [of j] by (simp add: word_less_nat_alt)
  qed
  then show ?thesis by (simp add: sorted_wrt_iff_nth_less)
qed

text \<open>What the network delivers is a packet of the writer, stamped when it was sent.\<close>

definition stamped :: "Packet \<Rightarrow> Packet \<Rightarrow> bool" where
  "stamped p q \<longleftrightarrow> (\<exists>t d. q = set_timestamp_difference d (set_timestamp t p))"

lemma stamped_facts:
  assumes "stamped p q" and "packet_try_from p = Ok p"
  shows "packet_seq_nr q = packet_seq_nr p" and "payload q = payload p"
proof -
  obtain t d where q: "q = set_timestamp_difference d (set_timestamp t p)" using assms(1) by (auto simp: stamped_def)
  show "payload q = payload p" using assms(2) by (simp add: q fields_keep)
  show "packet_seq_nr q = packet_seq_nr p" by (simp add: q packet_seq_nr_def setter_defs)
qed

lemma same_seq_same_packets:
  assumes "by_seq b" and "map packet_seq_nr ps = ns" and "sorted_wrt (<) ns"
    and "packet_seq_nr ` set b = packet_seq_nr ` set ps"
    and "\<And>q. q \<in> set b \<Longrightarrow> \<exists>p\<in>set ps. packet_seq_nr q = packet_seq_nr p \<and> payload q = payload p"
  shows "map packet_seq_nr b = ns" and "map payload b = map payload ps"
proof -
  have "sorted_wrt (<) (map packet_seq_nr b)" using assms(1) by (simp only: sorted_wrt_map)
  moreover have "set (map packet_seq_nr b) = set ns" using assms(2,4) by (metis list.set_map)
  ultimately show ns: "map packet_seq_nr b = ns" using assms(3) by (metis strict_sorted_equal)
  have inj: "distinct (map packet_seq_nr ps)" using assms(2,3) by (metis strict_sorted_iff)
  have l: "length b = length ps" using ns assms(2) by (metis length_map)
  show "map payload b = map payload ps"
  proof (rule nth_equalityI)
    fix i assume "i < length (map payload b)"
    then have i: "i < length b" "i < length ps" using l by simp_all
    obtain p where p: "p \<in> set ps" "packet_seq_nr (b ! i) = packet_seq_nr p" "payload (b ! i) = payload p"
      using assms(5) i(1) by (meson nth_mem)
    have "packet_seq_nr (b ! i) = packet_seq_nr (ps ! i)" using ns assms(2) i by (metis nth_map)
    with p inj have "p = ps ! i" using i(2) by (metis distinct_map inj_onD nth_mem)
    with p i show "map payload b ! i = map payload ps ! i" by simp
  qed (simp add: l)
qed



section \<open>A gap in the stream\<close>

text \<open>
  C34. When the rest of a packet is read completely, the next packet of the incoming buffer is taken although
  packets before it are missing: two reads return the data on both sides of the gap as if it were contiguous.
\<close>

theorem read_skips_missing:
  assumes "pending_data s \<noteq> []" and "length (pending_data s) \<le> n"
    and "incoming_buffer s = [p]" and "payload p = Ok pl" and "length pl \<le> n" and "pl \<noteq> []"
    and missing: "1 < packet_seq_nr p - sock_ack_nr s"
  shows "\<exists>s'. read_all 2 n s = Ok (pending_data s @ pl, s') \<and> sock_ack_nr s' = packet_seq_nr p"
proof -
  have "flush_incoming_buffer n s = Ok (pending_data s,
      s\<lparr>incoming_buffer := [], sock_ack_nr := packet_seq_nr p, last_dropped := packet_seq_nr p, pending_data := pl\<rparr>)"
    using assms by (simp add: flush_incoming_buffer_def advance_incoming_buffer_def)
  then show ?thesis using assms(5,6)
    by (simp add: numeral_2_eq_2 flush_incoming_buffer_def [of n "s\<lparr>incoming_buffer := _, sock_ack_nr := _, last_dropped := _, pending_data := _\<rparr>"] advance_incoming_buffer_def)
qed

theorem read_skips_missing_witness:
  "\<exists>s p s'. packet_seq_nr p = 5 \<and> incoming_buffer s = [p] \<and> sock_ack_nr s = 0 \<and> read_all 2 9 s = Ok ([1, 2], s')"
proof -
  let ?p = "set_seq_nr 5 (with_payload [2])"
  let ?s = "from_raw_parts sample_addr 7\<lparr>incoming_buffer := [?p], pending_data := [1]\<rparr>"
  have p: "packet_seq_nr ?p = 5" by (simp add: packet_seq_nr_def setter_defs)
  have "payload ?p = Ok [2]" using payload_repr [OF with_payload_repr] with_payload_ok by (simp add: fields_keep)
  moreover have s: "sock_ack_nr ?s = 0" by (simp add: from_raw_parts_def Let_def split_beta)
  ultimately obtain s' where "read_all 2 9 ?s = Ok ([1, 2], s')"
    using read_skips_missing [of ?s 9 ?p "[2]"] p by auto
  then show ?thesis using p s by (intro exI [of _ ?s] exI [of _ ?p] exI [of _ s']) simp
qed

end
