(* ===== verification/Utp_Sack.thy ===== *)
theory Utp_Sack
  imports Utp_Window
begin

text \<open>
  Selective acknowledgements: the bit vector that \<open>build_selective_ack\<close> builds from the packets received out of
  order, read with the bit iterator as the peer reads it.
\<close>

section \<open>Setting bits\<close>

definition sack_bit :: "bytes \<Rightarrow> nat \<times> nat \<Rightarrow> bool" where
  "sack_bit sack x \<longleftrightarrow> fst x < length sack \<and> bit (sack ! fst x) (snd x)"

lemma sack_bit_pad: "sack_bit (sack_pad b sack) x \<longleftrightarrow> sack_bit sack x"
proof -
  obtain n where "sack_pad b sack = sack @ replicate n 0" using sack_pad_zeros by blast
  then show ?thesis by (auto simp: sack_bit_def nth_append)
qed

lemma sack_bit_set:
  assumes "k < 8" and "snd x < 8"
  shows "sack_bit (set_sack_bit sack (b, k)) x \<longleftrightarrow> sack_bit sack x \<or> x = (b, k)"
proof -
  define sp where "sp = sack_pad b sack"
  have b: "b < length sp" unfolding sp_def using sack_pad_length by blast
  have "bit (y OR push_bit k 1) j \<longleftrightarrow> bit y j \<or> j = k" if "j < 8" for y :: byte and j
    using that assms(1) by (auto simp: bit_or_iff bit_push_bit_iff bit_1_iff bit_exp_iff)
  then have "sack_bit (sp[b := sp ! b OR push_bit k 1]) x \<longleftrightarrow> sack_bit sp x \<or> x = (b, k)"
    using b assms(2) by (cases x) (auto simp: sack_bit_def nth_list_update)
  moreover have "set_sack_bit sack (b, k) = sp[b := sp ! b OR push_bit k 1]"
    unfolding set_sack_bit_def sp_def by (simp only: Let_def split_conv)
  ultimately show ?thesis using sack_bit_pad unfolding sp_def by metis
qed

lemma sack_bit_fold:
  assumes "list_all (\<lambda>y. snd y < 8) ys" and "snd x < 8"
  shows "sack_bit (foldl set_sack_bit sack ys) x \<longleftrightarrow> sack_bit sack x \<or> x \<in> set ys"
  using assms(1)
proof (induction ys arbitrary: sack)
  case (Cons y ys)
  obtain b k where "y = (b, k)" by force
  with Cons show ?case using sack_bit_set [OF _ assms(2), of k sack b] by auto
qed simp

abbreviation bit_position :: "nat \<Rightarrow> nat \<times> nat" where
  "bit_position i \<equiv> (i div 8, i mod 8)"

lemma bit_position_inj: "bit_position i = bit_position j \<longleftrightarrow> i = j"
  by (metis div_mult_mod_eq prod.inject)

section \<open>The bits the iterator yields\<close>

lemma take_bits_from:
  "end_index it = next_index it + n \<Longrightarrow>
   take_bits n it = map (\<lambda>i. bit (bi_object it ! (i div 8)) (i mod 8)) [next_index it..<next_index it + n]"
proof (induction n arbitrary: it)
  case (Suc n)
  have "drop_bit j b AND 1 = 1 \<longleftrightarrow> bit b j" for b :: byte and j
    by (simp add: and_one_eq mod_2_eq_odd bit_iff_odd_drop_bit)
  moreover have "[k..<k + Suc n] = k # [Suc k..<Suc k + n]" for k by (simp add: upt_conv_Cons del: upt_Suc)
  ultimately show ?case using Suc.IH [of "it\<lparr>next_index := next_index it + 1\<rparr>"] Suc.prems
    by (simp add: bit_iterator_next_def Let_def U8BITS_def del: upt_Suc)
qed simp

lemma iter_bits_from_bytes:
  "iter_bits (bit_iterator_from_bytes bs) = map (\<lambda>i. sack_bit bs (bit_position i)) [0..<length bs * 8]"
proof -
  have "iter_bits (bit_iterator_from_bytes bs) = map (\<lambda>i. bit (bs ! (i div 8)) (i mod 8)) [0..<length bs * 8]"
    using take_bits_from [of "bit_iterator_from_bytes bs" "length bs * 8"]
    by (simp add: iter_bits_def bit_iterator_from_bytes_def U8BITS_def)
  also have "\<dots> = map (\<lambda>i. sack_bit bs (bit_position i)) [0..<length bs * 8]"
    by (rule map_cong) (auto simp: sack_bit_def less_mult_imp_div_less)
  finally show ?thesis .
qed

lemma sack_bit_less: "sack_bit bs (bit_position i) \<Longrightarrow> i < length bs * 8"
  by (simp add: sack_bit_def div_less_iff_less_mult)

lemma build_selective_ack_bit:
  "sack_bit (build_selective_ack s) (bit_position i) \<longleftrightarrow>
     (\<exists>p\<in>set (incoming_buffer s). packet_seq_nr p > sock_ack_nr s + 1 \<and> unat (packet_seq_nr p - sock_ack_nr s - 2) = i)"
proof -
  define ds where "ds = map (\<lambda>pkt. unat (packet_seq_nr pkt - sock_ack_nr s - 2))
       (filter (\<lambda>pkt. packet_seq_nr pkt > sock_ack_nr s + 1) (incoming_buffer s))"
  have "list_all (\<lambda>y. snd y < 8) (map bit_position ds)" by (simp add: list_all_iff)
  then have "sack_bit (build_selective_ack s) (bit_position i) \<longleftrightarrow>
      sack_bit [] (bit_position i) \<or> bit_position i \<in> set (map bit_position ds)"
    unfolding build_selective_ack_fold ds_def [symmetric] by (intro sack_bit_fold) simp_all
  also have "\<dots> \<longleftrightarrow> i \<in> set ds" unfolding set_map image_iff bit_position_inj by (simp add: sack_bit_def)
  also have "\<dots> \<longleftrightarrow> (\<exists>p\<in>set (incoming_buffer s). packet_seq_nr p > sock_ack_nr s + 1 \<and> unat (packet_seq_nr p - sock_ack_nr s - 2) = i)"
    unfolding ds_def set_map set_filter by blast
  finally show ?thesis .
qed

text \<open>
  C16. The sequence numbers that a peer computes from the set bits of a selective acknowledgement, counted from
  two after the acknowledged number, are exactly those of the packets received beyond the next expected one.
\<close>

theorem selective_ack_names_received:
  "(let bits = iter_bits (extension_iter \<lparr>ty = SelectiveAck, ext_data = build_selective_ack s\<rparr>)
    in {sock_ack_nr s + 2 + of_nat i | i. i < length bits \<and> bits ! i}) =
   packet_seq_nr ` {p \<in> set (incoming_buffer s). packet_seq_nr p > sock_ack_nr s + 1}"
proof -
  have ahead: "a + 2 + of_nat (unat (q - a - 2)) = q" for a q :: u16 by simp
  let ?P = "\<lambda>i. \<exists>p\<in>set (incoming_buffer s). packet_seq_nr p > sock_ack_nr s + 1 \<and> unat (packet_seq_nr p - sock_ack_nr s - 2) = i"
  have "{sock_ack_nr s + 2 + of_nat i | i. ?P i} = packet_seq_nr ` {p \<in> set (incoming_buffer s). packet_seq_nr p > sock_ack_nr s + 1}"
  proof (intro set_eqI iffI)
    fix x assume "x \<in> packet_seq_nr ` {p \<in> set (incoming_buffer s). packet_seq_nr p > sock_ack_nr s + 1}"
    then obtain p where "p \<in> set (incoming_buffer s)" "packet_seq_nr p > sock_ack_nr s + 1" "x = packet_seq_nr p" by blast
    then show "x \<in> {sock_ack_nr s + 2 + of_nat i | i. ?P i}" 
      by (intro CollectI exI [of _ "unat (x - sock_ack_nr s - 2)"] conjI) (auto simp: ahead)
  qed (use ahead in auto)
  moreover have "i < length bits \<and> bits ! i \<longleftrightarrow> ?P i"
    if "bits = iter_bits (bit_iterator_from_bytes (build_selective_ack s))" for bits i
  proof -
    have "i < length bits \<and> bits ! i \<longleftrightarrow> sack_bit (build_selective_ack s) (bit_position i)"
      using sack_bit_less by (auto simp: that iter_bits_from_bytes)
    then show ?thesis unfolding build_selective_ack_bit .
  qed
  ultimately show ?thesis by (simp add: extension_iter_def Let_def)
qed

section \<open>An acknowledgement that does not fit\<close>

lemma sack_pad_exact: "length sack \<le> 4 * (b div 4 + 1) \<Longrightarrow> length (sack_pad b sack) = 4 * (b div 4 + 1)"
proof (induction b sack rule: sack_pad.induct)
  case (1 b sack)
  let ?m = "4 * (b div 4 + 1)"
  have m: "b < ?m" "?m mod 4 = 0" "?m \<le> b + 4" by (simp_all add: dividend_less_times_div)
  show ?case
  proof (cases "b \<ge> length sack \<or> length sack mod 4 \<noteq> 0")
    case True
    then have "length sack \<noteq> ?m" using m by (metis leD)
    then have "length (sack @ [0]) \<le> ?m" using "1.prems" by simp
    then show ?thesis using 1(1) [OF True] sack_pad_step [OF True] by metis
  next
    case False
    then obtain q where q: "length sack = 4 * q" and "b < 4 * q" by (metis dvd_def mod_eq_0_iff_dvd not_le)
    then have "b div 4 + 1 \<le> q" by (metis Suc_eq_plus1 Suc_leI div_less_iff_less_mult mult.commute zero_less_numeral)
    then have "length sack = ?m" using q "1.prems" by simp
    then show ?thesis using sack_pad_done [OF False] by metis
  qed
qed

lemma check_loop_zero:
  "index + 1 < length bs \<Longrightarrow> bs ! (index + 1) = 0 \<Longrightarrow> t \<noteq> NoExtension \<Longrightarrow> check_loop bs index t = Err InvalidExtensionLength"
  by (subst check_loop.simps) simp

text \<open>
  C35. The length byte of the extension overflows: when the only packet received out of order is 2018 to 2049
  numbers ahead, the selective acknowledgement has 256 bytes, its length byte is zero, and the peer's parser
  rejects the reply.
\<close>

theorem selective_ack_overflow:
  assumes "incoming_buffer s = [p]" and "packet_seq_nr p > sock_ack_nr s + 1"
    and "2016 \<le> unat (packet_seq_nr p - sock_ack_nr s - 2)" and "unat (packet_seq_nr p - sock_ack_nr s - 2) < 2048"
    and "packet_try_from reply = Ok reply" and "extensions reply = Ok []"
  shows "\<exists>q. set_sack (build_selective_ack s) reply = Ok q \<and> packet_try_from q = Err InvalidExtensionLength"
proof -
  define d where "d = unat (packet_seq_nr p - sock_ack_nr s - 2)"
  define bv where "bv = build_selective_ack s"
  have "d div 8 div 4 = 63" using assms(3,4) unfolding d_def [symmetric] by (simp add: div_mult2_eq [symmetric] div_nat_eqI)
  then have l: "length bv = 256"
    using assms(1,2) sack_pad_exact [of "[]" "d div 8"]
    unfolding bv_def build_selective_ack_fold d_def by (simp add: length_set_sack_bit)
  obtain es pl where r: "packet_repr reply es pl" and h: "header_ok (reply ! 0)"
    using assms(5) unfolding packet_try_from_Ok by blast
  have es: "es = []" using extensions_repr [OF r] assms(6) by simp
  let ?q = "take 20 (reply[1 := 1]) @ 0 # 0 # bv @ pl"
  have q: "set_sack bv reply = Ok ?q" using set_sack_repr [OF r, of bv] l es by simp
  have len: "length (take 20 (reply[1 := 1])) = 20" using r by (simp add: packet_repr_def)
  have nth: "?q ! 0 = reply ! 0" "?q ! 1 = 1" "?q ! 21 = 0"
    using r by (simp_all add: packet_repr_def nth_append len)
  have "is_ok (header_try_from ?q)" unfolding header_try_from_ok using h nth len by simp
  then obtain hd where "header_try_from ?q = Ok hd" by (cases "header_try_from ?q") auto
  moreover have "check_loop ?q 20 (extension_type_from 1) = Err InvalidExtensionLength"
    by (rule check_loop_zero) (use nth(3) len in simp_all)
  then have "check_extensions ?q = Err InvalidExtensionLength"
    unfolding check_extensions_def nth(2) using len by (simp add: HEADER_SIZE_def)
  ultimately have "packet_try_from ?q = Err InvalidExtensionLength" by (simp add: packet_try_from_def)
  with q show ?thesis unfolding bv_def by blast
qed

theorem selective_ack_overflow_witness:
  "\<exists>s q. set_sack (build_selective_ack s) packet_new = Ok q \<and> packet_try_from q = Err InvalidExtensionLength"
proof -
  let ?p = "set_seq_nr 2020 packet_new" and ?s = "from_raw_parts sample_addr 7"
  have "packet_seq_nr ?p = 2020" by (simp add: packet_seq_nr_def setter_defs)
  moreover have "sock_ack_nr ?s = 0" by (simp add: from_raw_parts_def Let_def split_beta)
  moreover have "extensions packet_new = Ok []" by code_simp
  ultimately show ?thesis
    using selective_ack_overflow [of "?s\<lparr>incoming_buffer := [?p]\<rparr>" ?p packet_new] packet_new_ok by auto
qed

end
