(* ===== verification/Spec2Isabelle.thy ===== *)
theory Spec2Isabelle
  imports Bencode_Correct Util_Convert Util_Sha Util_Timer Util_Send Util_Trans Util_Contiguous Dht_Closest Dht_Transaction Dht_Token Dht_Storage Dht_Message_Correct Dht_Service
    Utp_Extension Utp_Progress Utp_Stream Utp_Sack
begin

text \<open>
  A verification of the BitTorrent protocol library. The sources are the crates under
  \<open>src/bittorrent-protocol/btp-*\<close>; the older copy of the same modules in the single crate
  \<open>src/bittorrent-protocol/src\<close> is not modelled separately.

  \<^bold>\<open>Parts of the program.\<close> \<open>btp-bencode\<close> decodes and encodes the bencode format; DHT messages,
  torrent files and peer extensions are bencoded. \<open>btp-util\<close> has the pieces every other crate uses:
  big-endian conversions of addresses, the 20-byte hash, a timer, a sender that splits a channel,
  transaction ids and contiguous buffers. \<open>btp-dht\<close> is a node of the mainline DHT: a routing table of
  buckets of nodes, transaction ids, tokens that a peer must return to announce, the store of
  announced peers, the messages, and an event loop that answers requests and runs the bootstrap, the refresh
  of the table and the lookups. \<open>btp-utp\<close> is the micro transport protocol, a reliable stream over
  UDP with delay-based congestion control.

  \<^bold>\<open>How the model is built.\<close> Definitions carry the source's names where these are free; the manifest gives
  for each of them the file and the lines it translates. Structs are records, enums datatypes,
  integers words of their width (arithmetic wraps, as in a release build, and conversions truncate
  where the source does so), \<open>usize\<close> counters and indices natural numbers, dictionaries keyed by
  byte strings sorted association lists, \<open>HashMap\<close>s functions to options. A fallible operation returns
  \<open>outcome\<close>: \<open>Ok\<close>, \<open>Err\<close> or \<open>Panic\<close>, and every \<open>unwrap\<close>, index out of range and failed assertion of the
  source is a branch that panics. Mutation is explicit state passing. Code outside the sources is a
  parameter: SHA-1, chrono's time difference, random numbers, the system clock, the tokio sleep, the
  sender wrapped by the split sender, floating point arithmetic, the datagrams a UDP socket delivers, and
  for the event loop its channels and the resolution of names (record \<open>Env\<close>).
  Where a property needs something of a parameter it is a hypothesis, and a witness instantiates it.

  \<^bold>\<open>Theories.\<close>
  \<^item> \<open>Prelude\<close> and \<open>Rust_Std\<close>: types, outcomes, generic lemmas and the proof collections
    \<open>outcome_simps\<close> and \<open>slice_simps\<close>; decimal numbers, UTF-8 and \<open>BTreeMap\<close> of the standard library.
  \<^item> \<open>Bencode_Access\<close>, \<open>Bencode_Decode\<close>, \<open>Bencode_Encode\<close>, \<open>Bencode_Correct\<close>: the data model and its
    access traits (as locales, interpreted on the borrowed and on the owned representation), the decoder
    of \<open>reference/decode.rs\<close>, the encoder of \<open>mutable/encode.rs\<close>. Shown: both round trips, the shape and depth
    of what is decoded, and where the decoder panics.
  \<^item> \<open>Util_Convert\<close>, \<open>Util_Sha\<close>, \<open>Util_Timer\<close>, \<open>Util_Send\<close>, \<open>Util_Trans\<close>, \<open>Util_Contiguous\<close>: the modules
    of \<open>btp-util\<close> of these names. Shown: addresses survive their wire form (locale \<open>be_codec\<close>); the
    number of leading equal bits; the timer refines a map of timeouts; a split sender respects its
    capacity under every interleaving of its atomic steps; generated ids are distinct; several
    buffers behave as one (locale \<open>contiguous_buffer\<close>, interpreted on vectors and on buffers of buffers).
  \<^item> \<open>Dht_Node\<close>, \<open>Dht_Bucket\<close>, \<open>Dht_Table\<close>, \<open>Dht_Closest\<close>: the routing table of \<open>btp-dht/src/routing\<close>. The recursion of
    \<open>add_node\<close> and \<open>split_bucket\<close> has a fuel of 160, the maximal number of buckets; a
    split always adds a bucket, so it is enough, and \<open>add_node\<close> is shown to return. Shown: the
    invariant of the table, what adding a node does, lookups, and that the closest-nodes iterator ends
    and is complete.
  \<^item> \<open>Dht_Transaction\<close>, \<open>Dht_Token\<close>, \<open>Dht_Storage\<close>: \<open>transaction.rs\<close>, \<open>token.rs\<close> and \<open>storage.rs\<close>. Shown:
    a response is routed to the action that asked; how long tokens are valid; the store refines a map
    with expiry.
  \<^item> \<open>Bencode_Build\<close>, \<open>Dht_Message\<close>, \<open>Dht_Message_Correct\<close>: the macros that build bencode values, with the lemmas
    that read a built dictionary back after encoding and decoding; all messages of \<open>btp-dht/src/message\<close>. Shown:
    every message survives encoding, decoding and parsing; parsing never panics; a \<open>get_peers\<close> response without
    a token is lost.
  \<^item> \<open>Dht_Worker\<close>, \<open>Dht_Bootstrap\<close>, \<open>Dht_Lookup\<close>, \<open>Dht_Lookup_Correct\<close>: what the actions of \<open>btp-dht/src/worker\<close>
    share (routing table, timer and out channel in the record \<open>Worker\<close>), \<open>refresh.rs\<close> and \<open>bootstrap.rs\<close>, \<open>lookup.rs\<close>. Shown: what
    every step keeps of the tasks on the timer and of the addresses in the table, with the relation \<open>keeps_tasks\<close>.
  \<^item> \<open>Dht_Handler\<close>, \<open>Dht_Handler_Correct\<close>, \<open>Dht_Loop\<close>, \<open>Dht_Service\<close>: \<open>handler.rs\<close>, with the record \<open>DhtHandler\<close>, one function for every
    command, datagram and timeout, and \<open>run\<close>, the loop over a sequence of inputs. Shown, with triples \<open>handles\<close> over the three
    outcomes: an action in progress always has a timer pending that takes it on; the loop does not panic on
    IPv4 inputs that decode, and does on a datagram that does not; the actions stay within their bounds;
    every request is answered once; an announced peer is told to the next asker.
  \<^item> \<open>Utp_Packet\<close>, \<open>Utp_Extension\<close>: packets as byte vectors whose header is read and written through a
    cast to a structure in little-endian memory; parsing, payload, extensions.
  \<^item> \<open>Utp_Socket\<close>: all of \<open>socket.rs\<close> for a bound socket, in a state-passing style over the socket and
    the outside world. \<open>recv\<close> and the functions it calls are mutually recursive; the recursion has a
    fuel and \<open>Utp_Progress\<close> shows that more fuel than datagrams is enough, since every nested receive consumes one.
    \<open>Utp_Window\<close> shows the invariant of the socket with a Hoare triple, \<open>Utp_Buffers\<close> and \<open>Utp_Stream\<close> that what is
    written is read by the peer whatever the order of arrival, \<open>Utp_Sack\<close> what a selective acknowledgement says.

  \<^bold>\<open>Not modelled.\<close> Output for debugging; the UDP sockets, the client interface and the spawning of tasks of the DHT,
  and its ids derived from addresses (\<open>security.rs\<close>), which the event loop does not use; the disk, handshake,
  metainfo, peer, selection and tracker crates; binding and resolving addresses; the unfinished
  \<open>try_clone\<close> of a uTP socket and the stream wrappers that only forward to it; crates with a placeholder only
  (\<open>btp-htracker\<close>, \<open>btp-lsd\<close>, \<open>btp-magnet\<close>, \<open>btp-nat\<close>).
\<close>

end
